(* ===== verification/Text.thy ===== *)
theory Text
  imports Prelude
begin

text \<open>
  Rust strings. A \<open>char\<close> is a Unicode scalar value (the type \<open>uchar\<close>), a \<open>String\<close> or
  \<open>&str\<close> is a list of them, and its bytes are the UTF-8 encoding. \<open>from_utf8\<close> is
  \<open>std::str::from_utf8\<close>: it accepts exactly the well-formed encodings (no overlong forms,
  no surrogates, nothing above 10FFFF). The main fact is the round trip
  \<open>from_utf8_utf8\<close>. ASCII case folding is modelled; the Unicode tables behind
  \<open>to_lowercase\<close> are a parameter of the definitions that need them.
\<close>

section \<open>Characters\<close>

typedef uchar = "{n::nat. n < 55296 \<or> (57343 < n \<and> n < 1114112)}"
  morphisms code_point Abs_uchar
  by (rule exI [of _ 0]) simp

setup_lifting type_definition_uchar

lift_definition uchar_of :: "nat \<Rightarrow> uchar" is
  "\<lambda>n. if n < 55296 \<or> (57343 < n \<and> n < 1114112) then n else 65533"
  by simp

instantiation uchar :: equal
begin

definition equal_uchar :: "uchar \<Rightarrow> uchar \<Rightarrow> bool" where
  "equal_uchar a b \<longleftrightarrow> code_point a = code_point b"

instance
  by standard (simp add: equal_uchar_def code_point_inject)

end

instantiation uchar :: linorder
begin

definition less_eq_uchar :: "uchar \<Rightarrow> uchar \<Rightarrow> bool" where
  "a \<le> b \<longleftrightarrow> code_point a \<le> code_point b"

definition less_uchar :: "uchar \<Rightarrow> uchar \<Rightarrow> bool" where
  "a < b \<longleftrightarrow> code_point a < code_point b"

instance
  by standard (auto simp: less_eq_uchar_def less_uchar_def simp flip: code_point_inject)

end

type_synonym rstr = "uchar list"

lemma code_point_uchar_of [simp]:
  "n < 55296 \<or> (57343 < n \<and> n < 1114112) \<Longrightarrow> code_point (uchar_of n) = n"
  by (simp add: uchar_of.rep_eq)

lemma uchar_of_code_point [simp]: "uchar_of (code_point c) = c"
  using code_point [of c] by (simp flip: code_point_inject add: uchar_of.rep_eq)

lemma code_point_scalar: "code_point c < 55296 \<or> (57343 < code_point c \<and> code_point c < 1114112)"
  using code_point [of c] by simp

text \<open>An ASCII literal as a Rust string.\<close>

definition str :: "string \<Rightarrow> rstr" where
  "str s = map (\<lambda>c. uchar_of (of_char c)) s"

lemma of_char_scalar [simp]: "(of_char c :: nat) < 55296"
  by (cases c) (simp only: of_char_Char, simp)

text \<open>A literal with other characters, by their code points.\<close>

definition uni :: "nat list \<Rightarrow> rstr" where
  "uni ns = map uchar_of ns"

section \<open>UTF-8\<close>

definition utf8_char :: "uchar \<Rightarrow> u8 list" where
  "utf8_char c =
     (let n = code_point c in
      if n < 128 then [byte n]
      else if n < 2048 then [byte (192 + n div 64), byte (128 + n mod 64)]
      else if n < 65536 then
        [byte (224 + n div 4096), byte (128 + n div 64 mod 64),
         byte (128 + n mod 64)]
      else
        [byte (240 + n div 262144), byte (128 + n div 4096 mod 64),
         byte (128 + n div 64 mod 64), byte (128 + n mod 64)])"

text \<open>\<open>str::as_bytes\<close> and \<open>str::len\<close>.\<close>

definition utf8 :: "rstr \<Rightarrow> u8 list" where
  "utf8 s = concat (map utf8_char s)"

definition str_bytes_len :: "rstr \<Rightarrow> nat" where
  "str_bytes_len s = length (utf8 s)"

definition cont :: "u8 \<Rightarrow> bool" where
  "cont b \<longleftrightarrow> 128 \<le> unat b \<and> unat b < 192"

definition low6 :: "u8 \<Rightarrow> nat" where
  "low6 b = unat b - 128"

definition utf8_ok :: "nat \<Rightarrow> nat \<Rightarrow> bool" where
  "utf8_ok lo n \<longleftrightarrow> lo \<le> n \<and> (n < 55296 \<or> (57343 < n \<and> n < 1114112))"

fun from_utf8 :: "u8 list \<Rightarrow> rstr option" where
  "from_utf8 [] = Some []"
| "from_utf8 (b # bs) =
     (let n = unat b in
      if n < 128 then map_option ((#) (uchar_of n)) (from_utf8 bs)
      else if n < 192 then None
      else if n < 224 then
        (case bs of
           c1 # r \<Rightarrow>
             (let cp = (n - 192) * 64 + low6 c1 in
              if cont c1 \<and> utf8_ok 128 cp then map_option ((#) (uchar_of cp)) (from_utf8 r)
              else None)
         | _ \<Rightarrow> None)
      else if n < 240 then
        (case bs of
           c1 # c2 # r \<Rightarrow>
             (let cp = (n - 224) * 4096 + low6 c1 * 64 + low6 c2 in
              if cont c1 \<and> cont c2 \<and> utf8_ok 2048 cp
              then map_option ((#) (uchar_of cp)) (from_utf8 r) else None)
         | _ \<Rightarrow> None)
      else if n < 248 then
        (case bs of
           c1 # c2 # c3 # r \<Rightarrow>
             (let cp = (n - 240) * 262144 + low6 c1 * 4096 + low6 c2 * 64 + low6 c3 in
              if cont c1 \<and> cont c2 \<and> cont c3 \<and> utf8_ok 65536 cp
              then map_option ((#) (uchar_of cp)) (from_utf8 r) else None)
         | _ \<Rightarrow> None)
      else None)"

declare from_utf8.simps(2) [simp del]

lemma utf8_simps [simp]:
  "utf8 [] = []" "utf8 (c # s) = utf8_char c @ utf8 s" "utf8 (s @ t) = utf8 s @ utf8 t"
  by (simp_all add: utf8_def)

lemma from_utf8_char: "from_utf8 (utf8_char c @ bs) = map_option ((#) c) (from_utf8 bs)"
proof -
  let ?n = "code_point c"
  have sc: "?n < 55296 \<or> (57343 < ?n \<and> ?n < 1114112)" by (rule code_point_scalar)
  have d6: "?n = ?n div 64 * 64 + ?n mod 64" by simp
  have d12: "?n div 64 = ?n div 4096 * 64 + ?n div 64 mod 64"
    using div_mult_mod_eq [of "?n div 64" 64] by (simp flip: div_mult2_eq)
  have d18: "?n div 4096 = ?n div 262144 * 64 + ?n div 4096 mod 64"
    using div_mult_mod_eq [of "?n div 4096" 64] by (simp flip: div_mult2_eq)
  consider "?n < 128" | "128 \<le> ?n" "?n < 2048" | "2048 \<le> ?n" "?n < 65536" | "65536 \<le> ?n"
    by linarith
  then show ?thesis
  proof cases
    case 1
    then show ?thesis by (simp add: utf8_char_def from_utf8.simps)
  next
    case 2
    then have "?n div 64 < 32" by (simp add: less_mult_imp_div_less)
    with 2 d6 sc show ?thesis
      by (simp add: utf8_char_def from_utf8.simps cont_def low6_def utf8_ok_def Let_def)
  next
    case 3
    then have "?n div 4096 < 16" by (simp add: less_mult_imp_div_less)
    moreover have "?n div 4096 * 4096 + ?n div 64 mod 64 * 64 + ?n mod 64 = ?n"
      using d6 d12 by linarith
    ultimately show ?thesis using 3 sc
      by (simp add: utf8_char_def from_utf8.simps cont_def low6_def utf8_ok_def Let_def)
  next
    case 4
    then have "?n div 262144 < 5" using sc by (simp add: less_mult_imp_div_less)
    moreover have "?n div 262144 * 262144 + ?n div 4096 mod 64 * 4096 + ?n div 64 mod 64 * 64 + ?n mod 64 = ?n"
      using d6 d12 d18 by linarith
    ultimately show ?thesis using 4 sc
      by (simp add: utf8_char_def from_utf8.simps cont_def low6_def utf8_ok_def Let_def)
  qed
qed

lemma from_utf8_append: "from_utf8 (utf8 s @ bs) = map_option ((@) s) (from_utf8 bs)"
  by (induction s) (auto simp: from_utf8_char option.map_comp comp_def option.map_ident)

lemma from_utf8_utf8 [simp]: "from_utf8 (utf8 s) = Some s"
  using from_utf8_append [of s "[]"] by simp

lemma utf8_inject: "utf8 s = utf8 t \<longleftrightarrow> s = t"
  by (metis from_utf8_utf8 option.inject)

section \<open>ASCII case\<close>

definition ascii_lower :: "uchar \<Rightarrow> uchar" where
  "ascii_lower c =
     (if 65 \<le> code_point c \<and> code_point c \<le> 90 then uchar_of (code_point c + 32) else c)"

definition to_ascii_lowercase :: "rstr \<Rightarrow> rstr" where
  "to_ascii_lowercase s = map ascii_lower s"

definition eq_ignore_ascii_case :: "rstr \<Rightarrow> rstr \<Rightarrow> bool" where
  "eq_ignore_ascii_case s t \<longleftrightarrow> to_ascii_lowercase s = to_ascii_lowercase t"

lemma eq_ignore_ascii_case_refl [simp]: "eq_ignore_ascii_case s s"
  by (simp add: eq_ignore_ascii_case_def)

lemma eq_ignore_ascii_case_sym: "eq_ignore_ascii_case s t \<longleftrightarrow> eq_ignore_ascii_case t s"
  by (auto simp: eq_ignore_ascii_case_def)

lemma eq_ignore_ascii_case_trans:
  "eq_ignore_ascii_case s t \<Longrightarrow> eq_ignore_ascii_case t u \<Longrightarrow> eq_ignore_ascii_case s u"
  by (simp add: eq_ignore_ascii_case_def)

lemma ascii_lower_idem [simp]: "ascii_lower (ascii_lower c) = ascii_lower c"
  by (auto simp: ascii_lower_def)

lemma to_ascii_lowercase_idem [simp]:
  "to_ascii_lowercase (to_ascii_lowercase s) = to_ascii_lowercase s"
  by (simp add: to_ascii_lowercase_def)

section \<open>Decimal printing\<close>

text \<open>\<open>to_string\<close> of an unsigned and of a signed 64-bit integer.\<close>

fun dec_digits :: "nat \<Rightarrow> rstr" where
  "dec_digits n =
     (if n < 10 then [uchar_of (48 + n)] else dec_digits (n div 10) @ [uchar_of (48 + n mod 10)])"

declare dec_digits.simps [simp del]

definition show_usize :: "usize \<Rightarrow> rstr" where
  "show_usize w = dec_digits (unat w)"

definition show_i64 :: "i64 \<Rightarrow> rstr" where
  "show_i64 w = (if sint w < 0 then str ''-'' @ dec_digits (nat (- sint w)) else dec_digits (nat (sint w)))"

end
