(* ===== verification/Faults.thy ===== *)
theory Faults
  imports Text
begin

text \<open>
  Column types, the errors of every component as one datatype (one constructor per \<open>bail!\<close>,
  \<open>anyhow!\<close> or panic of the source, carrying the data its message prints), and the checked
  index and slice operations whose failure is a panic in Rust.
\<close>

section \<open>Column types\<close>

datatype data_type =
    DT_I64
  | DT_F64
  | DT_Bool
  | DT_Str
  | DT_Vector usize

text \<open>\<open>DataType::name\<close>\<close>

definition type_name :: "data_type \<Rightarrow> rstr" where
  "type_name ty =
     (case ty of
        DT_I64 \<Rightarrow> str ''INT''
      | DT_F64 \<Rightarrow> str ''DOUBLE''
      | DT_Bool \<Rightarrow> str ''BOOL''
      | DT_Str \<Rightarrow> str ''TEXT''
      | DT_Vector d \<Rightarrow> str ''VECTOR('' @ show_usize d @ str '')'')"

section \<open>Errors\<close>

datatype (plugins only: code size) query_err =
  \<comment> \<open>exec.rs\<close>
    Expected_bool data_type
  | Expected_number data_type
  | Operand_lengths nat nat
  | String_arithmetic
  | String_with_number
  | Frame_column
  | Vector_literal
  | Like_not_string
  | Aggregate_here
  | Value_count nat nat
  | Not_vector_column
  | Query_vector_dim nat usize
  | Cast_to_vector
  | Function_type data_type
  | Substring_type
  | Trunc_unit_type
  | Trunc_unit rstr
  | Group_by_vector
  | Not_an_aggregate
  | Not_grouped rstr
  \<comment> \<open>grpc.rs, http.rs\<close>
  | Empty_value
  | Value_dim nat usize
  | Value_type data_type
  | Request_arity nat nat nat

datatype (plugins only: code size) sql_err =
    Parser
  | No_statement
  | Many_statements nat
  | Bad_name
  | Unsupported string
  | Unknown_type rstr
  | Vector_no_dim
  | Bad_dim rstr
  | Insert_no_column rstr rstr
  | Values_arity nat nat
  | Literal_dim nat usize
  | Bad_number rstr
  | Minus_type data_type
  | Not_literal
  | Element_type
  | Element_text rstr
  | Vector_form
  | Vector_empty
  | Empty_select
  | Agg_in_group
  | Having_alone
  | Bad_ordinal rstr
  | Ordinal_range nat nat
  | Limit_value
  | Unknown_column rstr
  | Null_test
  | Pattern_type
  | Star_argument rstr
  | Agg_arity rstr
  | Metric_arity rstr
  | Metric_column rstr
  | Metric_type rstr data_type
  | Metric_dim nat usize
  | Unknown_function rstr
  | Function_arity rstr nat

datatype (plugins only: code size) load_err =
    No_hits
  | Field_count nat nat nat
  | No_vector_column
  | No_source

datatype (plugins only: code size) start_err =
    Bad_durability rstr
  | Bad_size rstr
  | Negative_size rstr

datatype (plugins only: code size) client_err =
    Refused rstr rstr rstr
  | Not_json
  | Unreadable_file rstr
  | Input_failed

datatype (plugins only: code size) err =
    Panic string
  | Context string err
  \<comment> \<open>codec.rs\<close>
  | Data_ends nat nat
  | Not_utf8
  | Bad_type_code u8
  | Value_vector_len nat usize
  | Snapshot_vector_dim usize usize
  | Vector_not_multiple nat usize
  \<comment> \<open>column.rs\<close>
  | Offsets_mismatch
  | Offsets_not_monotone
  | Push_vector_dim nat usize
  | Push_type data_type data_type
  \<comment> \<open>table.rs\<close>
  | Empty_schema
  | Empty_column_name
  | Duplicate_column rstr
  | Zero_vector rstr
  | Row_arity nat nat
  | Cell_type rstr data_type data_type
  | Column_count nat nat
  | Column_type rstr data_type data_type
  | Column_rows rstr nat nat
  \<comment> \<open>storage.rs\<close>
  | Wal_no_schema rstr
  | Wal_row_arity nat nat
  | Wal_unknown_table rstr
  | Wal_record_code u8
  | Not_a_wal
  | Wal_version u32
  | Not_a_snapshot
  | Snapshot_crc
  | Snapshot_version u32
  | Snapshot_rows rstr usize nat
  | Log_write
  \<comment> \<open>db.rs\<close>
  | Read_only string
  | No_data_dir
  | Table_exists rstr
  | Table_missing rstr
  | Memory_limit nat u64
  | Insert_columns nat nat
  | No_column rstr
  | Column_twice rstr
  \<comment> \<open>replication.rs, http.rs\<close>
  | Transport
  | Missing_records
  | Missing_lsn
  | Missing_payload
  | Wal_gap u64 u64
  | Hex_odd
  | Hex_digit
  \<comment> \<open>exec.rs, grpc.rs, http.rs\<close>
  | Query query_err
  \<comment> \<open>sql.rs\<close>
  | Sql sql_err
  \<comment> \<open>bin/bench.rs, bin/server.rs\<close>
  | Load load_err
  | Startup start_err
  \<comment> \<open>client.rs, bin/cli.rs\<close>
  | Client client_err

type_synonym 'a res = "err + 'a"

text \<open>\<open>with_context\<close> wraps the error and leaves a success alone.\<close>

definition with_context :: "string \<Rightarrow> 'a res \<Rightarrow> 'a res" where
  "with_context c m = (case m of Inl e \<Rightarrow> Inl (Context c e) | Inr x \<Rightarrow> Inr x)"

lemma with_context_simps [simp]:
  "with_context c (Inl e) = Inl (Context c e)" "with_context c (Inr x) = Inr x"
  by (simp_all add: with_context_def)

lemma with_context_Inr [res_simps]: "with_context c m = Inr x \<longleftrightarrow> m = Inr x"
  by (cases m) auto

section \<open>Checked indexing\<close>

definition index_at :: "'a list \<Rightarrow> nat \<Rightarrow> 'a res" where
  "index_at xs i = (if i < length xs then Inr (xs ! i) else Inl (Panic ''index out of bounds''))"

definition slice :: "'a list \<Rightarrow> nat \<Rightarrow> nat \<Rightarrow> 'a list res" where
  "slice xs a b =
     (if a \<le> b \<and> b \<le> length xs then Inr (take (b - a) (drop a xs))
      else Inl (Panic ''slice out of range''))"

lemma index_at_ok [simp]: "i < length xs \<Longrightarrow> index_at xs i = Inr (xs ! i)"
  by (simp add: index_at_def)

lemma index_at_Inr [res_simps]: "index_at xs i = Inr x \<longleftrightarrow> i < length xs \<and> x = xs ! i"
  by (auto simp: index_at_def)

lemma slice_append: "slice (xs @ ys @ zs) (length xs) (length xs + length ys) = Inr ys"
  by (simp add: slice_def)

end
