(* ===== verification/Ieee.thy ===== *)
theory Ieee
  imports Prelude
begin

text \<open>
  The floating-point operations the program uses, on the bit patterns of \<open>f64\<close> and \<open>f32\<close>.
  A pattern is split into a sign, a natural mantissa and a binary exponent; an arithmetic
  operation computes the exact rational result and rounds it once, to nearest with ties to
  even, as IEEE 754 requires of \<open>+\<close>, \<open>-\<close>, \<open>*\<close>, \<open>/\<close> and of the conversions. Rust leaves the payload
  of a generated NaN open; the model produces the canonical quiet NaN.
\<close>

section \<open>Formats and rounding\<close>

datatype fval = F_NaN | F_Inf bool | F_Fin bool nat int

fun bitlen :: "nat \<Rightarrow> nat" where
  "bitlen n = (if n = 0 then 0 else Suc (bitlen (n div 2)))"

declare bitlen.simps [simp del]

definition round_half_even :: "nat \<Rightarrow> nat \<Rightarrow> nat" where
  "round_half_even n d =
     (let q = n div d; r = n mod d in
      if 2 * r < d then q else if d < 2 * r then Suc q else if even q then q else Suc q)"

definition min_exp :: "nat \<Rightarrow> nat \<Rightarrow> int" where
  "min_exp ew fw = 2 - 2 ^ (ew - 1) - int fw"

definition inf_bits :: "nat \<Rightarrow> nat \<Rightarrow> nat" where
  "inf_bits ew fw = (2 ^ ew - 1) * 2 ^ fw"

text \<open>The magnitude bits of the float nearest to the rational \<open>n / d\<close>.\<close>

definition round_bits :: "nat \<Rightarrow> nat \<Rightarrow> nat \<Rightarrow> nat \<Rightarrow> nat" where
  "round_bits ew fw n d =
     (if n = 0 then 0 else
      let e = int (bitlen n) - int (bitlen d);
          ge = (if 0 \<le> e then d * 2 ^ nat e \<le> n else d \<le> n * 2 ^ nat (- e));
          lg = (if ge then e else e - 1);
          q = max (lg - int fw) (min_exp ew fw);
          m = (if 0 \<le> q then round_half_even n (d * 2 ^ nat q)
               else round_half_even (n * 2 ^ nat (- q)) d);
          bits = nat (q - min_exp ew fw) * 2 ^ fw + m
      in min bits (inf_bits ew fw))"

definition sign_bits :: "nat \<Rightarrow> nat \<Rightarrow> bool \<Rightarrow> nat" where
  "sign_bits ew fw s = (if s then 2 ^ (ew + fw) else 0)"

definition fval_of :: "nat \<Rightarrow> nat \<Rightarrow> nat \<Rightarrow> fval" where
  "fval_of ew fw b =
     (let s = odd (b div 2 ^ (ew + fw)); e = b div 2 ^ fw mod 2 ^ ew; f = b mod 2 ^ fw in
      if e = 2 ^ ew - 1 then (if f = 0 then F_Inf s else F_NaN)
      else if e = 0 then F_Fin s f (min_exp ew fw)
      else F_Fin s (f + 2 ^ fw) (min_exp ew fw + int e - 1))"

text \<open>The float nearest to \<open>m * 2 ^ e\<close> with the given sign.\<close>

definition round_scaled :: "nat \<Rightarrow> nat \<Rightarrow> nat \<Rightarrow> int \<Rightarrow> nat" where
  "round_scaled ew fw m e =
     (if 0 \<le> e then round_bits ew fw (m * 2 ^ nat e) 1 else round_bits ew fw m (2 ^ nat (- e)))"

definition bits_of :: "nat \<Rightarrow> nat \<Rightarrow> fval \<Rightarrow> nat" where
  "bits_of ew fw v =
     (case v of
        F_NaN \<Rightarrow> inf_bits ew fw + 2 ^ (fw - 1)
      | F_Inf s \<Rightarrow> sign_bits ew fw s + inf_bits ew fw
      | F_Fin s m e \<Rightarrow> sign_bits ew fw s + round_scaled ew fw m e)"

section \<open>The two formats of the program\<close>

definition f64_val :: "f64 \<Rightarrow> fval" where
  "f64_val x = fval_of 11 52 (unat x)"

definition f64_bits :: "fval \<Rightarrow> f64" where
  "f64_bits v = word_of_nat (bits_of 11 52 v)"

definition f32_val :: "f32 \<Rightarrow> fval" where
  "f32_val x = fval_of 8 23 (unat x)"

definition f32_bits :: "fval \<Rightarrow> f32" where
  "f32_bits v = word_of_nat (bits_of 8 23 v)"

text \<open>\<open>as\<close> conversions between integers and floats.\<close>

definition f64_of_int :: "int \<Rightarrow> f64" where
  "f64_of_int i = f64_bits (F_Fin (i < 0) (nat \<bar>i\<bar>) 0)"

definition f64_of_i64 :: "i64 \<Rightarrow> f64" where
  "f64_of_i64 w = f64_of_int (sint w)"

definition f32_of_f64 :: "f64 \<Rightarrow> f32" where
  "f32_of_f64 x = f32_bits (f64_val x)"

definition f64_of_f32 :: "f32 \<Rightarrow> f64" where
  "f64_of_f32 x = f64_bits (f32_val x)"

text \<open>\<open>x as i64\<close>: truncates towards zero, saturates, and maps NaN to zero.\<close>

definition trunc_scaled :: "nat \<Rightarrow> int \<Rightarrow> nat" where
  "trunc_scaled m e = (if 0 \<le> e then m * 2 ^ nat e else m div 2 ^ nat (- e))"

definition clamp_i64 :: "int \<Rightarrow> i64" where
  "clamp_i64 i = word_of_int (max (- (2 ^ 63)) (min (2 ^ 63 - 1) i))"

definition f64_to_i64 :: "f64 \<Rightarrow> i64" where
  "f64_to_i64 x =
     (case f64_val x of
        F_NaN \<Rightarrow> 0
      | F_Inf s \<Rightarrow> clamp_i64 (if s then - (2 ^ 64) else 2 ^ 64)
      | F_Fin s m e \<Rightarrow> clamp_i64 (if s then - int (trunc_scaled m e) else int (trunc_scaled m e)))"

section \<open>Sign and classification\<close>

definition is_nan64 :: "f64 \<Rightarrow> bool" where
  "is_nan64 x \<longleftrightarrow> f64_val x = F_NaN"

definition f64_neg :: "f64 \<Rightarrow> f64" where
  "f64_neg x = xor x (push_bit 63 1)"

definition f64_abs :: "f64 \<Rightarrow> f64" where
  "f64_abs x = and x (not (push_bit 63 1))"

definition f32_neg :: "f32 \<Rightarrow> f32" where
  "f32_neg x = xor x (push_bit 31 1)"

section \<open>Arithmetic\<close>

text \<open>A signed integer scaled by a power of two, as a finite value; \<open>z\<close> is the sign of zero.\<close>

definition fin_of :: "bool \<Rightarrow> int \<Rightarrow> int \<Rightarrow> fval" where
  "fin_of z i e = F_Fin (if i = 0 then z else i < 0) (nat \<bar>i\<bar>) e"

definition signed :: "bool \<Rightarrow> nat \<Rightarrow> int" where
  "signed s m = (if s then - int m else int m)"

fun fv_add :: "fval \<Rightarrow> fval \<Rightarrow> fval" where
  "fv_add F_NaN _ = F_NaN"
| "fv_add _ F_NaN = F_NaN"
| "fv_add (F_Inf s) (F_Inf t) = (if s = t then F_Inf s else F_NaN)"
| "fv_add (F_Inf s) (F_Fin _ _ _) = F_Inf s"
| "fv_add (F_Fin _ _ _) (F_Inf t) = F_Inf t"
| "fv_add (F_Fin s m e) (F_Fin t n f) =
     (let g = min e f in
      fin_of (s \<and> t) (signed s m * 2 ^ nat (e - g) + signed t n * 2 ^ nat (f - g)) g)"

fun fv_neg :: "fval \<Rightarrow> fval" where
  "fv_neg F_NaN = F_NaN"
| "fv_neg (F_Inf s) = F_Inf (\<not> s)"
| "fv_neg (F_Fin s m e) = F_Fin (\<not> s) m e"

fun fv_mul :: "fval \<Rightarrow> fval \<Rightarrow> fval" where
  "fv_mul F_NaN _ = F_NaN"
| "fv_mul _ F_NaN = F_NaN"
| "fv_mul (F_Inf s) (F_Inf t) = F_Inf (s \<noteq> t)"
| "fv_mul (F_Inf s) (F_Fin t n _) = (if n = 0 then F_NaN else F_Inf (s \<noteq> t))"
| "fv_mul (F_Fin s m _) (F_Inf t) = (if m = 0 then F_NaN else F_Inf (s \<noteq> t))"
| "fv_mul (F_Fin s m e) (F_Fin t n f) = F_Fin (s \<noteq> t) (m * n) (e + f)"

text \<open>A quotient is not a dyadic number, so division rounds the rational directly.\<close>

fun fv_div_bits :: "nat \<Rightarrow> nat \<Rightarrow> fval \<Rightarrow> fval \<Rightarrow> nat" where
  "fv_div_bits ew fw F_NaN _ = bits_of ew fw F_NaN"
| "fv_div_bits ew fw _ F_NaN = bits_of ew fw F_NaN"
| "fv_div_bits ew fw (F_Inf _) (F_Inf _) = bits_of ew fw F_NaN"
| "fv_div_bits ew fw (F_Inf s) (F_Fin t _ _) = bits_of ew fw (F_Inf (s \<noteq> t))"
| "fv_div_bits ew fw (F_Fin s _ _) (F_Inf t) = sign_bits ew fw (s \<noteq> t)"
| "fv_div_bits ew fw (F_Fin s m e) (F_Fin t n f) =
     (if n = 0 then (if m = 0 then bits_of ew fw F_NaN else bits_of ew fw (F_Inf (s \<noteq> t)))
      else sign_bits ew fw (s \<noteq> t) +
        (if f \<le> e then round_bits ew fw (m * 2 ^ nat (e - f)) n
         else round_bits ew fw m (n * 2 ^ nat (f - e))))"

text \<open>\<open>%\<close> is the truncated remainder, exact, with the sign of the dividend.\<close>

fun fv_rem :: "fval \<Rightarrow> fval \<Rightarrow> fval" where
  "fv_rem F_NaN _ = F_NaN"
| "fv_rem _ F_NaN = F_NaN"
| "fv_rem (F_Inf _) _ = F_NaN"
| "fv_rem (F_Fin s m e) (F_Inf _) = F_Fin s m e"
| "fv_rem (F_Fin s m e) (F_Fin _ n f) =
     (if n = 0 then F_NaN
      else let g = min e f in
        F_Fin s ((m * 2 ^ nat (e - g)) mod (n * 2 ^ nat (f - g))) g)"

definition f64_add :: "f64 \<Rightarrow> f64 \<Rightarrow> f64" where
  "f64_add x y = f64_bits (fv_add (f64_val x) (f64_val y))"

definition f64_sub :: "f64 \<Rightarrow> f64 \<Rightarrow> f64" where
  "f64_sub x y = f64_bits (fv_add (f64_val x) (fv_neg (f64_val y)))"

definition f64_mul :: "f64 \<Rightarrow> f64 \<Rightarrow> f64" where
  "f64_mul x y = f64_bits (fv_mul (f64_val x) (f64_val y))"

definition f64_div :: "f64 \<Rightarrow> f64 \<Rightarrow> f64" where
  "f64_div x y = word_of_nat (fv_div_bits 11 52 (f64_val x) (f64_val y))"

definition f64_rem :: "f64 \<Rightarrow> f64 \<Rightarrow> f64" where
  "f64_rem x y = f64_bits (fv_rem (f64_val x) (f64_val y))"

definition f32_add :: "f32 \<Rightarrow> f32 \<Rightarrow> f32" where
  "f32_add x y = f32_bits (fv_add (f32_val x) (f32_val y))"

definition f32_sub :: "f32 \<Rightarrow> f32 \<Rightarrow> f32" where
  "f32_sub x y = f32_bits (fv_add (f32_val x) (fv_neg (f32_val y)))"

definition f32_mul :: "f32 \<Rightarrow> f32 \<Rightarrow> f32" where
  "f32_mul x y = f32_bits (fv_mul (f32_val x) (f32_val y))"

definition f32_div :: "f32 \<Rightarrow> f32 \<Rightarrow> f32" where
  "f32_div x y = word_of_nat (fv_div_bits 8 23 (f32_val x) (f32_val y))"

section \<open>Comparison\<close>

text \<open>
  \<open>partial_cmp\<close> orders the values and gives \<open>None\<close> for a NaN; \<open>total_cmp\<close> is the library's
  bit trick: flip the magnitude bits of a negative number and compare as signed integers.
\<close>

datatype ordering = Less | Equal | Greater

definition cmp_int :: "int \<Rightarrow> int \<Rightarrow> ordering" where
  "cmp_int a b = (if a < b then Less else if a = b then Equal else Greater)"

definition reverse :: "ordering \<Rightarrow> ordering" where
  "reverse c = (case c of Less \<Rightarrow> Greater | Equal \<Rightarrow> Equal | Greater \<Rightarrow> Less)"

text \<open>The position of a non-NaN pattern on the number line; both zeros are at 0.\<close>

definition f64_key :: "f64 \<Rightarrow> int" where
  "f64_key x = (let m = int (unat x mod 2 ^ 63) in if 2 ^ 63 \<le> unat x then - m else m)"

definition f64_partial_cmp :: "f64 \<Rightarrow> f64 \<Rightarrow> ordering option" where
  "f64_partial_cmp x y =
     (if is_nan64 x \<or> is_nan64 y then None else Some (cmp_int (f64_key x) (f64_key y)))"

definition f64_eq :: "f64 \<Rightarrow> f64 \<Rightarrow> bool" where
  "f64_eq x y \<longleftrightarrow> f64_partial_cmp x y = Some Equal"

definition total_key :: "f64 \<Rightarrow> int" where
  "total_key x = (if bit x 63 then sint (xor x (push_bit 63 1 - 1)) else sint x)"

definition f64_total_cmp :: "f64 \<Rightarrow> f64 \<Rightarrow> ordering" where
  "f64_total_cmp x y = cmp_int (total_key x) (total_key y)"

section \<open>Rounding to integers, roots, powers\<close>

text \<open>
  The integer \<open>pick q r d\<close> for the magnitude \<open>q + r / d\<close>, with the sign of the argument.
\<close>

definition to_integer :: "(bool \<Rightarrow> nat \<Rightarrow> nat \<Rightarrow> nat \<Rightarrow> nat) \<Rightarrow> f64 \<Rightarrow> f64" where
  "to_integer pick x =
     (case f64_val x of
        F_Fin s m e \<Rightarrow>
          if 0 \<le> e then x
          else let d = 2 ^ nat (- e) in f64_bits (F_Fin s (pick s (m div d) (m mod d) d) 0)
      | v \<Rightarrow> f64_bits v)"

definition f64_floor :: "f64 \<Rightarrow> f64" where
  "f64_floor = to_integer (\<lambda>s q r d. if s \<and> r \<noteq> 0 then Suc q else q)"

definition f64_ceil :: "f64 \<Rightarrow> f64" where
  "f64_ceil = to_integer (\<lambda>s q r d. if \<not> s \<and> r \<noteq> 0 then Suc q else q)"

text \<open>\<open>f64::round\<close>: halves go away from zero.\<close>

definition f64_round :: "f64 \<Rightarrow> f64" where
  "f64_round = to_integer (\<lambda>s q r d. if d \<le> 2 * r then Suc q else q)"

fun isqrt :: "nat \<Rightarrow> nat" where
  "isqrt n =
     (if n = 0 then 0
      else let r = 2 * isqrt (n div 4) in if (r + 1) * (r + 1) \<le> n then r + 1 else r)"

declare isqrt.simps [simp del]

text \<open>
  The root with 64 extra bits and a sticky bit below, rounded once; \<open>e\<close> is made even first.
\<close>

definition root_bits :: "nat \<Rightarrow> nat \<Rightarrow> nat \<Rightarrow> int \<Rightarrow> nat" where
  "root_bits ew fw m e =
     (let m' = (if even e then m else 2 * m); e' = (if even e then e else e - 1);
          n = m' * 2 ^ 128; r = isqrt n
      in round_scaled ew fw (2 * r + (if r * r = n then 0 else 1)) (e' div 2 - 65))"

definition f64_sqrt :: "f64 \<Rightarrow> f64" where
  "f64_sqrt x =
     (case f64_val x of
        F_Fin s m e \<Rightarrow>
          if m = 0 then x else if s then f64_bits F_NaN else word_of_nat (root_bits 11 52 m e)
      | F_Inf False \<Rightarrow> x
      | _ \<Rightarrow> f64_bits F_NaN)"

definition f32_sqrt :: "f32 \<Rightarrow> f32" where
  "f32_sqrt x =
     (case f32_val x of
        F_Fin s m e \<Rightarrow>
          if m = 0 then x else if s then f32_bits F_NaN else word_of_nat (root_bits 8 23 m e)
      | F_Inf False \<Rightarrow> x
      | _ \<Rightarrow> f32_bits F_NaN)"

text \<open>\<open>f64::min\<close> and \<open>max\<close> prefer a number to a NaN.\<close>

definition f64_min :: "f64 \<Rightarrow> f64 \<Rightarrow> f64" where
  "f64_min x y =
     (if is_nan64 x then y else if f64_partial_cmp y x = Some Less then y else x)"

definition f64_max :: "f64 \<Rightarrow> f64 \<Rightarrow> f64" where
  "f64_max x y =
     (if is_nan64 x then y else if f64_partial_cmp y x = Some Greater then y else x)"

text \<open>\<open>f64::powi\<close> by repeated squaring, as the runtime library computes it.\<close>

fun powi_loop :: "f64 \<Rightarrow> f64 \<Rightarrow> nat \<Rightarrow> f64" where
  "powi_loop r a n =
     (let r' = (if odd n then f64_mul r a else r)
      in if n div 2 = 0 then r' else powi_loop r' (f64_mul a a) (n div 2))"

declare powi_loop.simps [simp del]

definition f64_powi :: "f64 \<Rightarrow> int \<Rightarrow> f64" where
  "f64_powi a n =
     (let r = powi_loop (f64_of_int 1) a (nat \<bar>n\<bar>)
      in if n < 0 then f64_div (f64_of_int 1) r else r)"

text \<open>\<open>x as i32\<close> and \<open>x as usize\<close>, as integers.\<close>

definition f64_to_i32 :: "f64 \<Rightarrow> int" where
  "f64_to_i32 x = max (- (2 ^ 31)) (min (2 ^ 31 - 1) (sint (f64_to_i64 x)))"

definition f64_to_usize :: "f64 \<Rightarrow> nat" where
  "f64_to_usize x =
     (case f64_val x of
        F_NaN \<Rightarrow> 0
      | F_Inf s \<Rightarrow> if s then 0 else 2 ^ 64 - 1
      | F_Fin s m e \<Rightarrow> if s then 0 else min (trunc_scaled m e) (2 ^ 64 - 1))"

definition f32_eq :: "f32 \<Rightarrow> f32 \<Rightarrow> bool" where
  "f32_eq x y \<longleftrightarrow> f64_eq (f64_of_f32 x) (f64_of_f32 y)"

end
