(* ===== verification/Column.thy ===== *)
theory Column
  imports Faults Ieee
begin

text \<open>
  \<open>column.rs\<close>: values, the arena string column, typed columns and their operations. A column
  stands for the list of its values: \<open>column_rep c vs\<close> says that the dense arrays of \<open>c\<close> hold
  exactly \<open>vs\<close>. The lemmas show that \<open>push\<close> appends to that list and \<open>get\<close> reads from it, as
  long as the string arena stays below 4 GiB (its offsets are 32 bits wide).
\<close>

section \<open>Values\<close>

datatype rvalue =
    V_I64 i64
  | V_F64 f64
  | V_Bool bool
  | V_Str rstr
  | V_Vector "f32 list"

definition type_of :: "rvalue \<Rightarrow> data_type" where
  "type_of v =
     (case v of
        V_I64 _ \<Rightarrow> DT_I64
      | V_F64 _ \<Rightarrow> DT_F64
      | V_Bool _ \<Rightarrow> DT_Bool
      | V_Str _ \<Rightarrow> DT_Str
      | V_Vector x \<Rightarrow> DT_Vector (word_of_nat (length x)))"

definition as_f64 :: "rvalue \<Rightarrow> f64 option" where
  "as_f64 v =
     (case v of
        V_I64 x \<Rightarrow> Some (f64_of_i64 x)
      | V_F64 x \<Rightarrow> Some x
      | V_Bool x \<Rightarrow> Some (f64_of_int (if x then 1 else 0))
      | _ \<Rightarrow> None)"

section \<open>The arena string column\<close>

record str_column =
  buf :: "u8 list"
  offsets :: "u32 list"

definition str_new :: str_column where
  "str_new = \<lparr>buf = [], offsets = [0]\<rparr>"

definition str_push :: "str_column \<Rightarrow> rstr \<Rightarrow> str_column" where
  "str_push c s =
     (let b = buf c @ utf8 s in
      \<lparr>buf = b, offsets = offsets c @ [word_of_nat (length b)]\<rparr>)"

definition str_len :: "str_column \<Rightarrow> nat" where
  "str_len c = length (offsets c) - 1"

definition str_get_bytes :: "str_column \<Rightarrow> nat \<Rightarrow> u8 list res" where
  "str_get_bytes c i =
     and_then (index_at (offsets c) i) (\<lambda>s.
     and_then (index_at (offsets c) (i + 1)) (\<lambda>e.
     slice (buf c) (unat s) (unat e)))"

definition str_get :: "str_column \<Rightarrow> nat \<Rightarrow> rstr res" where
  "str_get c i =
     and_then (str_get_bytes c i) (\<lambda>b.
     ok_or (from_utf8 b) (Panic ''StrColumn holds only valid UTF-8''))"

definition str_bytes_used :: "str_column \<Rightarrow> nat" where
  "str_bytes_used c = length (buf c) + length (offsets c) * 4"

fun monotone :: "u32 list \<Rightarrow> bool" where
  "monotone (a # b # xs) \<longleftrightarrow> \<not> b < a \<and> monotone (b # xs)"
| "monotone _ \<longleftrightarrow> True"

definition str_from_parts :: "u8 list \<Rightarrow> u32 list \<Rightarrow> str_column res" where
  "str_from_parts b os =
     (if os = [] \<or> hd os \<noteq> 0 \<or> last os \<noteq> word_of_nat (length b) then Inl Offsets_mismatch
      else if \<not> monotone os then Inl Offsets_not_monotone
      else if from_utf8 b = None then Inl Not_utf8
      else Inr \<lparr>buf = b, offsets = os\<rparr>)"

section \<open>Columns\<close>

datatype column =
    C_I64 "i64 list"
  | C_F64 "f64 list"
  | C_Bool "u8 list"
  | C_Str str_column
  | C_Vector usize "f32 list"

definition column_empty :: "data_type \<Rightarrow> column" where
  "column_empty ty =
     (case ty of
        DT_I64 \<Rightarrow> C_I64 []
      | DT_F64 \<Rightarrow> C_F64 []
      | DT_Bool \<Rightarrow> C_Bool []
      | DT_Str \<Rightarrow> C_Str str_new
      | DT_Vector dim \<Rightarrow> C_Vector dim [])"

definition column_type :: "column \<Rightarrow> data_type" where
  "column_type c =
     (case c of
        C_I64 _ \<Rightarrow> DT_I64
      | C_F64 _ \<Rightarrow> DT_F64
      | C_Bool _ \<Rightarrow> DT_Bool
      | C_Str _ \<Rightarrow> DT_Str
      | C_Vector dim _ \<Rightarrow> DT_Vector dim)"

definition column_len :: "column \<Rightarrow> nat" where
  "column_len c =
     (case c of
        C_I64 v \<Rightarrow> length v
      | C_F64 v \<Rightarrow> length v
      | C_Bool v \<Rightarrow> length v
      | C_Str v \<Rightarrow> str_len v
      | C_Vector dim data \<Rightarrow> if dim = 0 then 0 else length data div unat dim)"

definition bool_byte :: "bool \<Rightarrow> u8" where
  "bool_byte b = (if b then 1 else 0)"

fun column_push :: "column \<Rightarrow> rvalue \<Rightarrow> column res" where
  "column_push (C_I64 c) (V_I64 x) = Inr (C_I64 (c @ [x]))"
| "column_push (C_F64 c) (V_F64 x) = Inr (C_F64 (c @ [x]))"
| "column_push (C_F64 c) (V_I64 x) = Inr (C_F64 (c @ [f64_of_i64 x]))"
| "column_push (C_Bool c) (V_Bool x) = Inr (C_Bool (c @ [bool_byte x]))"
| "column_push (C_Str c) (V_Str x) = Inr (C_Str (str_push c x))"
| "column_push (C_Vector dim data) (V_Vector x) =
     (if length x \<noteq> unat dim then Inl (Push_vector_dim (length x) dim)
      else Inr (C_Vector dim (data @ x)))"
| "column_push c v = Inl (Push_type (type_of v) (column_type c))"

definition column_get :: "column \<Rightarrow> nat \<Rightarrow> rvalue res" where
  "column_get c i =
     (case c of
        C_I64 v \<Rightarrow> and_then (index_at v i) (\<lambda>x. Inr (V_I64 x))
      | C_F64 v \<Rightarrow> and_then (index_at v i) (\<lambda>x. Inr (V_F64 x))
      | C_Bool v \<Rightarrow> and_then (index_at v i) (\<lambda>x. Inr (V_Bool (x \<noteq> 0)))
      | C_Str s \<Rightarrow> and_then (str_get s i) (\<lambda>x. Inr (V_Str x))
      | C_Vector dim data \<Rightarrow>
          and_then (slice data (i * unat dim) ((i + 1) * unat dim)) (\<lambda>x. Inr (V_Vector x)))"

definition vector_at :: "column \<Rightarrow> nat \<Rightarrow> f32 list option res" where
  "vector_at c i =
     (case c of
        C_Vector dim data \<Rightarrow>
          and_then (slice data (i * unat dim) ((i + 1) * unat dim)) (\<lambda>x. Inr (Some x))
      | _ \<Rightarrow> Inr None)"

definition column_bytes_used :: "column \<Rightarrow> nat" where
  "column_bytes_used c =
     (case c of
        C_I64 v \<Rightarrow> length v * 8
      | C_F64 v \<Rightarrow> length v * 8
      | C_Bool v \<Rightarrow> length v
      | C_Str v \<Rightarrow> str_bytes_used v
      | C_Vector _ data \<Rightarrow> length data * 4)"

section \<open>What a column holds\<close>

text \<open>The offsets of the strings \<open>ss\<close> laid out from byte \<open>n\<close> on.\<close>

fun offsets_from :: "nat \<Rightarrow> rstr list \<Rightarrow> nat list" where
  "offsets_from n [] = [n]"
| "offsets_from n (s # ss) = n # offsets_from (n + str_bytes_len s) ss"

definition arena :: "rstr list \<Rightarrow> u8 list" where
  "arena ss = concat (map utf8 ss)"

definition strcol_rep :: "str_column \<Rightarrow> rstr list \<Rightarrow> bool" where
  "strcol_rep c ss \<longleftrightarrow>
     buf c = arena ss \<and> offsets c = map word_of_nat (offsets_from 0 ss) \<and> length (buf c) < 2 ^ 32"

definition column_rep :: "column \<Rightarrow> rvalue list \<Rightarrow> bool" where
  "column_rep c vs \<longleftrightarrow>
     (case c of
        C_I64 v \<Rightarrow> vs = map V_I64 v
      | C_F64 v \<Rightarrow> vs = map V_F64 v
      | C_Bool v \<Rightarrow> (\<exists>bs. v = map bool_byte bs \<and> vs = map V_Bool bs)
      | C_Str s \<Rightarrow> (\<exists>ss. strcol_rep s ss \<and> vs = map V_Str ss)
      | C_Vector dim data \<Rightarrow>
          (\<exists>rows. dim \<noteq> 0 \<and> (\<forall>r \<in> set rows. length r = unat dim) \<and> data = concat rows
                  \<and> vs = map V_Vector rows))"

lemma length_offsets_from [simp]: "length (offsets_from n ss) = Suc (length ss)"
  by (induction ss arbitrary: n) auto

lemma arena_simps [simp]:
  "arena [] = []" "arena (s # ss) = utf8 s @ arena ss" "arena (ss @ ts) = arena ss @ arena ts"
  by (simp_all add: arena_def)

lemma from_utf8_arena [simp]: "from_utf8 (arena ss) = Some (concat ss)"
  by (induction ss) (auto simp: from_utf8_append)

lemma offsets_from_snoc:
  "offsets_from n (ss @ [s]) = offsets_from n ss @ [n + length (arena ss) + str_bytes_len s]"
  by (induction ss arbitrary: n) (auto simp: str_bytes_len_def)

lemma nth_offsets_from:
  "i \<le> length ss \<Longrightarrow> offsets_from n ss ! i = n + length (arena (take i ss))"
proof (induction ss arbitrary: n i)
  case Nil
  then show ?case by simp
next
  case (Cons s ss)
  then show ?case by (cases i) (auto simp: str_bytes_len_def)
qed

lemma strcol_rep_new [simp]: "strcol_rep str_new []"
  by (simp add: strcol_rep_def str_new_def)

lemma strcol_rep_push:
  assumes "strcol_rep c ss" and "length (buf c) + str_bytes_len s < 2 ^ 32"
  shows "strcol_rep (str_push c s) (ss @ [s])"
  using assms
  by (auto simp: strcol_rep_def str_push_def Let_def offsets_from_snoc str_bytes_len_def)

lemma strcol_rep_len: "strcol_rep c ss \<Longrightarrow> str_len c = length ss"
  by (simp add: strcol_rep_def str_len_def)

lemma arena_take_le: "length (arena (take i ss)) \<le> length (arena ss)"
  using arena_simps(3) [of "take i ss" "drop i ss"] by simp

lemma arena_split:
  "i < length ss \<Longrightarrow> arena ss = arena (take i ss) @ utf8 (ss ! i) @ arena (drop (Suc i) ss)"
  using arena_simps(3) [of "take i ss" "drop i ss"] arena_simps(2) [of "ss ! i" "drop (Suc i) ss"]
  by (simp add: Cons_nth_drop_Suc)

lemma arena_take_Suc:
  "i < length ss \<Longrightarrow> arena (take (Suc i) ss) = arena (take i ss) @ utf8 (ss ! i)"
  by (simp add: take_Suc_conv_app_nth)

lemma strcol_rep_get:
  assumes r: "strcol_rep c ss" and i: "i < length ss"
  shows "str_get c i = Inr (ss ! i)"
proof -
  have b: "length (arena (take j ss)) < 2 ^ 32" for j
    using r arena_take_le [of j ss] by (auto simp: strcol_rep_def intro: le_less_trans)
  have o: "unat (offsets c ! j) = length (arena (take j ss))" if "j \<le> length ss" for j
    using r b [of j] that by (simp add: strcol_rep_def nth_offsets_from unat_of_nat)
  have "slice (arena ss) (length (arena (take i ss))) (length (arena (take (Suc i) ss))) = Inr (utf8 (ss ! i))"
    using slice_append [of "arena (take i ss)" "utf8 (ss ! i)" "arena (drop (Suc i) ss)"]
      arena_split [OF i] arena_take_Suc [OF i] by simp
  moreover have "length (offsets c) = Suc (length ss)" and "buf c = arena ss"
    using r by (simp_all add: strcol_rep_def)
  ultimately show ?thesis
    using i o [of i] o [of "Suc i"] by (simp add: str_get_def str_get_bytes_def)
qed

lemma strcol_rep_inject: "strcol_rep c ss \<Longrightarrow> strcol_rep d ss \<Longrightarrow> c = d"
  by (cases c; cases d) (simp add: strcol_rep_def)

lemma concat_rows_length:
  "\<forall>r \<in> set rows. length r = d \<Longrightarrow> length (concat rows) = length rows * d"
  by (induction rows) auto

lemma concat_rows_slice:
  assumes "\<forall>r \<in> set rows. length r = d" and "i < length rows"
  shows "slice (concat rows) (i * d) ((i + 1) * d) = Inr (rows ! i)"
proof -
  have len: "length (concat (take j rows)) = j * d" if "j \<le> length rows" for j
  proof -
    have "\<forall>r \<in> set (take j rows). length r = d" using assms(1) by (auto dest: in_set_takeD)
    then show ?thesis using that concat_rows_length [of "take j rows" d] by simp
  qed
  have "concat rows = concat (take i rows) @ rows ! i @ concat (drop (Suc i) rows)"
    using assms(2) by (metis append_take_drop_id concat.simps(2) concat_append Cons_nth_drop_Suc)
  moreover have "length (rows ! i) = d" using assms by simp
  ultimately show ?thesis
    using slice_append [of "concat (take i rows)" "rows ! i" "concat (drop (Suc i) rows)"]
      len [of i] assms(2) by (simp add: algebra_simps)
qed

lemma column_rep_empty [simp]: "ty \<noteq> DT_Vector 0 \<Longrightarrow> column_rep (column_empty ty) []"
  by (auto simp: column_rep_def column_empty_def split: data_type.splits)

lemma column_rep_vectorE:
  assumes "column_rep (C_Vector dim data) vs"
  obtains rows where "dim \<noteq> 0" "\<forall>r \<in> set rows. length r = unat dim" "data = concat rows"
    "vs = map V_Vector rows"
  using assms by (auto simp: column_rep_def)

lemma column_rep_len: "column_rep c vs \<Longrightarrow> column_len c = length vs"
proof (cases c)
  case (C_Vector dim data)
  assume "column_rep c vs"
  then obtain rows where rows: "dim \<noteq> 0" "\<forall>r \<in> set rows. length r = unat dim"
    "data = concat rows" "vs = map V_Vector rows"
    using C_Vector by (auto elim: column_rep_vectorE)
  then show ?thesis
    using C_Vector concat_rows_length [OF rows(2)] by (simp add: column_len_def unat_eq_0)
qed (auto simp: column_rep_def column_len_def strcol_rep_len)

lemma column_rep_get:
  assumes "column_rep c vs" and "i < length vs"
  shows "column_get c i = Inr (vs ! i)"
proof (cases c)
  case (C_Vector dim data)
  then obtain rows where rows: "\<forall>r \<in> set rows. length r = unat dim" "data = concat rows"
    "vs = map V_Vector rows"
    using assms(1) by (auto elim: column_rep_vectorE)
  with assms(2) C_Vector show ?thesis
    using concat_rows_slice [OF rows(1), of i] by (simp add: column_get_def)
qed (use assms in \<open>auto simp: column_rep_def column_get_def strcol_rep_get bool_byte_def\<close>)

lemma column_empty_type [simp]: "column_type (column_empty ty) = ty"
  by (simp add: column_type_def column_empty_def split: data_type.splits)

text \<open>The value a column of type \<open>ty\<close> stores for \<open>v\<close>: an integer is widened in a real column.\<close>

fun stored :: "data_type \<Rightarrow> rvalue \<Rightarrow> rvalue" where
  "stored DT_F64 (V_I64 x) = V_F64 (f64_of_i64 x)"
| "stored _ v = v"

text \<open>The check \<open>Table::insert\<close> makes of one cell.\<close>

definition cell_ok :: "data_type \<Rightarrow> rvalue \<Rightarrow> bool" where
  "cell_ok want v \<longleftrightarrow>
     (let got = type_of v in
      want = got \<or> (want = DT_F64 \<and> got = DT_I64) \<or>
      (case (want, got) of (DT_Vector a, DT_Vector b) \<Rightarrow> a = b | _ \<Rightarrow> False))"

text \<open>Vectors are shorter than the address space, and the arena has room for the string.\<close>

definition fits :: "column \<Rightarrow> rvalue \<Rightarrow> bool" where
  "fits c v \<longleftrightarrow>
     (case (c, v) of
        (C_Str s, V_Str x) \<Rightarrow> length (buf s) + str_bytes_len x < 2 ^ 32
      | (_, V_Vector x) \<Rightarrow> length x < 2 ^ 64
      | _ \<Rightarrow> True)"

lemma column_push_ok:
  assumes rep: "column_rep c vs" and ok: "cell_ok (column_type c) v" and fit: "fits c v"
  shows "\<exists>c'. column_push c v = Inr c' \<and> column_rep c' (vs @ [stored (column_type c) v])
              \<and> column_type c' = column_type c"
proof (cases c)
  case (C_Vector dim data)
  then obtain x where v: "v = V_Vector x" and d: "dim = word_of_nat (length x)"
    using ok by (cases v) (auto simp: cell_ok_def type_of_def column_type_def)
  have len: "length x = unat dim" using fit C_Vector v d by (simp add: fits_def unat_of_nat)
  obtain rows where rows: "dim \<noteq> 0" "\<forall>r \<in> set rows. length r = unat dim" "data = concat rows"
    "vs = map V_Vector rows"
    using rep C_Vector by (auto simp: column_rep_def)
  have "column_rep (C_Vector dim (data @ x)) (vs @ [V_Vector x])"
    unfolding column_rep_def column.case
    by (rule exI [of _ "rows @ [x]"]) (use rows len in auto)
  with C_Vector v len show ?thesis by (simp add: column_type_def)
next
  case (C_Str s)
  then obtain x where v: "v = V_Str x" 
    using ok by (cases v) (auto simp: cell_ok_def type_of_def column_type_def)
  obtain ss where ss: "strcol_rep s ss" "vs = map V_Str ss"
    using rep C_Str by (auto simp: column_rep_def)
  have "strcol_rep (str_push s x) (ss @ [x])"
    using ss(1) fit C_Str v by (intro strcol_rep_push) (auto simp: fits_def)
  then have "column_rep (C_Str (str_push s x)) (vs @ [V_Str x])"
    using ss(2) by (auto simp: column_rep_def intro!: exI [of _ "ss @ [x]"])
  with C_Str v show ?thesis by (simp add: column_type_def)
next
  case (C_Bool bs)
  then obtain x where v: "v = V_Bool x"
    using ok by (cases v) (auto simp: cell_ok_def type_of_def column_type_def)
  obtain bl where "bs = map bool_byte bl" "vs = map V_Bool bl"
    using rep C_Bool by (auto simp: column_rep_def)
  then have "column_rep (C_Bool (bs @ [bool_byte x])) (vs @ [V_Bool x])"
    by (auto simp: column_rep_def intro!: exI [of _ "bl @ [x]"])
  with C_Bool v show ?thesis by (simp add: column_type_def)
qed (use rep ok in \<open>cases v; auto simp: column_rep_def cell_ok_def type_of_def column_type_def\<close>)+

lemma column_push_type: "column_push c v = Inr c' \<Longrightarrow> column_type c' = column_type c"
  by (induction c v rule: column_push.induct) (auto simp: column_type_def split: if_splits)

end
