(* ===== verification/Table.thy ===== *)
theory Table
  imports Column
begin

text \<open>
  \<open>table.rs\<close>: schemas and append-only tables. The invariant \<open>table_rep t rows\<close> says that the
  columns of \<open>t\<close> hold exactly the rows \<open>rows\<close>: the schema is valid, there is one column per
  field, of its type, and column \<open>j\<close> holds the \<open>j\<close>-th cell of every row.
\<close>

section \<open>Schemas\<close>

record field =
  fname :: rstr
  fty :: data_type

record schema =
  sfields :: "field list"

fun position :: "('a \<Rightarrow> bool) \<Rightarrow> 'a list \<Rightarrow> nat option" where
  "position p [] = None"
| "position p (x # xs) = (if p x then Some 0 else map_option Suc (position p xs))"

definition index_of :: "schema \<Rightarrow> rstr \<Rightarrow> nat option" where
  "index_of s n = position (\<lambda>f. eq_ignore_ascii_case (fname f) n) (sfields s)"

definition field_of :: "schema \<Rightarrow> rstr \<Rightarrow> field option" where
  "field_of s n = map_option (\<lambda>i. sfields s ! i) (index_of s n)"

definition schema_len :: "schema \<Rightarrow> nat" where
  "schema_len s = length (sfields s)"

text \<open>The loop of \<open>Schema::validate\<close>; \<open>seen\<close> is \<open>self.fields[..i]\<close>.\<close>

fun validate_fields :: "field list \<Rightarrow> field list \<Rightarrow> unit res" where
  "validate_fields seen [] = Inr ()"
| "validate_fields seen (f # fs) =
     (if fname f = [] then Inl Empty_column_name
      else if list_ex (\<lambda>p. eq_ignore_ascii_case (fname p) (fname f)) seen
      then Inl (Duplicate_column (fname f))
      else if fty f = DT_Vector 0 then Inl (Zero_vector (fname f))
      else validate_fields (seen @ [f]) fs)"

definition validate :: "schema \<Rightarrow> unit res" where
  "validate s = (if sfields s = [] then Inl Empty_schema else validate_fields [] (sfields s))"

section \<open>Tables\<close>

record table =
  tname :: rstr
  tschema :: schema
  columns :: "column list"
  nrows :: nat

definition table_new :: "rstr \<Rightarrow> schema \<Rightarrow> table res" where
  "table_new name s =
     and_then (validate s) (\<lambda>_.
     Inr \<lparr>tname = name, tschema = s, columns = map (\<lambda>f. column_empty (fty f)) (sfields s),
          nrows = 0\<rparr>)"

definition column_named :: "table \<Rightarrow> rstr \<Rightarrow> column option" where
  "column_named t n = map_option (\<lambda>i. columns t ! i) (index_of (tschema t) n)"

text \<open>The type check of \<open>Table::insert\<close>, cell by cell from position \<open>i\<close>.\<close>

fun check_cells :: "schema \<Rightarrow> nat \<Rightarrow> rvalue list \<Rightarrow> unit res" where
  "check_cells s i [] = Inr ()"
| "check_cells s i (v # vs) =
     and_then (index_at (sfields s) i) (\<lambda>f.
     if cell_ok (fty f) v then check_cells s (i + 1) vs
     else Inl (Cell_type (fname f) (fty f) (type_of v)))"

text \<open>
  The write loop. A failing \<open>push\<close> returns early and leaves the columns written before it
  changed, so the new columns are part of the result in both cases.
\<close>

fun push_cells :: "column list \<Rightarrow> rvalue list \<Rightarrow> column list \<times> unit res" where
  "push_cells (c # cs) (v # vs) =
     (case column_push c v of
        Inl e \<Rightarrow> (c # cs, Inl e)
      | Inr c' \<Rightarrow> (case push_cells cs vs of (cs', r) \<Rightarrow> (c' # cs', r)))"
| "push_cells cs _ = (cs, Inr ())"

definition table_insert :: "table \<Rightarrow> rvalue list \<Rightarrow> table \<times> unit res" where
  "table_insert t row =
     (if length row \<noteq> length (columns t)
      then (t, Inl (Row_arity (length row) (length (columns t))))
      else case check_cells (tschema t) 0 row of
        Inl e \<Rightarrow> (t, Inl e)
      | Inr _ \<Rightarrow>
          (case push_cells (columns t) row of
             (cs, Inl e) \<Rightarrow> (t\<lparr>columns := cs\<rparr>, Inl e)
           | (cs, Inr _) \<Rightarrow> (t\<lparr>columns := cs, nrows := nrows t + 1\<rparr>, Inr ())))"

text \<open>
  \<open>insert_many\<close> stops at the first bad row; the rows before it stay in the table.
\<close>

fun insert_rows_loop :: "table \<Rightarrow> rvalue list list \<Rightarrow> table \<times> unit res" where
  "insert_rows_loop t [] = (t, Inr ())"
| "insert_rows_loop t (r # rs) =
     (case table_insert t r of
        (t', Inl e) \<Rightarrow> (t', Inl e)
      | (t', Inr _) \<Rightarrow> insert_rows_loop t' rs)"

definition insert_many :: "table \<Rightarrow> rvalue list list \<Rightarrow> table \<times> nat res" where
  "insert_many t rows =
     (case insert_rows_loop t rows of
        (t', Inl e) \<Rightarrow> (t', Inl e)
      | (t', Inr _) \<Rightarrow> (t', Inr (length rows)))"

definition table_row :: "table \<Rightarrow> nat \<Rightarrow> rvalue list res" where
  "table_row t i = map_res (\<lambda>c. column_get c i) (columns t)"

definition table_bytes_used :: "table \<Rightarrow> nat" where
  "table_bytes_used t = sum_list (map column_bytes_used (columns t))"

text \<open>The column loop of \<open>Table::from_columns\<close>.\<close>

fun check_columns :: "nat \<Rightarrow> column list \<Rightarrow> field list \<Rightarrow> unit res" where
  "check_columns n (c # cs) (f # fs) =
     (if column_type c \<noteq> fty f then Inl (Column_type (fname f) (column_type c) (fty f))
      else if column_len c \<noteq> n then Inl (Column_rows (fname f) (column_len c) n)
      else check_columns n cs fs)"
| "check_columns n _ _ = Inr ()"

definition from_columns :: "rstr \<Rightarrow> schema \<Rightarrow> column list \<Rightarrow> table res" where
  "from_columns name s cs =
     and_then (validate s) (\<lambda>_.
     if length cs \<noteq> length (sfields s) then Inl (Column_count (length cs) (length (sfields s)))
     else
       let n = (case cs of [] \<Rightarrow> 0 | c # _ \<Rightarrow> column_len c) in
       and_then (check_columns n cs (sfields s)) (\<lambda>_.
       Inr \<lparr>tname = name, tschema = s, columns = cs, nrows = n\<rparr>))"

section \<open>Valid schemas\<close>

definition schema_ok :: "schema \<Rightarrow> bool" where
  "schema_ok s \<longleftrightarrow>
     sfields s \<noteq> [] \<and> (\<forall>f \<in> set (sfields s). fname f \<noteq> [] \<and> fty f \<noteq> DT_Vector 0) \<and>
     distinct (map (\<lambda>f. to_ascii_lowercase (fname f)) (sfields s))"

lemma validate_fields_Inr:
  "validate_fields seen fs = Inr () \<longleftrightarrow>
     (\<forall>f \<in> set fs. fname f \<noteq> [] \<and> fty f \<noteq> DT_Vector 0) \<and>
     distinct (map (\<lambda>f. to_ascii_lowercase (fname f)) fs) \<and>
     (\<forall>f \<in> set fs. \<forall>p \<in> set seen. to_ascii_lowercase (fname p) \<noteq> to_ascii_lowercase (fname f))"
proof (induction fs arbitrary: seen)
  case Nil
  then show ?case by simp
next
  case (Cons f fs)
  then show ?case by (auto simp: list_ex_iff eq_ignore_ascii_case_def)
qed

lemma validate_Inr: "validate s = Inr () \<longleftrightarrow> schema_ok s"
  by (auto simp: validate_def schema_ok_def validate_fields_Inr)

lemma validate_ok [simp]: "schema_ok s \<Longrightarrow> validate s = Inr ()"
  by (simp add: validate_Inr)

lemma validate_Inr_any [res_simps]: "validate s = Inr u \<longleftrightarrow> schema_ok s"
  by (cases u) (simp add: validate_Inr)

lemma position_Some:
  "position p xs = Some i \<longleftrightarrow> i < length xs \<and> p (xs ! i) \<and> (\<forall>j < i. \<not> p (xs ! j))"
proof (induction xs arbitrary: i)
  case Nil
  then show ?case by simp
next
  case (Cons x xs)
  then show ?case by (cases i) (auto simp: less_Suc_eq_0_disj)
qed

lemma position_None: "position p xs = None \<longleftrightarrow> (\<forall>x \<in> set xs. \<not> p x)"
  by (induction xs) auto

section \<open>What a table holds\<close>

definition table_rep :: "table \<Rightarrow> rvalue list list \<Rightarrow> bool" where
  "table_rep t rows \<longleftrightarrow>
     schema_ok (tschema t) \<and> length (columns t) = length (sfields (tschema t)) \<and>
     nrows t = length rows \<and> (\<forall>r \<in> set rows. length r = length (columns t)) \<and>
     (\<forall>j < length (columns t).
        column_type (columns t ! j) = fty (sfields (tschema t) ! j) \<and>
        column_rep (columns t ! j) (map (\<lambda>r. r ! j) rows))"

text \<open>The row as the table stores it, and the rows that the arenas still have room for.\<close>

definition stored_row :: "schema \<Rightarrow> rvalue list \<Rightarrow> rvalue list" where
  "stored_row s row = map2 (\<lambda>f v. stored (fty f) v) (sfields s) row"

definition row_fits :: "table \<Rightarrow> rvalue list \<Rightarrow> bool" where
  "row_fits t row \<longleftrightarrow> list_all2 fits (columns t) row"

definition row_ok :: "schema \<Rightarrow> rvalue list \<Rightarrow> bool" where
  "row_ok s row \<longleftrightarrow> list_all2 (\<lambda>f v. cell_ok (fty f) v) (sfields s) row"

lemma table_rep_new:
  "table_new name s = Inr t \<Longrightarrow> table_rep t [] \<and> tname t = name \<and> tschema t = s"
  by (auto simp: table_new_def res_simps table_rep_def schema_ok_def)

lemma table_new_ok: "schema_ok s \<Longrightarrow> \<exists>t. table_new name s = Inr t"
  by (simp add: table_new_def)

lemma check_cells_Inr:
  "i + length vs = length (sfields s) \<Longrightarrow>
   check_cells s i vs = Inr () \<longleftrightarrow> list_all2 (\<lambda>f v. cell_ok (fty f) v) (drop i (sfields s)) vs"
proof (induction vs arbitrary: i)
  case Nil
  then show ?case by simp
next
  case (Cons v vs)
  then have "drop i (sfields s) = sfields s ! i # drop (Suc i) (sfields s)"
    by (simp add: Cons_nth_drop_Suc)
  with Cons show ?case by simp
qed

lemma check_cells_row_ok:
  "length row = length (sfields s) \<Longrightarrow> check_cells s 0 row = Inr () \<longleftrightarrow> row_ok s row"
  by (simp add: check_cells_Inr row_ok_def)

text \<open>
  The write loop never fails on cells that passed the check, so it never leaves a half-written
  row: the push of every cell succeeds and extends its column.
\<close>

lemma push_cells_ok:
  assumes "list_all2 fits cs vs" and "length reps = length cs"
    and "\<forall>j < length cs. column_rep (cs ! j) (reps ! j) \<and> cell_ok (column_type (cs ! j)) (vs ! j)"
  shows "\<exists>cs'. push_cells cs vs = (cs', Inr ()) \<and> length cs' = length cs \<and>
           (\<forall>j < length cs. column_type (cs' ! j) = column_type (cs ! j) \<and>
              column_rep (cs' ! j) (reps ! j @ [stored (column_type (cs ! j)) (vs ! j)]))"
  using assms
proof (induction cs vs arbitrary: reps rule: list_all2_induct)
  case Nil
  then show ?case by simp
next
  case (Cons c cs v vs)
  obtain r rs where reps: "reps = r # rs" using Cons.prems(1) by (cases reps) auto
  have "column_rep c r" "cell_ok (column_type c) v" using Cons.prems(2) reps by auto
  then obtain c' where c': "column_push c v = Inr c'" "column_rep c' (r @ [stored (column_type c) v])"
    "column_type c' = column_type c"
    using column_push_ok Cons.hyps(1) by blast
  have "\<forall>j < length cs. column_rep (cs ! j) (rs ! j) \<and> cell_ok (column_type (cs ! j)) (vs ! j)"
    using Cons.prems(2) reps by auto
  then obtain cs' where cs': "push_cells cs vs = (cs', Inr ())" "length cs' = length cs"
    "\<forall>j < length cs. column_type (cs' ! j) = column_type (cs ! j) \<and>
       column_rep (cs' ! j) (rs ! j @ [stored (column_type (cs ! j)) (vs ! j)])"
    using Cons.IH [of rs] Cons.prems(1) reps by auto
  show ?case
  proof (intro exI conjI)
    show "push_cells (c # cs) (v # vs) = (c' # cs', Inr ())" using c' cs' by simp
    show "length (c' # cs') = length (c # cs)" using cs' by simp
    show "\<forall>j < length (c # cs). column_type ((c' # cs') ! j) = column_type ((c # cs) ! j) \<and>
       column_rep ((c' # cs') ! j) (reps ! j @ [stored (column_type ((c # cs) ! j)) ((v # vs) ! j)])"
      using c' cs' reps by (auto simp: nth_Cons split: nat.split)
  qed
qed

lemma table_insert_ok:
  assumes rep: "table_rep t rows" and ok: "row_ok (tschema t) row" and fit: "row_fits t row"
  shows "\<exists>t'. table_insert t row = (t', Inr ()) \<and>
           table_rep t' (rows @ [stored_row (tschema t) row]) \<and>
           tname t' = tname t \<and> tschema t' = tschema t"
proof -
  let ?cs = "columns t" and ?fs = "sfields (tschema t)"
  have len: "length ?cs = length ?fs" "length row = length ?fs"
    using rep ok by (auto simp: table_rep_def row_ok_def dest: list_all2_lengthD)
  have cells: "\<forall>j < length ?cs. column_rep (?cs ! j) (map (\<lambda>j. map (\<lambda>r. r ! j) rows) [0..<length ?cs] ! j) \<and>
      cell_ok (column_type (?cs ! j)) (row ! j)"
    using rep ok len by (auto simp: table_rep_def row_ok_def list_all2_conv_all_nth)
  obtain cs' where cs': "push_cells ?cs row = (cs', Inr ())" "length cs' = length ?cs"
    "\<forall>j < length ?cs. column_type (cs' ! j) = column_type (?cs ! j) \<and>
       column_rep (cs' ! j) (map (\<lambda>r. r ! j) rows @ [stored (column_type (?cs ! j)) (row ! j)])"
    using push_cells_ok [OF _ _ cells] fit by (auto simp: row_fits_def)
  let ?t = "t\<lparr>columns := cs', nrows := nrows t + 1\<rparr>"
  have "table_insert t row = (?t, Inr ())"
    using cs'(1) len ok check_cells_row_ok [of row "tschema t"] by (simp add: table_insert_def)
  moreover have "table_rep ?t (rows @ [stored_row (tschema t) row])"
    using rep cs' len by (auto simp: table_rep_def stored_row_def)
  ultimately show ?thesis by auto
qed

lemma table_insert_error:
  assumes rep: "table_rep t rows" and bad: "\<not> row_ok (tschema t) row"
  shows "\<exists>e. table_insert t row = (t, Inl e)"
proof (cases "length row = length (columns t)")
  case True
  then have "check_cells (tschema t) 0 row \<noteq> Inr ()"
    using bad rep by (simp add: check_cells_row_ok table_rep_def)
  with True show ?thesis
    by (cases "check_cells (tschema t) 0 row") (auto simp: table_insert_def)
qed (simp add: table_insert_def)

lemma table_rep_row:
  assumes rep: "table_rep t rows" and i: "i < length rows"
  shows "table_row t i = Inr (rows ! i)"
proof -
  have len: "length (rows ! i) = length (columns t)" using rep i by (simp add: table_rep_def)
  have "column_get (columns t ! j) i = Inr (rows ! i ! j)" if "j < length (columns t)" for j
    using column_rep_get [of "columns t ! j" "map (\<lambda>r. r ! j) rows" i] rep i that
    by (simp add: table_rep_def)
  then show ?thesis
    using len by (simp add: table_row_def map_res_Inr list_all2_conv_all_nth)
qed

lemma table_rep_unique:
  assumes "table_rep t rows" and "table_rep t rows'"
  shows "rows = rows'"
proof (rule nth_equalityI)
  show len: "length rows = length rows'" using assms by (simp add: table_rep_def)
  show "rows ! i = rows' ! i" if "i < length rows" for i
    using table_rep_row [OF assms(1), of i] table_rep_row [OF assms(2), of i] that len by simp
qed

section \<open>Batches\<close>

text \<open>Every row of the batch finds room in the table the rows before it leave behind.\<close>

fun batch_fits :: "table \<Rightarrow> rvalue list list \<Rightarrow> bool" where
  "batch_fits t [] = True"
| "batch_fits t (r # rs) = (row_fits t r \<and> batch_fits (fst (table_insert t r)) rs)"

lemma insert_rows_loop_ok:
  assumes "table_rep t rows" and "\<forall>r \<in> set rs. row_ok (tschema t) r" and "batch_fits t rs"
  shows "\<exists>t'. insert_rows_loop t rs = (t', Inr ()) \<and>
           table_rep t' (rows @ map (stored_row (tschema t)) rs) \<and>
           tname t' = tname t \<and> tschema t' = tschema t"
  using assms
proof (induction rs arbitrary: t rows)
  case Nil
  then show ?case by simp
next
  case (Cons r rs)
  obtain t' where t': "table_insert t r = (t', Inr ())"
    "table_rep t' (rows @ [stored_row (tschema t) r])" "tname t' = tname t" "tschema t' = tschema t"
    using table_insert_ok [OF Cons.prems(1)] Cons.prems(2,3) by auto
  have "\<forall>x \<in> set rs. row_ok (tschema t') x" "batch_fits t' rs"
    using Cons.prems(2,3) t' by auto
  from Cons.IH [OF t'(2) this] t' show ?case by auto
qed

lemma insert_many_ok:
  assumes "table_rep t rows" and "\<forall>r \<in> set rs. row_ok (tschema t) r" and "batch_fits t rs"
  shows "\<exists>t'. insert_many t rs = (t', Inr (length rs)) \<and>
           table_rep t' (rows @ map (stored_row (tschema t)) rs) \<and>
           tname t' = tname t \<and> tschema t' = tschema t"
  using insert_rows_loop_ok [OF assms] by (auto simp: insert_many_def)

lemma batch_fits_append:
  "batch_fits t (xs @ ys) \<longleftrightarrow> batch_fits t xs \<and> batch_fits (fst (insert_rows_loop t xs)) ys"
  if "\<forall>r \<in> set xs. row_ok (tschema t) r" "table_rep t rows"
  using that
proof (induction xs arbitrary: t rows)
  case Nil
  then show ?case by simp
next
  case (Cons x xs)
  show ?case
  proof (cases "row_fits t x")
    case True
    then obtain t' where t': "table_insert t x = (t', Inr ())"
      "table_rep t' (rows @ [stored_row (tschema t) x])" "tschema t' = tschema t"
      using table_insert_ok [OF Cons.prems(2)] Cons.prems(1) by auto
    then show ?thesis using Cons.IH [OF _ t'(2)] Cons.prems(1) by auto
  qed simp
qed

text \<open>A batch with a bad row keeps the rows before it: the insert is not atomic.\<close>

lemma insert_many_partial:
  assumes rep: "table_rep t rows" and good: "\<forall>r \<in> set rs. row_ok (tschema t) r"
    and fit: "batch_fits t rs" and bad: "\<not> row_ok (tschema t) b"
  shows "\<exists>t' e. insert_many t (rs @ b # bs) = (t', Inl e) \<and>
           table_rep t' (rows @ map (stored_row (tschema t)) rs)"
proof -
  have split: "insert_rows_loop t (xs @ ys) =
      (case insert_rows_loop t xs of (t', Inl e) \<Rightarrow> (t', Inl e) | (t', Inr _) \<Rightarrow> insert_rows_loop t' ys)"
    for t xs ys by (induction xs arbitrary: t) (auto split: prod.splits sum.splits)
  obtain t' where t': "insert_rows_loop t rs = (t', Inr ())"
    "table_rep t' (rows @ map (stored_row (tschema t)) rs)" "tschema t' = tschema t"
    using insert_rows_loop_ok [OF rep good fit] by auto
  obtain e where "table_insert t' b = (t', Inl e)"
    using table_insert_error [OF t'(2), of b] bad t'(3) by auto
  with t' show ?thesis by (auto simp: insert_many_def split)
qed

section \<open>Rebuilding a table from its columns\<close>

lemma check_columns_ok:
  "length cs = length fs \<Longrightarrow>
   (\<forall>j < length cs. column_type (cs ! j) = fty (fs ! j) \<and> column_len (cs ! j) = n) \<Longrightarrow>
   check_columns n cs fs = Inr ()"
proof (induction cs fs rule: list_induct2)
  case Nil
  then show ?case by simp
next
  case (Cons c cs f fs)
  from Cons.prems have "column_type c = fty f" "column_len c = n" by auto
  moreover have "\<forall>j < length cs. column_type (cs ! j) = fty (fs ! j) \<and> column_len (cs ! j) = n"
    using Cons.prems by auto
  ultimately show ?case using Cons.IH by simp
qed

lemma from_columns_rep:
  assumes rep: "table_rep t rows"
  shows "from_columns (tname t) (tschema t) (columns t) = Inr t"
proof -
  let ?fs = "sfields (tschema t)"
  have ok: "schema_ok (tschema t)" and len: "length (columns t) = length ?fs"
    and n: "nrows t = length rows"
    using rep by (simp_all add: table_rep_def)
  have cols: "\<forall>j < length (columns t). column_type (columns t ! j) = fty (?fs ! j) \<and>
      column_len (columns t ! j) = nrows t"
    using rep column_rep_len [of "columns t ! j" "map (\<lambda>r. r ! j) rows" for j]
    by (simp add: table_rep_def)
  obtain c cs where c: "columns t = c # cs"
    using ok len by (cases "columns t") (auto simp: schema_ok_def)
  then have "column_len c = nrows t" using cols by auto
  with ok len c check_columns_ok [OF len cols] show ?thesis
    by (simp add: from_columns_def)
qed

end
