(* ===== verification/Plan.thy ===== *)
theory Plan
  imports Table
begin

text \<open>
  \<open>plan.rs\<close>: the intermediate representation of a query and the two traversals of expressions.
  \<open>walk\<close> threads the state of the visitor; \<open>expr_eq\<close> is the derived \<open>PartialEq\<close>, which compares
  floats by value, so that a NaN literal differs from itself and the two zeros are equal.
\<close>

section \<open>Operators and functions\<close>

datatype (plugins only: code size) bin_op =
    B_Add | B_Sub | B_Mul | B_Div | B_Mod
  | B_Eq | B_NotEq | B_Lt | B_LtEq | B_Gt | B_GtEq
  | B_And | B_Or

datatype (plugins only: code size) un_op = U_Not | U_Neg

datatype (plugins only: code size) agg_func = A_Count | A_Sum | A_Avg | A_Min | A_Max

datatype (plugins only: code size) metric = M_L2 | M_Cosine | M_NegInnerProduct

definition metric_from_name :: "rstr \<Rightarrow> metric option" where
  "metric_from_name s =
     map_of
       [(str ''l2_distance'', M_L2), (str ''l2'', M_L2), (str ''euclidean_distance'', M_L2),
        (str ''cosine_distance'', M_Cosine), (str ''cosine'', M_Cosine),
        (str ''inner_product'', M_NegInnerProduct), (str ''dot_product'', M_NegInnerProduct)]
       (to_ascii_lowercase s)"

datatype (plugins only: code size) scalar_fn =
    S_Length | S_Lower | S_Upper | S_Abs | S_Floor | S_Ceil | S_Round | S_Sqrt | S_Substring
  | S_ExtractHour | S_ExtractMinute | S_ExtractDay | S_ExtractMonth | S_ExtractYear
  | S_Coalesce | S_If | S_DateTrunc

definition scalar_from_name :: "rstr \<Rightarrow> scalar_fn option" where
  "scalar_from_name s =
     map_of
       [(str ''length'', S_Length), (str ''char_length'', S_Length), (str ''octet_length'', S_Length),
        (str ''lower'', S_Lower), (str ''lcase'', S_Lower),
        (str ''upper'', S_Upper), (str ''ucase'', S_Upper),
        (str ''abs'', S_Abs), (str ''floor'', S_Floor),
        (str ''ceil'', S_Ceil), (str ''ceiling'', S_Ceil),
        (str ''round'', S_Round), (str ''sqrt'', S_Sqrt),
        (str ''substring'', S_Substring), (str ''substr'', S_Substring),
        (str ''to_hour'', S_ExtractHour), (str ''to_minute'', S_ExtractMinute),
        (str ''to_day'', S_ExtractDay), (str ''to_dayofmonth'', S_ExtractDay),
        (str ''to_month'', S_ExtractMonth), (str ''to_year'', S_ExtractYear),
        (str ''coalesce'', S_Coalesce), (str ''if'', S_If),
        (str ''date_trunc'', S_DateTrunc), (str ''to_start_of'', S_DateTrunc)]
       (to_ascii_lowercase s)"

section \<open>Expressions\<close>

datatype (plugins only: code size) expr =
    E_Col nat
  | E_Lit rvalue
  | E_Binary bin_op expr expr
  | E_Unary un_op expr
  | E_Like expr rstr bool bool
  | E_InList expr "rvalue list" bool
  | E_Between expr expr expr bool
  | E_Func scalar_fn "expr list"
  | E_Distance metric nat "f32 list"
  | E_Agg agg_func "expr option" bool
  | E_Cast expr data_type

definition lit_i :: "i64 \<Rightarrow> expr" where
  "lit_i v = E_Lit (V_I64 v)"

definition value_eq :: "rvalue \<Rightarrow> rvalue \<Rightarrow> bool" where
  "value_eq a b =
     (case (a, b) of
        (V_I64 x, V_I64 y) \<Rightarrow> x = y
      | (V_F64 x, V_F64 y) \<Rightarrow> f64_eq x y
      | (V_Bool x, V_Bool y) \<Rightarrow> x = y
      | (V_Str x, V_Str y) \<Rightarrow> x = y
      | (V_Vector x, V_Vector y) \<Rightarrow> list_all2 f32_eq x y
      | _ \<Rightarrow> False)"

primrec expr_eq :: "expr \<Rightarrow> expr \<Rightarrow> bool" where
  "expr_eq (E_Col i) = (\<lambda>b. case b of E_Col j \<Rightarrow> i = j | _ \<Rightarrow> False)"
| "expr_eq (E_Lit v) = (\<lambda>b. case b of E_Lit w \<Rightarrow> value_eq v w | _ \<Rightarrow> False)"
| "expr_eq (E_Binary op l r) =
     (\<lambda>b. case b of E_Binary op' l' r' \<Rightarrow> op = op' \<and> expr_eq l l' \<and> expr_eq r r' | _ \<Rightarrow> False)"
| "expr_eq (E_Unary op e) =
     (\<lambda>b. case b of E_Unary op' e' \<Rightarrow> op = op' \<and> expr_eq e e' | _ \<Rightarrow> False)"
| "expr_eq (E_Like e p n ci) =
     (\<lambda>b. case b of E_Like e' p' n' ci' \<Rightarrow> expr_eq e e' \<and> p = p' \<and> n = n' \<and> ci = ci' | _ \<Rightarrow> False)"
| "expr_eq (E_InList e vs n) =
     (\<lambda>b. case b of E_InList e' vs' n' \<Rightarrow> expr_eq e e' \<and> list_all2 value_eq vs vs' \<and> n = n' | _ \<Rightarrow> False)"
| "expr_eq (E_Between e lo hi n) =
     (\<lambda>b. case b of E_Between e' lo' hi' n' \<Rightarrow>
        expr_eq e e' \<and> expr_eq lo lo' \<and> expr_eq hi hi' \<and> n = n' | _ \<Rightarrow> False)"
| "expr_eq (E_Func f args) =
     (\<lambda>b. case b of E_Func f' args' \<Rightarrow> f = f' \<and> list_all2 (\<lambda>g a. g a) (map expr_eq args) args'
      | _ \<Rightarrow> False)"
| "expr_eq (E_Distance m c q) =
     (\<lambda>b. case b of E_Distance m' c' q' \<Rightarrow> m = m' \<and> c = c' \<and> list_all2 f32_eq q q' | _ \<Rightarrow> False)"
| "expr_eq (E_Agg f arg d) =
     (\<lambda>b. case b of E_Agg f' arg' d' \<Rightarrow>
        f = f' \<and> d = d' \<and>
        (case (map_option expr_eq arg, arg') of
           (None, None) \<Rightarrow> True | (Some g, Some a) \<Rightarrow> g a | _ \<Rightarrow> False)
      | _ \<Rightarrow> False)"
| "expr_eq (E_Cast e ty) = (\<lambda>b. case b of E_Cast e' ty' \<Rightarrow> expr_eq e e' \<and> ty = ty' | _ \<Rightarrow> False)"

text \<open>
  \<open>walk f e\<close> as a transformer of the visitor's state; \<open>f\<close> returns \<open>True\<close> to stay out of a subtree.
\<close>

definition visit :: "(expr \<Rightarrow> 's \<Rightarrow> 's \<times> bool) \<Rightarrow> expr \<Rightarrow> ('s \<Rightarrow> 's) \<Rightarrow> 's \<Rightarrow> 's" where
  "visit f e sub s = (case f e s of (s', stop) \<Rightarrow> if stop then s' else sub s')"

primrec walk :: "(expr \<Rightarrow> 's \<Rightarrow> 's \<times> bool) \<Rightarrow> expr \<Rightarrow> 's \<Rightarrow> 's" where
  "walk f (E_Col i) = visit f (E_Col i) id"
| "walk f (E_Lit v) = visit f (E_Lit v) id"
| "walk f (E_Binary op l r) = visit f (E_Binary op l r) (\<lambda>s. walk f r (walk f l s))"
| "walk f (E_Unary op e) = visit f (E_Unary op e) (walk f e)"
| "walk f (E_Like e p n ci) = visit f (E_Like e p n ci) (walk f e)"
| "walk f (E_InList e vs n) = visit f (E_InList e vs n) (walk f e)"
| "walk f (E_Between e lo hi n) =
     visit f (E_Between e lo hi n) (\<lambda>s. walk f hi (walk f lo (walk f e s)))"
| "walk f (E_Func g args) = visit f (E_Func g args) (\<lambda>s. foldl (\<lambda>s w. w s) s (map (walk f) args))"
| "walk f (E_Distance m c q) = visit f (E_Distance m c q) id"
| "walk f (E_Agg g arg d) =
     visit f (E_Agg g arg d) (\<lambda>s. case map_option (walk f) arg of None \<Rightarrow> s | Some w \<Rightarrow> w s)"
| "walk f (E_Cast e ty) = visit f (E_Cast e ty) (walk f e)"

definition is_agg :: "expr \<Rightarrow> bool" where
  "is_agg e = (case e of E_Agg _ _ _ \<Rightarrow> True | _ \<Rightarrow> False)"

definition contains_agg :: "expr \<Rightarrow> bool" where
  "contains_agg e = walk (\<lambda>e found. let found' = (is_agg e \<or> found) in (found', found')) e False"

lemma is_agg_simps [simp]:
  "\<not> is_agg (E_Col i)" "\<not> is_agg (E_Lit v)" "\<not> is_agg (E_Binary op l r)" "\<not> is_agg (E_Unary u e)"
  "\<not> is_agg (E_Like e p n c)" "\<not> is_agg (E_InList e vs n)" "\<not> is_agg (E_Between e l r n)"
  "\<not> is_agg (E_Func g args)" "\<not> is_agg (E_Distance m i q)" "is_agg (E_Agg h arg d)"
  "\<not> is_agg (E_Cast e ty)"
  by (simp_all add: is_agg_def)

text \<open>\<open>substitute\<close>: the first pattern equal to the node replaces it, otherwise its parts are done.\<close>

definition replace_or :: "(expr \<times> expr) list \<Rightarrow> expr \<Rightarrow> expr \<Rightarrow> expr" where
  "replace_or pats e e' =
     (case find (\<lambda>(from, _). expr_eq e from) pats of None \<Rightarrow> e' | Some (_, to) \<Rightarrow> to)"

primrec substitute :: "(expr \<times> expr) list \<Rightarrow> expr \<Rightarrow> expr" where
  "substitute pats (E_Col i) = replace_or pats (E_Col i) (E_Col i)"
| "substitute pats (E_Lit v) = replace_or pats (E_Lit v) (E_Lit v)"
| "substitute pats (E_Binary op l r) =
     replace_or pats (E_Binary op l r) (E_Binary op (substitute pats l) (substitute pats r))"
| "substitute pats (E_Unary op e) = replace_or pats (E_Unary op e) (E_Unary op (substitute pats e))"
| "substitute pats (E_Like e p n ci) =
     replace_or pats (E_Like e p n ci) (E_Like (substitute pats e) p n ci)"
| "substitute pats (E_InList e vs n) =
     replace_or pats (E_InList e vs n) (E_InList (substitute pats e) vs n)"
| "substitute pats (E_Between e lo hi n) =
     replace_or pats (E_Between e lo hi n)
       (E_Between (substitute pats e) (substitute pats lo) (substitute pats hi) n)"
| "substitute pats (E_Func f args) =
     replace_or pats (E_Func f args) (E_Func f (map (substitute pats) args))"
| "substitute pats (E_Distance m c q) = replace_or pats (E_Distance m c q) (E_Distance m c q)"
| "substitute pats (E_Agg f arg d) =
     replace_or pats (E_Agg f arg d) (E_Agg f (map_option (substitute pats) arg) d)"
| "substitute pats (E_Cast e ty) = replace_or pats (E_Cast e ty) (E_Cast (substitute pats e) ty)"

section \<open>Statements\<close>

record projection =
  proj_expr :: expr
  proj_alias :: rstr

record order_key =
  key_expr :: expr
  asc :: bool

record select =
  sel_table :: "rstr option"
  sel_filter :: "expr option"
  group_by :: "expr list"
  having :: "expr option"
  projections :: "projection list"
  order_by :: "order_key list"
  limit :: "nat option"
  offset :: nat

definition is_aggregate :: "select \<Rightarrow> bool" where
  "is_aggregate p \<longleftrightarrow>
     group_by p \<noteq> [] \<or> list_ex (\<lambda>x. contains_agg (proj_expr x)) (projections p) \<or>
     list_ex (\<lambda>o'. contains_agg (key_expr o')) (order_by p)"

datatype (plugins only: code size) statement =
    St_CreateTable rstr schema bool
  | St_DropTable rstr bool
  | St_Insert rstr "rstr list option" "rvalue list list"
  | St_Select select
  | St_ShowTables
  | St_Describe rstr

section \<open>What the traversals do\<close>

text \<open>The nodes of an expression, itself included.\<close>

primrec nodes :: "expr \<Rightarrow> expr list" where
  "nodes (E_Col i) = [E_Col i]"
| "nodes (E_Lit v) = [E_Lit v]"
| "nodes (E_Binary op l r) = E_Binary op l r # nodes l @ nodes r"
| "nodes (E_Unary op e) = E_Unary op e # nodes e"
| "nodes (E_Like e p n ci) = E_Like e p n ci # nodes e"
| "nodes (E_InList e vs n) = E_InList e vs n # nodes e"
| "nodes (E_Between e lo hi n) = E_Between e lo hi n # nodes e @ nodes lo @ nodes hi"
| "nodes (E_Func f args) = E_Func f args # concat (map nodes args)"
| "nodes (E_Distance m c q) = [E_Distance m c q]"
| "nodes (E_Agg f arg d) =
     E_Agg f arg d # (case map_option nodes arg of None \<Rightarrow> [] | Some ns \<Rightarrow> ns)"
| "nodes (E_Cast e ty) = E_Cast e ty # nodes e"

definition agg_visitor :: "expr \<Rightarrow> bool \<Rightarrow> bool \<times> bool" where
  "agg_visitor e found = (let found' = (is_agg e \<or> found) in (found', found'))"

lemma visit_agg: "visit agg_visitor e sub s \<longleftrightarrow> is_agg e \<or> s \<or> sub False"
  by (auto simp: visit_def agg_visitor_def Let_def)

lemma walk_agg_visitor: "walk agg_visitor e found = (list_ex is_agg (nodes e) \<or> found)"
proof (induction e arbitrary: found)
  case (E_Func f args)
  have "foldl (\<lambda>s w. w s) s (map (walk agg_visitor) args) =
      (list_ex is_agg (concat (map nodes args)) \<or> s)" for s
    using E_Func by (induction args arbitrary: s) auto
  then show ?case by (auto simp: visit_agg)
qed (auto simp: visit_agg)

lemma contains_agg_nodes: "contains_agg e \<longleftrightarrow> list_ex is_agg (nodes e)"
proof -
  have "contains_agg e = walk agg_visitor e False"
    unfolding contains_agg_def by (rule arg_cong [of _ _ "\<lambda>v. walk v e False"]) (simp add: fun_eq_iff agg_visitor_def Let_def)
  then show ?thesis by (simp add: walk_agg_visitor)
qed

text \<open>
  An expression without matching parts is left alone; one pass never rewrites its own output.
\<close>

lemma replace_or_None: "find (\<lambda>(from, _). expr_eq e from) pats = None \<Longrightarrow> replace_or pats e e' = e'"
  by (simp add: replace_or_def)

lemma substitute_unmatched:
  "(\<And>n. n \<in> set (nodes e) \<Longrightarrow> find (\<lambda>(from, _). expr_eq n from) pats = None) \<Longrightarrow> substitute pats e = e"
proof (induction e)
  case (E_Func f args)
  then have "map (substitute pats) args = args" by (intro map_idI) auto
  with E_Func show ?case by (simp add: replace_or_None del: expr_eq.simps)
next
  case (E_Agg f arg d)
  then show ?case by (cases arg) (simp_all add: replace_or_None del: expr_eq.simps)
qed (simp_all add: replace_or_None del: expr_eq.simps)

end
