(* ===== verification/Decimal.thy ===== *)
theory Decimal
  imports Text Ieee
begin

text \<open>
  Numbers as text: the parts of the standard library behind \<open>str::trim\<close>, \<open>str::parse\<close> for
  \<open>i64\<close>, \<open>usize\<close>, \<open>f64\<close> and \<open>f32\<close>, and \<open>to_string\<close> on floats. Parsing a float rounds the exact decimal
  once; printing gives the shortest decimal that parses back to the same bits, the closest one
  if there are two, without an exponent.
\<close>

section \<open>White space\<close>

definition is_white :: "uchar \<Rightarrow> bool" where
  "is_white c \<longleftrightarrow>
     (let n = code_point c in
      (9 \<le> n \<and> n \<le> 13) \<or> n = 32 \<or> n = 133 \<or> n = 160 \<or> n = 5760 \<or> (8192 \<le> n \<and> n \<le> 8202) \<or>
      n = 8232 \<or> n = 8233 \<or> n = 8239 \<or> n = 8287 \<or> n = 12288)"

definition trim_start_matches :: "(uchar \<Rightarrow> bool) \<Rightarrow> rstr \<Rightarrow> rstr" where
  "trim_start_matches P s = dropWhile P s"

definition trim_end_matches :: "(uchar \<Rightarrow> bool) \<Rightarrow> rstr \<Rightarrow> rstr" where
  "trim_end_matches P s = rev (dropWhile P (rev s))"

definition trim :: "rstr \<Rightarrow> rstr" where
  "trim s = trim_end_matches is_white (trim_start_matches is_white s)"

section \<open>Integers\<close>

definition digit_of :: "uchar \<Rightarrow> nat option" where
  "digit_of c = (let n = code_point c in if 48 \<le> n \<and> n \<le> 57 then Some (n - 48) else None)"

fun digits_value :: "nat \<Rightarrow> rstr \<Rightarrow> nat option" where
  "digits_value acc [] = Some acc"
| "digits_value acc (c # cs) =
     (case digit_of c of None \<Rightarrow> None | Some d \<Rightarrow> digits_value (10 * acc + d) cs)"

text \<open>A sign in front, if there is one, and the rest.\<close>

definition split_sign :: "rstr \<Rightarrow> bool \<times> rstr" where
  "split_sign s =
     (case s of
        [] \<Rightarrow> (False, [])
      | c # cs \<Rightarrow>
          if code_point c = 45 then (True, cs)
          else if code_point c = 43 then (False, cs)
          else (False, s))"

definition parse_i64 :: "rstr \<Rightarrow> i64 option" where
  "parse_i64 s =
     (case split_sign s of (neg, ds) \<Rightarrow>
        if ds = [] then None
        else case digits_value 0 ds of
          None \<Rightarrow> None
        | Some n \<Rightarrow>
            (let i = (if neg then - int n else int n) in
             if - (2 ^ 63) \<le> i \<and> i < 2 ^ 63 then Some (word_of_int i) else None))"

definition parse_usize :: "rstr \<Rightarrow> usize option" where
  "parse_usize s =
     (let ds = (case s of c # cs \<Rightarrow> if code_point c = 43 then cs else s | [] \<Rightarrow> []) in
      if ds = [] then None
      else case digits_value 0 ds of
        None \<Rightarrow> None
      | Some n \<Rightarrow> if n < 2 ^ 64 then Some (word_of_nat n) else None)"

section \<open>Parsing floats\<close>

definition is_digit :: "uchar \<Rightarrow> bool" where
  "is_digit c \<longleftrightarrow> digit_of c \<noteq> None"

definition digits_nat :: "rstr \<Rightarrow> nat" where
  "digits_nat ds = (case digits_value 0 ds of None \<Rightarrow> 0 | Some n \<Rightarrow> n)"

text \<open>The exponent part after the digits: nothing, or \<open>e\<close> with a signed integer.\<close>

definition parse_exp :: "rstr \<Rightarrow> int option" where
  "parse_exp s =
     (case s of
        [] \<Rightarrow> Some 0
      | c # cs \<Rightarrow>
          if code_point (ascii_lower c) = 101 then
            (case split_sign cs of (neg, ds) \<Rightarrow>
               if ds \<noteq> [] \<and> list_all is_digit ds
               then Some (if neg then - int (digits_nat ds) else int (digits_nat ds))
               else None)
          else None)"

text \<open>The mantissa and the power of ten of an unsigned decimal.\<close>

definition parse_decimal :: "rstr \<Rightarrow> (nat \<times> int) option" where
  "parse_decimal s =
     (let ip = takeWhile is_digit s; r = dropWhile is_digit s;
          dot = (r \<noteq> [] \<and> code_point (hd r) = 46);
          fp = (if dot then takeWhile is_digit (tl r) else []);
          rest = (if dot then dropWhile is_digit (tl r) else r)
      in if ip = [] \<and> fp = [] then None
         else map_option (\<lambda>e. (digits_nat (ip @ fp), e - int (length fp))) (parse_exp rest))"

definition decimal_bits :: "nat \<Rightarrow> nat \<Rightarrow> nat \<Rightarrow> int \<Rightarrow> nat" where
  "decimal_bits ew fw m e =
     (if 0 \<le> e then round_bits ew fw (m * 10 ^ nat e) 1 else round_bits ew fw m (10 ^ nat (- e)))"

definition parse_float :: "nat \<Rightarrow> nat \<Rightarrow> rstr \<Rightarrow> nat option" where
  "parse_float ew fw s =
     (case split_sign s of (neg, t) \<Rightarrow>
        map_option (\<lambda>b. sign_bits ew fw neg + b)
          (if to_ascii_lowercase t = str ''inf'' \<or> to_ascii_lowercase t = str ''infinity''
           then Some (inf_bits ew fw)
           else if to_ascii_lowercase t = str ''nan'' then Some (inf_bits ew fw + 2 ^ (fw - 1))
           else map_option (\<lambda>(m, e). decimal_bits ew fw m e) (parse_decimal t)))"

definition parse_f64 :: "rstr \<Rightarrow> f64 option" where
  "parse_f64 s = map_option word_of_nat (parse_float 11 52 s)"

definition parse_f32 :: "rstr \<Rightarrow> f32 option" where
  "parse_f32 s = map_option word_of_nat (parse_float 8 23 s)"

section \<open>Printing floats\<close>

text \<open>The number \<open>k\<close> with \<open>10 ^ (k - 1) \<le> p / q < 10 ^ k\<close>, for the magnitudes of floats.\<close>

fun dec_exp :: "nat \<Rightarrow> nat \<Rightarrow> nat \<Rightarrow> int" where
  "dec_exp 0 p q = 0"
| "dec_exp (Suc fuel) p q =
     (if q \<le> p then int (length (dec_digits (p div q))) else dec_exp fuel (10 * p) q - 1)"

lemma dec_exp_enough:
  assumes "q \<le> p * 10 ^ f" and "f < g" and "f < h"
  shows "dec_exp g p q = dec_exp h p q"
  using assms
proof (induction f arbitrary: g h p)
  case 0
  then show ?case by (cases g; cases h) auto
next
  case (Suc f)
  obtain g' h' where "g = Suc g'" "h = Suc h'" "f < g'" "f < h'"
    using Suc.prems by (cases g; cases h) auto
  then show ?case using Suc.IH [of "10 * p" g' h'] Suc.prems by (simp add: ac_simps)
qed

text \<open>The smallest double is \<open>2 ^ - 1074\<close>: 400 steps are enough for every magnitude of a float.\<close>

lemma dec_exp_fuel:
  assumes "0 < p" and "q \<le> 2 ^ 1074" and "400 \<le> g"
  shows "dec_exp g p q = dec_exp 400 p q"
proof (rule dec_exp_enough)
  have "(2::nat) ^ 1074 \<le> 10 ^ 399" by simp
  also have "\<dots> \<le> p * 10 ^ 399" using assms(1) by simp
  finally show "q \<le> p * 10 ^ 399" using assms(2) by linarith
qed (use assms(3) in simp_all)

definition print_decimal :: "nat \<Rightarrow> int \<Rightarrow> rstr" where
  "print_decimal c s =
     (if s \<le> 0 then dec_digits c @ replicate (nat (- s)) (uchar_of 48)
      else
        let ip = c div 10 ^ nat s; fp = dec_digits (c mod 10 ^ nat s);
            padded = replicate (nat s - length fp) (uchar_of 48) @ fp;
            kept = rev (dropWhile (\<lambda>d. d = uchar_of 48) (rev padded))
        in if kept = [] then dec_digits ip else dec_digits ip @ [uchar_of 46] @ kept)"

text \<open>
  The search for the shortest decimal of \<open>p / q\<close> with the bits \<open>b\<close>: for each number of digits
  the neighbours on both sides, the nearer one first.
\<close>

definition near_decimal :: "nat \<Rightarrow> nat \<Rightarrow> int \<Rightarrow> nat" where
  "near_decimal p q s =
     (let p' = (if 0 \<le> s then p * 10 ^ nat s else p);
          q' = (if 0 \<le> s then q else q * 10 ^ nat (- s))
      in if 2 * (p' mod q') < q' then p' div q' else Suc (p' div q'))"

definition far_decimal :: "nat \<Rightarrow> nat \<Rightarrow> int \<Rightarrow> nat" where
  "far_decimal p q s =
     (let p' = (if 0 \<le> s then p * 10 ^ nat s else p);
          q' = (if 0 \<le> s then q else q * 10 ^ nat (- s))
      in if 2 * (p' mod q') < q' then Suc (p' div q') else p' div q')"

fun shortest :: "nat \<Rightarrow> nat \<Rightarrow> nat \<Rightarrow> int \<Rightarrow> nat \<Rightarrow> nat \<Rightarrow> nat \<Rightarrow> nat \<Rightarrow> nat \<times> int" where
  "shortest ew fw b k p q n 0 = (near_decimal p q (int n - k), int n - k)"
| "shortest ew fw b k p q n (Suc more) =
     (let s = int n - k in
      if decimal_bits ew fw (near_decimal p q s) (- s) = b then (near_decimal p q s, s)
      else if decimal_bits ew fw (far_decimal p q s) (- s) = b then (far_decimal p q s, s)
      else shortest ew fw b k p q (Suc n) more)"

definition show_float :: "nat \<Rightarrow> nat \<Rightarrow> nat \<Rightarrow> rstr" where
  "show_float ew fw bits =
     (case fval_of ew fw bits of
        F_NaN \<Rightarrow> str ''NaN''
      | F_Inf s \<Rightarrow> (if s then str ''-inf'' else str ''inf'')
      | F_Fin s m e \<Rightarrow>
          (if s then str ''-'' else []) @
          (if m = 0 then str ''0''
           else
             let p = (if 0 \<le> e then m * 2 ^ nat e else m);
                 q = (if 0 \<le> e then 1 else 2 ^ nat (- e));
                 k = dec_exp 400 p q
             in case shortest ew fw (bits mod 2 ^ (ew + fw)) k p q 1 16 of
                  (c, sc) \<Rightarrow> print_decimal c sc))"

definition show_f64 :: "f64 \<Rightarrow> rstr" where
  "show_f64 x = show_float 11 52 (unat x)"

definition show_f32 :: "f32 \<Rightarrow> rstr" where
  "show_f32 x = show_float 8 23 (unat x)"

end
