(* ===== verification/Sql.thy ===== *)
theory Sql
  imports Plan Decimal
begin

text \<open>
  \<open>sql.rs\<close>: from the syntax tree of \<open>sqlparser\<close> to the plan. The parser and the text it prints for an
  expression are parameters (\<open>parse\<close>, \<open>shown\<close>); the tree is a datatype with the constructors the source
  matches on. \<open>bind\<close> resolves names against a schema, \<open>literal\<close> reads values, \<open>plan_query\<close> and
  \<open>plan_insert\<close> check a statement and build its plan.
\<close>

section \<open>The syntax tree\<close>

text \<open>
  The tree of \<open>sqlparser\<close> as far as \<open>sql.rs\<close> looks at it: every node it matches on is a constructor,
  all the others are the \<open>_Other\<close> constructors. A name is the list of its parts, \<open>None\<close> for a part
  that is no identifier.
\<close>

type_synonym object_name = "rstr option list"

datatype (plugins only: code size) sql_value =
    SV_Number rstr
  | SV_SingleQuoted rstr
  | SV_DoubleQuoted rstr
  | SV_Boolean bool
  | SV_Other

datatype (plugins only: code size) sql_unary = SU_Not | SU_Minus | SU_Plus | SU_Other

datatype (plugins only: code size) sql_binary =
    SB_Plus | SB_Minus | SB_Multiply | SB_Divide | SB_Modulo
  | SB_Eq | SB_NotEq | SB_Lt | SB_LtEq | SB_Gt | SB_GtEq
  | SB_And | SB_Or | SB_Other

datatype (plugins only: code size) sql_type =
    ST_TinyInt | ST_SmallInt | ST_Int | ST_Integer | ST_BigInt
  | ST_Float | ST_Real | ST_Double | ST_DoublePrecision | ST_Decimal
  | ST_Boolean | ST_Bool
  | ST_Char | ST_Varchar | ST_Text | ST_String | ST_Nvarchar
  | ST_Custom object_name "rstr list"
  | ST_Other

datatype (plugins only: code size) sql_field = SF_Hour | SF_Minute | SF_Day | SF_Month | SF_Year | SF_Other

datatype (plugins only: code size) 'e sql_arg =
    SG_Expr 'e
  | SG_Named 'e
  | SG_Wildcard
  | SG_Other

text \<open>Arguments of a function: a list with its \<open>DISTINCT\<close>, nothing, or a subquery.\<close>

datatype (plugins only: code size) 'e sql_args =
    SA_List "'e sql_arg list" bool
  | SA_None
  | SA_Subquery

datatype (plugins only: code size) sql_expr =
    SE_Identifier rstr
  | SE_Compound "rstr list"
  | SE_Value sql_value
  | SE_Nested sql_expr
  | SE_Unary sql_unary sql_expr
  | SE_Binary sql_expr sql_binary sql_expr
  | SE_IsNull sql_expr
  | SE_IsNotNull sql_expr
  | SE_Like bool sql_expr sql_expr
  | SE_ILike bool sql_expr sql_expr
  | SE_InList sql_expr "sql_expr list" bool
  | SE_Between sql_expr bool sql_expr sql_expr
  | SE_Cast sql_expr sql_type
  | SE_Extract sql_field sql_expr
  | SE_Substring sql_expr "sql_expr option" "sql_expr option"
  | SE_Case "sql_expr option" "(sql_expr \<times> sql_expr) list" "sql_expr option"
  | SE_Function object_name bool "sql_expr sql_args"
  | SE_Array "sql_expr list"
  | SE_Other

datatype (plugins only: code size) sql_item =
    SI_Wildcard
  | SI_Unnamed sql_expr
  | SI_Alias sql_expr rstr
  | SI_Other

datatype (plugins only: code size) sql_group = SGroup_Exprs "sql_expr list" | SGroup_All

text \<open>\<open>ORDER BY\<close>: the expressions with their direction where one is written.\<close>

datatype (plugins only: code size) sql_order = SOrder_All | SOrder_Exprs "(sql_expr \<times> bool option) list"

datatype (plugins only: code size) sql_limit =
    SL_LimitOffset "sql_expr option" "sql_expr option" bool
  | SL_OffsetComma sql_expr sql_expr

text \<open>A table in \<open>FROM\<close>: its name, \<open>None\<close> for any other source, and whether it has joins.\<close>

record sql_from =
  relation :: "object_name option"
  joins :: bool

record sql_select =
  s_distinct :: bool
  s_from :: "sql_from list"
  s_selection :: "sql_expr option"
  s_projection :: "sql_item list"
  s_group_by :: sql_group
  s_having :: "sql_expr option"

datatype (plugins only: code size) sql_body = SX_Select sql_select | SX_Values "sql_expr list list" | SX_Other

record sql_query =
  q_with :: bool
  q_body :: sql_body
  q_order :: "sql_order option"
  q_limit :: "sql_limit option"

record sql_insert =
  ins_table :: "object_name option"
  ins_columns :: "object_name list"
  ins_source :: "sql_query option"

datatype (plugins only: code size) sql_statement =
    SS_CreateTable object_name "(rstr \<times> sql_type) list" bool bool
  | SS_Drop bool bool "object_name list"
  | SS_Insert sql_insert
  | SS_Query sql_query
  | SS_ShowTables
  | SS_ExplainTable object_name
  | SS_Other

section \<open>Names and types\<close>

definition ident_of :: "object_name \<Rightarrow> rstr res" where
  "ident_of name = ok_or (if name = [] then None else last name) (Sql Bad_name)"

definition map_type :: "sql_type \<Rightarrow> data_type res" where
  "map_type ty =
     (case ty of
        ST_TinyInt \<Rightarrow> Inr DT_I64 | ST_SmallInt \<Rightarrow> Inr DT_I64 | ST_Int \<Rightarrow> Inr DT_I64
      | ST_Integer \<Rightarrow> Inr DT_I64 | ST_BigInt \<Rightarrow> Inr DT_I64
      | ST_Float \<Rightarrow> Inr DT_F64 | ST_Real \<Rightarrow> Inr DT_F64 | ST_Double \<Rightarrow> Inr DT_F64
      | ST_DoublePrecision \<Rightarrow> Inr DT_F64 | ST_Decimal \<Rightarrow> Inr DT_F64
      | ST_Boolean \<Rightarrow> Inr DT_Bool | ST_Bool \<Rightarrow> Inr DT_Bool
      | ST_Char \<Rightarrow> Inr DT_Str | ST_Varchar \<Rightarrow> Inr DT_Str | ST_Text \<Rightarrow> Inr DT_Str
      | ST_String \<Rightarrow> Inr DT_Str | ST_Nvarchar \<Rightarrow> Inr DT_Str
      | ST_Custom name args \<Rightarrow>
          and_then (ident_of name) (\<lambda>n.
          if \<not> eq_ignore_ascii_case n (str ''vector'') then Inl (Sql (Unknown_type n))
          else
            case args of
              [] \<Rightarrow> Inl (Sql Vector_no_dim)
            | a # _ \<Rightarrow>
                (case parse_usize (trim a) of
                   None \<Rightarrow> Inl (Context ''VECTOR dimension'' (Sql (Bad_dim a)))
                 | Some d \<Rightarrow> Inr (DT_Vector d)))
      | ST_Other \<Rightarrow> Inl (Sql (Unsupported ''type'')))"

section \<open>Literals\<close>

fun split_on :: "uchar \<Rightarrow> rstr \<Rightarrow> rstr list" where
  "split_on c [] = [[]]"
| "split_on c (x # xs) =
     (if x = c then [] # split_on c xs
      else case split_on c xs of [] \<Rightarrow> [[x]] | y # ys \<Rightarrow> (x # y) # ys)"

definition chr :: "string \<Rightarrow> uchar" where
  "chr s = hd (str s)"

definition parse_element :: "rstr \<Rightarrow> f32 res" where
  "parse_element p =
     (case parse_f32 (trim p) of
        None \<Rightarrow> Inl (Context ''vector element'' (Sql (Element_text p)))
      | Some x \<Rightarrow> Inr x)"

definition parse_vec_str :: "rstr \<Rightarrow> f32 list res" where
  "parse_vec_str s =
     (let body = trim_end_matches (\<lambda>c. c = chr '']'') (trim_start_matches (\<lambda>c. c = chr ''['') (trim s)) in
      if trim body = [] then Inl (Sql Vector_empty)
      else map_res parse_element (split_on (chr '','') body))"

definition number_literal :: "rstr \<Rightarrow> rvalue res" where
  "number_literal n =
     (case parse_i64 n of
        Some i \<Rightarrow> Inr (V_I64 i)
      | None \<Rightarrow>
          (case parse_f64 n of
             Some d \<Rightarrow> Inr (V_F64 d)
           | None \<Rightarrow> Inl (Context ''number'' (Sql (Bad_number n)))))"

text \<open>A literal where no type is wanted.\<close>

fun literal_any :: "sql_expr \<Rightarrow> rvalue res" where
  "literal_any (SE_Value v) =
     (case v of
        SV_Number n \<Rightarrow> number_literal n
      | SV_SingleQuoted s \<Rightarrow> Inr (V_Str s)
      | SV_DoubleQuoted s \<Rightarrow> Inr (V_Str s)
      | SV_Boolean b \<Rightarrow> Inr (V_Bool b)
      | SV_Other \<Rightarrow> Inl (Sql (Unsupported ''literal'')))"
| "literal_any (SE_Unary SU_Minus e) =
     and_then (literal_any e) (\<lambda>v.
     case v of
       V_I64 i \<Rightarrow> Inr (V_I64 (- i))
     | V_F64 d \<Rightarrow> Inr (V_F64 (f64_neg d))
     | _ \<Rightarrow> Inl (Sql (Minus_type (type_of v))))"
| "literal_any _ = Inl (Sql Not_literal)"

definition vector_element :: "sql_expr \<Rightarrow> f32 res" where
  "vector_element e =
     and_then (literal_any e) (\<lambda>v.
     and_then (ok_or (as_f64 v) (Sql Element_type)) (\<lambda>d. Inr (f32_of_f64 d)))"

definition vector_literal :: "sql_expr \<Rightarrow> f32 list res" where
  "vector_literal e =
     (case e of
        SE_Array elems \<Rightarrow> map_res vector_element elems
      | SE_Value (SV_SingleQuoted s) \<Rightarrow> parse_vec_str s
      | SE_Value (SV_DoubleQuoted s) \<Rightarrow> parse_vec_str s
      | _ \<Rightarrow> Inl (Sql Vector_form))"

definition literal :: "sql_expr \<Rightarrow> data_type option \<Rightarrow> rvalue res" where
  "literal e want =
     (case want of
        Some (DT_Vector dim) \<Rightarrow>
          and_then (vector_literal e) (\<lambda>v.
          if length v \<noteq> unat dim then Inl (Sql (Literal_dim (length v) dim))
          else Inr (V_Vector v))
      | _ \<Rightarrow>
          and_then (literal_any e) (\<lambda>v.
          case (want, v) of
            (Some DT_F64, V_I64 i) \<Rightarrow> Inr (V_F64 (f64_of_i64 i))
          | _ \<Rightarrow> Inr v))"

section \<open>Binding of expressions\<close>

definition map_binop :: "sql_binary \<Rightarrow> bin_op res" where
  "map_binop op =
     (case op of
        SB_Plus \<Rightarrow> Inr B_Add | SB_Minus \<Rightarrow> Inr B_Sub | SB_Multiply \<Rightarrow> Inr B_Mul
      | SB_Divide \<Rightarrow> Inr B_Div | SB_Modulo \<Rightarrow> Inr B_Mod
      | SB_Eq \<Rightarrow> Inr B_Eq | SB_NotEq \<Rightarrow> Inr B_NotEq | SB_Lt \<Rightarrow> Inr B_Lt
      | SB_LtEq \<Rightarrow> Inr B_LtEq | SB_Gt \<Rightarrow> Inr B_Gt | SB_GtEq \<Rightarrow> Inr B_GtEq
      | SB_And \<Rightarrow> Inr B_And | SB_Or \<Rightarrow> Inr B_Or
      | SB_Other \<Rightarrow> Inl (Sql (Unsupported ''operator'')))"

definition bind_column :: "schema \<Rightarrow> rstr \<Rightarrow> expr res" where
  "bind_column s name = and_then (ok_or (index_of s name) (Sql (Unknown_column name))) (\<lambda>i. Inr (E_Col i))"

definition bind_minus :: "expr \<Rightarrow> expr" where
  "bind_minus e =
     (case e of
        E_Lit (V_I64 i) \<Rightarrow> E_Lit (V_I64 (- i))
      | E_Lit (V_F64 d) \<Rightarrow> E_Lit (V_F64 (f64_neg d))
      | _ \<Rightarrow> E_Unary U_Neg e)"

definition bind_field :: "sql_field \<Rightarrow> scalar_fn res" where
  "bind_field fld =
     (case fld of
        SF_Hour \<Rightarrow> Inr S_ExtractHour | SF_Minute \<Rightarrow> Inr S_ExtractMinute | SF_Day \<Rightarrow> Inr S_ExtractDay
      | SF_Month \<Rightarrow> Inr S_ExtractMonth | SF_Year \<Rightarrow> Inr S_ExtractYear
      | SF_Other \<Rightarrow> Inl (Sql (Unsupported ''EXTRACT'')))"

definition bind_pattern :: "sql_expr \<Rightarrow> rstr res" where
  "bind_pattern p =
     and_then (literal_any p) (\<lambda>v. case v of V_Str s \<Rightarrow> Inr s | _ \<Rightarrow> Inl (Sql Pattern_type))"

text \<open>The arguments of a function that are expressions, and whether one of them is \<open>*\<close>.\<close>

definition arg_expr :: "'e sql_arg \<Rightarrow> 'e list" where
  "arg_expr a = (case a of SG_Expr e \<Rightarrow> [e] | SG_Named e \<Rightarrow> [e] | _ \<Rightarrow> [])"

definition plain_args :: "'e sql_args \<Rightarrow> 'e list" where
  "plain_args as = (case as of SA_List l _ \<Rightarrow> concat (map arg_expr l) | _ \<Rightarrow> [])"

definition has_wildcard :: "'e sql_args \<Rightarrow> bool" where
  "has_wildcard as = (case as of SA_List l _ \<Rightarrow> list_ex (\<lambda>a. case a of SG_Wildcard \<Rightarrow> True | _ \<Rightarrow> False) l | _ \<Rightarrow> False)"

definition is_distinct :: "'e sql_args \<Rightarrow> bool" where
  "is_distinct as = (case as of SA_List _ d \<Rightarrow> d | _ \<Rightarrow> False)"

definition is_subquery :: "'e sql_args \<Rightarrow> bool" where
  "is_subquery as = (case as of SA_Subquery \<Rightarrow> True | _ \<Rightarrow> False)"

definition agg_from_name :: "rstr \<Rightarrow> agg_func option" where
  "agg_from_name n =
     map_of
       [(str ''count'', A_Count), (str ''sum'', A_Sum), (str ''avg'', A_Avg), (str ''mean'', A_Avg),
        (str ''min'', A_Min), (str ''max'', A_Max), (str ''uniq'', A_Count),
        (str ''count_distinct'', A_Count)] n"

definition arity_ok :: "scalar_fn \<Rightarrow> nat \<Rightarrow> bool" where
  "arity_ok fn n =
     (case fn of
        S_Substring \<Rightarrow> 2 \<le> n \<and> n \<le> 3
      | S_If \<Rightarrow> n = 3
      | S_Coalesce \<Rightarrow> 0 < n
      | S_Round \<Rightarrow> 1 \<le> n \<and> n \<le> 2
      | S_DateTrunc \<Rightarrow> n = 2
      | _ \<Rightarrow> n = 1)"

text \<open>
  What \<open>bind_function\<close> does with the arguments once they are bound; \<open>bound\<close> is the result of binding
  them, in order, looked at only where the source binds.
\<close>

definition bind_agg :: "rstr \<Rightarrow> agg_func \<Rightarrow> bool \<Rightarrow> bool \<Rightarrow> expr res list \<Rightarrow> expr res" where
  "bind_agg name fn distinct' wild bound =
     (if wild \<or> bound = [] then
        if fn \<noteq> A_Count then Inl (Sql (Star_argument name)) else Inr (E_Agg fn None False)
      else
        case bound of
          [b] \<Rightarrow> and_then b (\<lambda>e. Inr (E_Agg fn (Some e) distinct'))
        | _ \<Rightarrow> Inl (Sql (Agg_arity name)))"

definition bind_metric :: "schema \<Rightarrow> rstr \<Rightarrow> metric \<Rightarrow> sql_expr list \<Rightarrow> expr res list \<Rightarrow> expr res" where
  "bind_metric s name m plain bound =
     (case (bound, plain) of
        ([b, _], [_, q]) \<Rightarrow>
          and_then b (\<lambda>e.
          case e of
            E_Col col \<Rightarrow>
              and_then (index_at (sfields s) col) (\<lambda>f.
              case fty f of
                DT_Vector dim \<Rightarrow>
                  and_then (vector_literal q) (\<lambda>query.
                  if length query \<noteq> unat dim then Inl (Sql (Metric_dim (length query) dim))
                  else Inr (E_Distance m col query))
              | ty \<Rightarrow> Inl (Sql (Metric_type (fname f) ty)))
          | _ \<Rightarrow> Inl (Sql (Metric_column name)))
      | _ \<Rightarrow> Inl (Sql (Metric_arity name)))"

definition bind_scalar :: "rstr \<Rightarrow> rstr \<Rightarrow> expr res list \<Rightarrow> expr res" where
  "bind_scalar name lname bound =
     and_then (ok_or (scalar_from_name lname) (Sql (Unknown_function name))) (\<lambda>fn.
     and_then (map_res (\<lambda>b. b) bound) (\<lambda>args.
     if \<not> arity_ok fn (length args) then Inl (Sql (Function_arity name (length args)))
     else Inr (E_Func fn args)))"

definition bind_function ::
  "schema \<Rightarrow> object_name \<Rightarrow> bool \<Rightarrow> sql_expr sql_args \<Rightarrow> expr res list \<Rightarrow> expr res" where
  "bind_function s fname' over args bound =
     and_then (ident_of fname') (\<lambda>name.
     (let lname = to_ascii_lowercase name in
      if over then Inl (Sql (Unsupported ''window function''))
      else if is_subquery args then Inl (Sql (Unsupported ''subquery argument''))
      else
        case agg_from_name lname of
          Some fn \<Rightarrow>
            bind_agg name fn (is_distinct args \<or> lname = str ''uniq'' \<or> lname = str ''count_distinct'')
              (has_wildcard args) bound
        | None \<Rightarrow>
            (case metric_from_name lname of
               Some m \<Rightarrow> bind_metric s name m (plain_args args) bound
             | None \<Rightarrow> bind_scalar name lname bound)))"


definition opt_res :: "('a \<Rightarrow> 'b res) \<Rightarrow> 'a option \<Rightarrow> 'b option res" where
  "opt_res f x = (case x of None \<Rightarrow> Inr None | Some a \<Rightarrow> and_then (f a) (\<lambda>b. Inr (Some b)))"

lemma opt_res_cong [fundef_cong]: "x = y \<Longrightarrow> (\<And>a. y = Some a \<Longrightarrow> f a = g a) \<Longrightarrow> opt_res f x = opt_res g y"
  by (auto simp: opt_res_def split: option.split)

lemma opt_res_Inr [res_simps]:
  "opt_res f x = Inr y \<longleftrightarrow> (case x of None \<Rightarrow> y = None | Some a \<Rightarrow> (\<exists>b. f a = Inr b \<and> y = Some b))"
  by (auto simp: opt_res_def res_simps split: option.split)

text \<open>The branches of a \<open>CASE\<close>, last one first, over what \<open>ELSE\<close> gave.\<close>

definition bind_when :: "('e \<Rightarrow> expr res) \<Rightarrow> 'e option \<Rightarrow> 'e \<times> 'e \<Rightarrow> expr \<Rightarrow> expr res" where
  "bind_when b operand w out =
     and_then (case operand of
        Some op \<Rightarrow> and_then (b op) (\<lambda>l. and_then (b (fst w)) (\<lambda>r. Inr (E_Binary B_Eq l r)))
      | None \<Rightarrow> b (fst w)) (\<lambda>cond.
     and_then (b (snd w)) (\<lambda>res.
     Inr (E_Func S_If [cond, res, out])))"

fun bind_whens :: "('e \<Rightarrow> expr res) \<Rightarrow> 'e option \<Rightarrow> ('e \<times> 'e) list \<Rightarrow> expr \<Rightarrow> expr res" where
  "bind_whens b operand [] out = Inr out"
| "bind_whens b operand (w # ws) out =
     and_then (bind_when b operand w out) (bind_whens b operand ws)"

lemma bind_whens_cong [fundef_cong]:
  assumes "operand = operand'" "ws = ws'" "out = out'"
    and "\<And>op. operand' = Some op \<Longrightarrow> b op = b' op"
    and "\<And>w. w \<in> set ws' \<Longrightarrow> b (fst w) = b' (fst w)" "\<And>w. w \<in> set ws' \<Longrightarrow> b (snd w) = b' (snd w)"
  shows "bind_whens b operand ws out = bind_whens b' operand' ws' out'"
proof -
  have "bind_whens b operand' ws' out = bind_whens b' operand' ws' out"
    using assms(5,6)
  proof (induction ws' arbitrary: out)
    case (Cons w ws)
    have "bind_when b operand' w out = bind_when b' operand' w out"
      using assms(4) Cons.prems by (auto simp: bind_when_def split: option.split)
    moreover have "bind_whens b operand' ws = bind_whens b' operand' ws"
      by (rule ext) (use Cons in auto)
    ultimately show ?case by simp
  qed simp
  with assms(1-3) show ?thesis by simp
qed

lemma map_list_cong: "xs = ys \<Longrightarrow> (\<And>x. x \<in> set ys \<Longrightarrow> f x = g x) \<Longrightarrow> map f xs = map g ys"
  by auto

lemma size_plain_args: "e \<in> set (plain_args args) \<Longrightarrow> size e < Suc (size_sql_args size args)"
proof (cases args)
  case (SA_List l d)
  assume "e \<in> set (plain_args args)"
  with SA_List obtain a where a: "a \<in> set l" "e \<in> set (arg_expr a)" by (auto simp: plain_args_def)
  have "size e < size_sql_arg size a" using a(2) by (cases a) (auto simp: arg_expr_def)
  also have "size_sql_arg size a \<le> size_list (size_sql_arg size) l" by (rule size_list_estimation' [OF a(1)]) simp
  finally show ?thesis using SA_List by simp
qed (auto simp: plain_args_def)

lemma size_pair_list:
  "w \<in> set ws \<Longrightarrow> size (fst w) < size_list (size_prod size size) ws \<and> size (snd w) < size_list (size_prod size size) ws"
  by (induction ws) (auto simp: size_prod_def split: prod.splits)

function (sequential) bind :: "schema \<Rightarrow> sql_expr \<Rightarrow> expr res" where
  "bind s (SE_Identifier n) = bind_column s n"
| "bind s (SE_Compound parts) =
     (if parts = [] then Inl (Sql Bad_name) else bind_column s (last parts))"
| "bind s (SE_Value v) = and_then (literal_any (SE_Value v)) (\<lambda>x. Inr (E_Lit x))"
| "bind s (SE_Nested e) = bind s e"
| "bind s (SE_Unary op e) =
     (case op of
        SU_Not \<Rightarrow> and_then (bind s e) (\<lambda>x. Inr (E_Unary U_Not x))
      | SU_Minus \<Rightarrow> and_then (bind s e) (\<lambda>x. Inr (bind_minus x))
      | SU_Plus \<Rightarrow> bind s e
      | SU_Other \<Rightarrow> Inl (Sql (Unsupported ''unary operator'')))"
| "bind s (SE_Binary l op r) =
     and_then (map_binop op) (\<lambda>o'.
     and_then (bind s l) (\<lambda>x.
     and_then (bind s r) (\<lambda>y. Inr (E_Binary o' x y))))"
| "bind s (SE_IsNull e) = Inl (Sql Null_test)"
| "bind s (SE_IsNotNull e) = Inl (Sql Null_test)"
| "bind s (SE_Like negated e p) =
     and_then (bind_pattern p) (\<lambda>pat.
     and_then (bind s e) (\<lambda>x. Inr (E_Like x pat negated False)))"
| "bind s (SE_ILike negated e p) =
     and_then (bind_pattern p) (\<lambda>pat.
     and_then (bind s e) (\<lambda>x. Inr (E_Like x pat negated True)))"
| "bind s (SE_InList e vs negated) =
     and_then (bind s e) (\<lambda>x.
     and_then (map_res literal_any vs) (\<lambda>lits. Inr (E_InList x lits negated)))"
| "bind s (SE_Between e negated lo hi) =
     and_then (bind s e) (\<lambda>x.
     and_then (bind s lo) (\<lambda>l.
     and_then (bind s hi) (\<lambda>h. Inr (E_Between x l h negated))))"
| "bind s (SE_Cast e ty) =
     and_then (bind s e) (\<lambda>x. and_then (map_type ty) (\<lambda>t. Inr (E_Cast x t)))"
| "bind s (SE_Extract fld e) =
     and_then (bind_field fld) (\<lambda>fn. and_then (bind s e) (\<lambda>x. Inr (E_Func fn [x])))"
| "bind s (SE_Substring e from for') =
     and_then (bind s e) (\<lambda>x.
     and_then (opt_res (bind s) from) (\<lambda>f.
     and_then (opt_res (bind s) for') (\<lambda>t.
     Inr (E_Func S_Substring
       ([x, case f of None \<Rightarrow> lit_i 1 | Some y \<Rightarrow> y] @ (case t of None \<Rightarrow> [] | Some y \<Rightarrow> [y]))))))"
| "bind s (SE_Case operand whens otherwise) =
     and_then (opt_res (bind s) otherwise) (\<lambda>out.
     bind_whens (bind s) operand (rev whens) (case out of None \<Rightarrow> E_Lit (V_Str []) | Some e \<Rightarrow> e))"
| "bind s (SE_Function n over args) =
     bind_function s n over args (map (bind s) (plain_args args))"
| "bind s _ = Inl (Sql (Unsupported ''expression''))"
  by pat_completeness auto
termination
proof (relation "measure (\<lambda>(s, e). size e)", goal_cases)
  case (21 s operand whens otherwise out w)
  then show ?case using size_pair_list [of w whens] by auto
next
  case (22 s operand whens otherwise out w)
  then show ?case using size_pair_list [of w whens] by auto
next
  case (23 s n over args e)
  then show ?case using size_plain_args [of e args] by auto
qed auto


section \<open>Queries\<close>

text \<open>\<open>shown\<close> is the text of an expression, which \<open>sqlparser\<close> prints.\<close>

definition item_text :: "(sql_expr \<Rightarrow> rstr) \<Rightarrow> sql_item \<Rightarrow> rstr option" where
  "item_text shown item =
     (case item of
        SI_Unnamed e \<Rightarrow> Some (shown e)
      | SI_Alias e _ \<Rightarrow> Some (shown e)
      | _ \<Rightarrow> None)"

text \<open>The loop over \<open>raw_projection.iter().zip(bound)\<close>.\<close>

definition same_text :: "(sql_expr \<Rightarrow> rstr) \<Rightarrow> rstr \<Rightarrow> sql_item \<times> projection \<Rightarrow> bool" where
  "same_text shown t p =
     (case item_text shown (fst p) of None \<Rightarrow> False | Some raw \<Rightarrow> eq_ignore_ascii_case raw t)"

definition bind_by_text ::
  "(sql_expr \<Rightarrow> rstr) \<Rightarrow> sql_expr \<Rightarrow> schema \<Rightarrow> sql_item list \<Rightarrow> projection list \<Rightarrow> expr res" where
  "bind_by_text shown e s raw bound =
     (case find (same_text shown (shown e)) (zip raw bound) of
        Some (_, p) \<Rightarrow> Inr (proj_expr p)
      | None \<Rightarrow> bind s e)"

definition bind_ordinal :: "rstr \<Rightarrow> projection list \<Rightarrow> expr res" where
  "bind_ordinal n bound =
     (case parse_usize n of
        None \<Rightarrow> Inl (Context ''column ordinal'' (Sql (Bad_ordinal n)))
      | Some idx \<Rightarrow>
          if idx = 0 \<or> length bound < unat idx then Inl (Sql (Ordinal_range (unat idx) (length bound)))
          else Inr (proj_expr (bound ! (unat idx - 1))))"

definition bind_output_ref ::
  "(sql_expr \<Rightarrow> rstr) \<Rightarrow> schema \<Rightarrow> sql_item list \<Rightarrow> projection list \<Rightarrow> sql_expr \<Rightarrow> expr res" where
  "bind_output_ref shown s raw bound e =
     (case e of
        SE_Value (SV_Number n) \<Rightarrow> bind_ordinal n bound
      | SE_Identifier name \<Rightarrow>
          (case find (\<lambda>p. eq_ignore_ascii_case (proj_alias p) name) bound of
             Some p \<Rightarrow> if index_of s name = None then Inr (proj_expr p) else bind_by_text shown e s raw bound
           | None \<Rightarrow> bind_by_text shown e s raw bound)
      | _ \<Rightarrow> bind_by_text shown e s raw bound)"

definition limit_value :: "sql_expr \<Rightarrow> nat res" where
  "limit_value e =
     and_then (literal_any e) (\<lambda>v.
     case v of
       V_I64 i \<Rightarrow> if 0 \<le> sint i then Inr (unat i) else Inl (Sql Limit_value)
     | _ \<Rightarrow> Inl (Sql Limit_value))"

definition limit_offset :: "sql_limit option \<Rightarrow> (nat option \<times> nat) res" where
  "limit_offset clause =
     (case clause of
        None \<Rightarrow> Inr (None, 0)
      | Some (SL_LimitOffset lim off by) \<Rightarrow>
          if by then Inl (Sql (Unsupported ''LIMIT BY''))
          else
            and_then (opt_res limit_value lim) (\<lambda>l.
            and_then (opt_res limit_value off) (\<lambda>o'.
            Inr (l, case o' of None \<Rightarrow> 0 | Some n \<Rightarrow> n)))
      | Some (SL_OffsetComma off lim) \<Rightarrow>
          and_then (limit_value lim) (\<lambda>l. and_then (limit_value off) (\<lambda>o'. Inr (Some l, o'))))"

definition bind_item :: "(sql_expr \<Rightarrow> rstr) \<Rightarrow> schema \<Rightarrow> sql_item \<Rightarrow> projection list res" where
  "bind_item shown s item =
     (case item of
        SI_Wildcard \<Rightarrow>
          Inr (map (\<lambda>(i, f). \<lparr>proj_expr = E_Col i, proj_alias = fname f\<rparr>) (enumerate 0 (sfields s)))
      | SI_Unnamed e \<Rightarrow> and_then (bind s e) (\<lambda>x. Inr [\<lparr>proj_expr = x, proj_alias = shown e\<rparr>])
      | SI_Alias e a \<Rightarrow> and_then (bind s e) (\<lambda>x. Inr [\<lparr>proj_expr = x, proj_alias = a\<rparr>])
      | SI_Other \<Rightarrow> Inl (Sql (Unsupported ''SELECT item'')))"

definition bind_projection :: "(sql_expr \<Rightarrow> rstr) \<Rightarrow> schema \<Rightarrow> sql_item list \<Rightarrow> projection list res" where
  "bind_projection shown s items =
     and_then (map_res (bind_item shown s) items) (\<lambda>ps.
     if concat ps = [] then Inl (Sql Empty_select) else Inr (concat ps))"

definition bind_from :: "(rstr \<Rightarrow> schema option) \<Rightarrow> sql_from list \<Rightarrow> (rstr option \<times> schema) res" where
  "bind_from schemas froms =
     (case froms of
        [] \<Rightarrow> Inr (None, \<lparr>sfields = []\<rparr>)
      | f # _ \<Rightarrow>
          (case relation f of
             None \<Rightarrow> Inl (Sql (Unsupported ''source''))
           | Some n \<Rightarrow>
               and_then (ident_of n) (\<lambda>name.
               and_then (ok_or (schemas name) (Table_missing name)) (\<lambda>s. Inr (Some name, s)))))"

definition bind_groups ::
  "(sql_expr \<Rightarrow> rstr) \<Rightarrow> schema \<Rightarrow> sql_item list \<Rightarrow> projection list \<Rightarrow> sql_group \<Rightarrow> expr list res" where
  "bind_groups shown s raw bound g =
     (case g of
        SGroup_All \<Rightarrow> Inl (Sql (Unsupported ''GROUP BY ALL''))
      | SGroup_Exprs es \<Rightarrow>
          with_context ''GROUP BY'' (map_res (bind_output_ref shown s raw bound) es))"

definition bind_key ::
  "(sql_expr \<Rightarrow> rstr) \<Rightarrow> schema \<Rightarrow> sql_item list \<Rightarrow> projection list \<Rightarrow> sql_expr \<times> bool option \<Rightarrow> order_key res" where
  "bind_key shown s raw bound k =
     and_then (bind_output_ref shown s raw bound (fst k)) (\<lambda>e.
     Inr \<lparr>key_expr = e, asc = (case snd k of None \<Rightarrow> True | Some b \<Rightarrow> b)\<rparr>)"

definition bind_order ::
  "(sql_expr \<Rightarrow> rstr) \<Rightarrow> schema \<Rightarrow> sql_item list \<Rightarrow> projection list \<Rightarrow> sql_order option \<Rightarrow> order_key list res" where
  "bind_order shown s raw bound o' =
     (case o' of
        None \<Rightarrow> Inr []
      | Some SOrder_All \<Rightarrow> Inl (Sql (Unsupported ''ORDER BY ALL''))
      | Some (SOrder_Exprs ks) \<Rightarrow>
          with_context ''ORDER BY'' (map_res (bind_key shown s raw bound) ks))"

definition plan_query ::
  "(sql_expr \<Rightarrow> rstr) \<Rightarrow> (rstr \<Rightarrow> schema option) \<Rightarrow> sql_query \<Rightarrow> select res" where
  "plan_query shown schemas q =
     (if q_with q then Inl (Sql (Unsupported ''WITH''))
      else
        case q_body q of
          SX_Select sel \<Rightarrow>
            if s_distinct sel then Inl (Sql (Unsupported ''SELECT DISTINCT''))
            else if 1 < length (s_from sel) \<or> (s_from sel \<noteq> [] \<and> joins (hd (s_from sel)))
            then Inl (Sql (Unsupported ''JOIN''))
            else
              and_then (bind_from schemas (s_from sel)) (\<lambda>(tab, s).
              and_then (with_context ''WHERE'' (opt_res (bind s) (s_selection sel))) (\<lambda>flt.
              and_then (bind_projection shown s (s_projection sel)) (\<lambda>ps.
              and_then (bind_groups shown s (s_projection sel) ps (s_group_by sel)) (\<lambda>gs.
              if list_ex contains_agg gs then Inl (Sql Agg_in_group)
              else
                and_then (with_context ''HAVING'' (opt_res (bind s) (s_having sel))) (\<lambda>hav.
                if hav \<noteq> None \<and> gs = [] \<and> \<not> list_ex (\<lambda>p. contains_agg (proj_expr p)) ps
                then Inl (Sql Having_alone)
                else
                  and_then (bind_order shown s (s_projection sel) ps (q_order q)) (\<lambda>ks.
                  and_then (limit_offset (q_limit q)) (\<lambda>(lim, off).
                  Inr \<lparr>sel_table = tab, sel_filter = flt, group_by = gs, having = hav,
                       projections = ps, order_by = ks, limit = lim, offset = off\<rparr>)))))))
        | _ \<Rightarrow> Inl (Sql (Unsupported ''not a simple SELECT'')))"

section \<open>Statements\<close>

definition insert_types :: "schema \<Rightarrow> rstr \<Rightarrow> rstr list option \<Rightarrow> data_type list res" where
  "insert_types s tab cols =
     (case cols of
        None \<Rightarrow> Inr (map fty (sfields s))
      | Some names \<Rightarrow>
          map_res (\<lambda>n. and_then (ok_or (field_of s n) (Sql (Insert_no_column tab n))) (\<lambda>f. Inr (fty f))) names)"

definition insert_row :: "data_type list \<Rightarrow> sql_expr list \<Rightarrow> rvalue list res" where
  "insert_row tys row =
     (if length row \<noteq> length tys then Inl (Sql (Values_arity (length row) (length tys)))
      else map_res (\<lambda>(e, ty). literal e (Some ty)) (zip row tys))"

definition plan_insert :: "(rstr \<Rightarrow> schema option) \<Rightarrow> sql_insert \<Rightarrow> statement res" where
  "plan_insert schemas ins =
     (case ins_table ins of
        None \<Rightarrow> Inl (Sql (Unsupported ''INSERT target''))
      | Some n \<Rightarrow>
          and_then (ident_of n) (\<lambda>tab.
          and_then (ok_or (schemas tab) (Table_missing tab)) (\<lambda>s.
          and_then (if ins_columns ins = [] then Inr None
                    else and_then (map_res ident_of (ins_columns ins)) (\<lambda>ns. Inr (Some ns))) (\<lambda>cols.
          and_then (insert_types s tab cols) (\<lambda>tys.
          and_then (ok_or (ins_source ins) (Sql (Unsupported ''INSERT without VALUES''))) (\<lambda>src.
          case q_body src of
            SX_Values rows \<Rightarrow>
              and_then (map_res (insert_row tys) rows) (\<lambda>vs. Inr (St_Insert tab cols vs))
          | _ \<Rightarrow> Inl (Sql (Unsupported ''INSERT ... SELECT''))))))))"

definition plan_statement ::
  "(sql_expr \<Rightarrow> rstr) \<Rightarrow> (rstr \<Rightarrow> schema option) \<Rightarrow> sql_statement \<Rightarrow> statement res" where
  "plan_statement shown schemas st =
     (case st of
        SS_CreateTable name cols ine has_query \<Rightarrow>
          if has_query then Inl (Sql (Unsupported ''CREATE TABLE AS''))
          else
            and_then (map_res (\<lambda>(n, ty). and_then (map_type ty) (\<lambda>t. Inr \<lparr>fname = n, fty = t\<rparr>)) cols) (\<lambda>fs.
            and_then (ident_of name) (\<lambda>n. Inr (St_CreateTable n \<lparr>sfields = fs\<rparr> ine)))
      | SS_Drop is_table if_exists names \<Rightarrow>
          if \<not> is_table then Inl (Sql (Unsupported ''DROP''))
          else
            (case names of
               [] \<Rightarrow> Inl (Sql Bad_name)
             | n # _ \<Rightarrow> and_then (ident_of n) (\<lambda>name. Inr (St_DropTable name if_exists)))
      | SS_Insert ins \<Rightarrow> plan_insert schemas ins
      | SS_Query q \<Rightarrow> and_then (plan_query shown schemas q) (\<lambda>p. Inr (St_Select p))
      | SS_ShowTables \<Rightarrow> Inr St_ShowTables
      | SS_ExplainTable n \<Rightarrow> and_then (ident_of n) (\<lambda>name. Inr (St_Describe name))
      | SS_Other \<Rightarrow> Inl (Sql (Unsupported ''statement'')))"

text \<open>\<open>parse\<close> is the parser of \<open>sqlparser\<close>; \<open>None\<close> is its error.\<close>

definition plan ::
  "(rstr \<Rightarrow> sql_statement list option) \<Rightarrow> (sql_expr \<Rightarrow> rstr) \<Rightarrow> (rstr \<Rightarrow> schema option) \<Rightarrow> rstr \<Rightarrow>
   statement res" where
  "plan parse shown schemas text =
     (case parse text of
        None \<Rightarrow> Inl (Context ''parsing SQL'' (Sql Parser))
      | Some [] \<Rightarrow> Inl (Sql No_statement)
      | Some [st] \<Rightarrow> plan_statement shown schemas st
      | Some sts \<Rightarrow> Inl (Sql (Many_statements (length sts))))"

end
