(* ===== verification/Like.thy ===== *)
theory Like
  imports Text
begin

text \<open>
  \<open>like.rs\<close>: the two matchers of \<open>LIKE\<close>, a declarative meaning of patterns, and the proof that
  they decide it. The pieces of \<open>Chunks\<close> are searched for in the characters of the string: the
  byte searches of \<open>str\<close> find whole characters only, because no UTF-8 sequence is part of
  another.
\<close>

section \<open>Patterns\<close>

definition percent :: uchar where
  "percent = uchar_of 37"

definition underscore :: uchar where
  "underscore = uchar_of 95"

datatype pattern =
    Chunks "rstr list" bool bool
  | Chars rstr

text \<open>\<open>str::split\<close> at one character; \<open>strip_prefix\<close>, \<open>ends_with\<close> and \<open>find\<close> of \<open>str\<close>.\<close>

fun split_on :: "uchar \<Rightarrow> rstr \<Rightarrow> rstr list" where
  "split_on c [] = [[]]"
| "split_on c (x # xs) =
     (if x = c then [] # split_on c xs
      else case split_on c xs of [] \<Rightarrow> [[x]] | p # ps \<Rightarrow> (x # p) # ps)"

fun strip_prefix :: "rstr \<Rightarrow> rstr \<Rightarrow> rstr option" where
  "strip_prefix s [] = Some s"
| "strip_prefix [] (p # ps) = None"
| "strip_prefix (x # xs) (p # ps) = (if x = p then strip_prefix xs ps else None)"

definition ends_with :: "rstr \<Rightarrow> rstr \<Rightarrow> bool" where
  "ends_with s t \<longleftrightarrow> length t \<le> length s \<and> drop (length s - length t) s = t"

fun find_str :: "rstr \<Rightarrow> rstr \<Rightarrow> nat option" where
  "find_str t [] = (if t = [] then Some 0 else None)"
| "find_str t (x # xs) =
     (if strip_prefix (x # xs) t \<noteq> None then Some 0 else map_option Suc (find_str t xs))"

definition compile :: "rstr \<Rightarrow> pattern" where
  "compile pat =
     (if underscore \<in> set pat then Chars pat
      else Chunks (filter (\<lambda>s. s \<noteq> []) (split_on percent pat))
             (\<not> (pat \<noteq> [] \<and> hd pat = percent)) (\<not> (pat \<noteq> [] \<and> last pat = percent)))"

section \<open>Matching\<close>

text \<open>The loop over the literal pieces; \<open>i\<close> is the index of the piece at the head.\<close>

fun match_parts :: "bool \<Rightarrow> bool \<Rightarrow> nat \<Rightarrow> rstr list \<Rightarrow> rstr \<Rightarrow> bool" where
  "match_parts a_start a_end i [] rest \<longleftrightarrow> \<not> a_end \<or> rest = []"
| "match_parts a_start a_end i (part # parts) rest \<longleftrightarrow>
     (if i = 0 \<and> a_start then
        (case strip_prefix rest part of
           None \<Rightarrow> False
         | Some r \<Rightarrow> match_parts a_start a_end (i + 1) parts r)
      else if parts = [] \<and> a_end then ends_with rest part
      else
        (case find_str part rest of
           None \<Rightarrow> False
         | Some p \<Rightarrow> match_parts a_start a_end (i + 1) parts (drop (p + length part) rest)))"

text \<open>
  The loop of \<open>match_chars\<close> with its four variables; \<open>usize::MAX\<close> in \<open>star_pi\<close> is \<open>None\<close>.
\<close>

partial_function (option) match_loop ::
  "rstr \<Rightarrow> rstr \<Rightarrow> nat \<Rightarrow> nat \<Rightarrow> nat option \<Rightarrow> nat \<Rightarrow> bool option" where
  [code]: "match_loop s p si pi star_pi star_si =
     (if si < length s then
        if pi < length p \<and> (p ! pi = underscore \<or> p ! pi = s ! si)
        then match_loop s p (si + 1) (pi + 1) star_pi star_si
        else if pi < length p \<and> p ! pi = percent
        then match_loop s p si (pi + 1) (Some pi) si
        else
          (case star_pi of
             None \<Rightarrow> Some False
           | Some sp \<Rightarrow> match_loop s p (star_si + 1) (sp + 1) star_pi (star_si + 1))
      else Some (list_all (\<lambda>c. c = percent) (drop pi p)))"

definition match_chars :: "rstr \<Rightarrow> rstr \<Rightarrow> bool option" where
  "match_chars s p = match_loop s p 0 0 None 0"

definition matches :: "pattern \<Rightarrow> rstr \<Rightarrow> bool option" where
  "matches pat s =
     (case pat of
        Chunks parts a_start a_end \<Rightarrow>
          Some (if parts = [] then \<not> (a_start \<and> a_end) \<or> s = []
                else match_parts a_start a_end 0 parts s)
      | Chars p \<Rightarrow> match_chars s p)"

section \<open>What LIKE means\<close>

fun like :: "rstr \<Rightarrow> rstr \<Rightarrow> bool" where
  "like [] s \<longleftrightarrow> s = []"
| "like (c # p) s \<longleftrightarrow>
     (if c = percent then \<exists>k \<in> {0 .. length s}. like p (drop k s)
      else s \<noteq> [] \<and> (c = underscore \<or> c = hd s) \<and> like p (tl s))"

lemma percent_underscore [simp]: "percent \<noteq> underscore" "underscore \<noteq> percent"
  by code_simp+

lemma like_percent: "like (percent # p) s \<longleftrightarrow> (\<exists>k \<le> length s. like p (drop k s))"
  by auto

declare like.simps(2) [simp del]

lemma like_char: "c \<noteq> percent \<Longrightarrow> like (c # p) s \<longleftrightarrow> s \<noteq> [] \<and> (c = underscore \<or> c = hd s) \<and> like p (tl s)"
  by (simp add: like.simps(2))

lemma like_star_mono:
  assumes "like (percent # p) (drop j t)" and "i \<le> j"
  shows "like (percent # p) (drop i t)"
proof (cases "j \<le> length t")
  case True
  from assms(1) obtain k where "k \<le> length (drop j t)" "like p (drop (k + j) t)"
    by (auto simp: like_percent)
  with True assms(2) show ?thesis
    by (auto simp: like_percent intro!: exI [of _ "k + j - i"])
next
  case False
  with assms(1) have "like p []" by (simp add: like_percent)
  then show ?thesis by (auto simp: like_percent intro!: exI [of _ "length t - i"])
qed

lemma like_star_star: "like (percent # percent # p) s \<longleftrightarrow> like (percent # p) s"
proof
  assume "like (percent # percent # p) s"
  then obtain k where "like (percent # p) (drop k s)"
    unfolding like_percent [of "percent # p"] by blast
  with like_star_mono [of p k s 0] show "like (percent # p) s" by simp
next
  assume "like (percent # p) s"
  then show "like (percent # percent # p) s"
    unfolding like_percent [of "percent # p"] by (metis drop_0 le0)
qed

lemma like_segment:
  "percent \<notin> set g \<Longrightarrow> like (g @ p) t \<Longrightarrow> length g \<le> length t \<and> like p (drop (length g) t)"
proof (induction g arbitrary: t)
  case (Cons c g)
  then show ?case by (cases t) (auto simp: like_char)
qed simp

lemma like_nothing: "like p [] \<longleftrightarrow> list_all (\<lambda>c. c = percent) p"
  by (induction p) (auto simp: like_percent like.simps(2))

section \<open>The character loop\<close>

text \<open>
  The invariant: between the last star and the current position of the pattern there is no
  other star, and both positions have moved the same way since.
\<close>

definition loop_inv :: "rstr \<Rightarrow> rstr \<Rightarrow> nat \<Rightarrow> nat \<Rightarrow> nat option \<Rightarrow> nat \<Rightarrow> bool" where
  "loop_inv s p si pi star_pi star_si \<longleftrightarrow>
     star_si \<le> si \<and> si \<le> length s \<and> pi \<le> length p \<and>
     (case star_pi of None \<Rightarrow> star_si = 0
      | Some sp \<Rightarrow> sp < pi \<and> si - star_si = pi - (sp + 1) \<and>
          percent \<notin> set (take (pi - (sp + 1)) (drop (sp + 1) p)))"

definition loop_goal :: "rstr \<Rightarrow> rstr \<Rightarrow> nat \<Rightarrow> nat \<Rightarrow> nat option \<Rightarrow> nat \<Rightarrow> bool" where
  "loop_goal s p si pi star_pi star_si \<longleftrightarrow>
     like (drop pi p) (drop si s) \<or>
     (case star_pi of None \<Rightarrow> False
      | Some sp \<Rightarrow> \<exists>k. star_si < k \<and> k \<le> length s \<and> like (drop (sp + 1) p) (drop k s))"


text \<open>One turn of the loop keeps the goal.\<close>

lemma goal_match:
  assumes "loop_inv s p si pi star_pi star_si" and "si < length s" and "pi < length p"
    and "p ! pi = underscore \<or> p ! pi = s ! si" and "p ! pi \<noteq> percent"
  shows "loop_inv s p (si + 1) (pi + 1) star_pi star_si"
    and "loop_goal s p (si + 1) (pi + 1) star_pi star_si = loop_goal s p si pi star_pi star_si"
proof -
  have p: "drop pi p = p ! pi # drop (pi + 1) p" using assms(3) by (simp add: Cons_nth_drop_Suc)
  have s: "drop si s = s ! si # drop (si + 1) s" using assms(2) by (simp add: Cons_nth_drop_Suc)
  show "loop_inv s p (si + 1) (pi + 1) star_pi star_si"
  proof (cases star_pi)
    case (Some sp)
    have sp: "sp < pi" using assms(1) Some by (simp add: loop_inv_def)
    then have "take (pi + 1 - (sp + 1)) (drop (sp + 1) p) =
        take (pi - (sp + 1)) (drop (sp + 1) p) @ [p ! pi]"
      using assms(3) take_Suc_conv_app_nth [of "pi - (sp + 1)" "drop (sp + 1) p"]
      by (simp add: Suc_diff_Suc)
    then have "percent \<notin> set (take (pi + 1 - (sp + 1)) (drop (sp + 1) p))"
      using assms Some by (auto simp: loop_inv_def)
    with assms Some sp show ?thesis by (simp add: loop_inv_def Suc_diff_le)
  qed (use assms in \<open>simp add: loop_inv_def\<close>)
  have "like (drop pi p) (drop si s) = like (drop (pi + 1) p) (drop (si + 1) s)"
    using assms(4,5) by (simp add: p s like_char)
  then show "loop_goal s p (si + 1) (pi + 1) star_pi star_si = loop_goal s p si pi star_pi star_si"
    by (simp only: loop_goal_def)
qed

lemma segment_reach:
  assumes inv: "loop_inv s p si pi (Some sp) star_si" and k: "star_si < k" "k \<le> length s"
    and l: "like (drop (sp + 1) p) (drop k s)"
  shows "k + (si - star_si) \<le> length s \<and> like (drop pi p) (drop (k + (si - star_si)) s)"
proof -
  let ?g = "take (pi - (sp + 1)) (drop (sp + 1) p)"
  have split: "drop (sp + 1) p = ?g @ drop pi p"
    using inv append_take_drop_id [of "pi - (sp + 1)" "drop (sp + 1) p"] by (simp add: loop_inv_def)
  have len: "length ?g = si - star_si" using inv by (auto simp: loop_inv_def min_def)
  have "percent \<notin> set ?g" using inv by (simp add: loop_inv_def)
  moreover have "like (?g @ drop pi p) (drop k s)" using l split by simp
  ultimately have "length ?g \<le> length (drop k s) \<and> like (drop pi p) (drop (length ?g) (drop k s))"
    by (rule like_segment)
  then have "length ?g \<le> length s - k \<and> like (drop pi p) (drop (k + length ?g) s)"
    by (simp only: length_drop drop_drop add.commute)
  with k show ?thesis unfolding len by linarith
qed

lemma goal_star:
  assumes "loop_inv s p si pi star_pi star_si" and "si < length s" and "pi < length p"
    and "p ! pi = percent"
  shows "loop_inv s p si (pi + 1) (Some pi) si"
    and "loop_goal s p si (pi + 1) (Some pi) si = loop_goal s p si pi star_pi star_si"
proof -
  show "loop_inv s p si (pi + 1) (Some pi) si" using assms by (simp add: loop_inv_def)
  have p: "drop pi p = percent # drop (pi + 1) p"
    using assms(3,4) Cons_nth_drop_Suc [OF assms(3)] by simp
  have "like (drop pi p) (drop si s)"
    if some: "star_pi = Some sp" and k: "star_si < k" "k \<le> length s" "like (drop (sp + 1) p) (drop k s)" for sp k
  proof -
    have "like (drop pi p) (drop (k + (si - star_si)) s)"
      using segment_reach [OF assms(1) [unfolded some] k] by simp
    moreover have "si \<le> k + (si - star_si)" using k by simp
    ultimately show ?thesis unfolding p by (rule like_star_mono)
  qed
  then have old: "loop_goal s p si pi star_pi star_si \<longleftrightarrow> like (drop pi p) (drop si s)"
    by (auto simp: loop_goal_def split: option.splits)
  have "like (drop pi p) (drop si s) \<longleftrightarrow> (\<exists>j. si \<le> j \<and> j \<le> length s \<and> like (drop (pi + 1) p) (drop j s))"
  proof -
    have "(\<exists>i \<le> length (drop si s). like (drop (pi + 1) p) (drop i (drop si s))) \<longleftrightarrow>
        (\<exists>j. si \<le> j \<and> j \<le> length s \<and> like (drop (pi + 1) p) (drop j s))" (is "?l \<longleftrightarrow> ?r")
    proof
      assume ?l
      then obtain i where "i \<le> length (drop si s)" "like (drop (pi + 1) p) (drop i (drop si s))" by blast
      then show ?r using assms(2) by (auto intro!: exI [of _ "i + si"])
    next
      assume ?r
      then obtain j where "si \<le> j" "j \<le> length s" "like (drop (pi + 1) p) (drop j s)" by blast
      then show ?l by (auto intro!: exI [of _ "j - si"])
    qed
    then show ?thesis by (simp only: p like_percent)
  qed
  also have "\<dots> \<longleftrightarrow> loop_goal s p si (pi + 1) (Some pi) si"
    using assms(2) by (auto simp: loop_goal_def le_less)
  finally show "loop_goal s p si (pi + 1) (Some pi) si = loop_goal s p si pi star_pi star_si"
    using old by simp
qed

lemma mismatch:
  assumes "si < length s" and "\<not> (pi < length p \<and> (p ! pi = underscore \<or> p ! pi = s ! si))"
    and "\<not> (pi < length p \<and> p ! pi = percent)"
  shows "\<not> like (drop pi p) (drop si s)"
proof (cases "pi < length p")
  case True
  then have "drop pi p = p ! pi # drop (pi + 1) p" by (simp add: Cons_nth_drop_Suc)
  moreover have "hd (drop si s) = s ! si" using assms(1) by (simp add: hd_drop_conv_nth)
  ultimately show ?thesis using assms True by (simp add: like_char)
qed (use assms(1) in simp)

lemma goal_back:
  assumes inv: "loop_inv s p si pi (Some sp) star_si" and "si < length s"
    and "\<not> like (drop pi p) (drop si s)"
  shows "loop_inv s p (star_si + 1) (sp + 1) (Some sp) (star_si + 1)"
    and "loop_goal s p (star_si + 1) (sp + 1) (Some sp) (star_si + 1) = loop_goal s p si pi (Some sp) star_si"
proof -
  show "loop_inv s p (star_si + 1) (sp + 1) (Some sp) (star_si + 1)"
    using inv assms(2) by (simp add: loop_inv_def)
  have "star_si + 1 \<le> length s" using inv assms(2) by (simp add: loop_inv_def)
  then have "(\<exists>k. star_si < k \<and> k \<le> length s \<and> like (drop (sp + 1) p) (drop k s)) \<longleftrightarrow>
      like (drop (sp + 1) p) (drop (star_si + 1) s) \<or>
      (\<exists>k. star_si + 1 < k \<and> k \<le> length s \<and> like (drop (sp + 1) p) (drop k s))"
    by (metis Suc_eq_plus1 Suc_leI le_neq_implies_less lessI less_trans)
  with assms(3) show "loop_goal s p (star_si + 1) (sp + 1) (Some sp) (star_si + 1) =
      loop_goal s p si pi (Some sp) star_si"
    by (simp add: loop_goal_def)
qed

lemma goal_end:
  assumes inv: "loop_inv s p si pi star_pi star_si" and "si = length s"
  shows "loop_goal s p si pi star_pi star_si \<longleftrightarrow> list_all (\<lambda>c. c = percent) (drop pi p)"
proof -
  have "\<not> (star_si < k \<and> k \<le> length s \<and> like (drop (sp + 1) p) (drop k s))" if "star_pi = Some sp" for sp k
    using segment_reach [OF inv [unfolded that], of k] assms by auto
  then have "loop_goal s p si pi star_pi star_si \<longleftrightarrow> like (drop pi p) []"
    using assms(2) by (auto simp: loop_goal_def split: option.splits)
  then show ?thesis by (simp add: like_nothing)
qed

definition loop_measure :: "rstr \<Rightarrow> rstr \<Rightarrow> nat \<Rightarrow> nat \<Rightarrow> nat" where
  "loop_measure s p pi star_si = (length s - star_si) * (length p + 1) + (length p - pi)"

lemma back_measure:
  assumes "star_si < length s" and "sp < length p"
  shows "loop_measure s p (sp + 1) (star_si + 1) < loop_measure s p pi star_si"
proof -
  have "length s - star_si = Suc (length s - (star_si + 1))" using assms(1) by simp
  then show ?thesis using assms(2) by (simp add: loop_measure_def)
qed

lemma star_measure:
  "star_si \<le> si \<Longrightarrow> pi < length p \<Longrightarrow> loop_measure s p (pi + 1) si < loop_measure s p pi star_si"
proof -
  assume "star_si \<le> si" and pi: "pi < length p"
  then have "(length s - si) * (length p + 1) \<le> (length s - star_si) * (length p + 1)"
    by (intro mult_le_mono1) simp
  then show ?thesis using pi unfolding loop_measure_def by linarith
qed

text \<open>The loop ends, with the right answer, on a string without a percent sign.\<close>

lemma match_loop_correct:
  assumes "percent \<notin> set s" and "loop_inv s p si pi star_pi star_si"
  shows "match_loop s p si pi star_pi star_si = Some (loop_goal s p si pi star_pi star_si)"
  using assms(2)
proof (induction "loop_measure s p pi star_si" arbitrary: si pi star_pi star_si rule: less_induct)
  case less
  note inv = less.prems
  show ?case
  proof (cases "si < length s")
    case False
    then have "si = length s" using inv by (simp add: loop_inv_def)
    with goal_end [OF inv this] show ?thesis by (subst match_loop.simps) simp
  next
    case si: True
    consider (hit) "pi < length p" "p ! pi = underscore \<or> p ! pi = s ! si"
      | (star) "pi < length p" "\<not> (p ! pi = underscore \<or> p ! pi = s ! si)" "p ! pi = percent"
      | (miss) "\<not> (pi < length p \<and> (p ! pi = underscore \<or> p ! pi = s ! si))"
          "\<not> (pi < length p \<and> p ! pi = percent)"
      by blast
    then show ?thesis
    proof cases
      case hit
      have "p ! pi \<noteq> percent" using hit si assms(1) by (auto dest: nth_mem)
      note g = goal_match [OF inv si hit this]
      have "loop_measure s p (pi + 1) star_si < loop_measure s p pi star_si"
        using hit by (simp add: loop_measure_def)
      from less.hyps [OF this g(1)] g(2) si hit show ?thesis by (subst match_loop.simps) simp
    next
      case star
      note g = goal_star [OF inv si star(1,3)]
      have "loop_measure s p (pi + 1) si < loop_measure s p pi star_si"
        using inv star(1) by (intro star_measure) (simp_all add: loop_inv_def)
      from less.hyps [OF this g(1)] g(2) si star show ?thesis by (subst match_loop.simps) simp
    next
      case miss
      note no = mismatch [OF si miss]
      show ?thesis
      proof (cases star_pi)
        case None
        with no si miss show ?thesis by (subst match_loop.simps) (auto simp: loop_goal_def)
      next
        case (Some sp)
        note g = goal_back [OF inv [unfolded Some] si no]
        have "loop_measure s p (sp + 1) (star_si + 1) < loop_measure s p pi star_si"
          using inv si Some by (intro back_measure) (simp_all add: loop_inv_def)
        from less.hyps [OF this g(1)] g(2) Some si miss show ?thesis by (subst match_loop.simps) auto
      qed
    qed
  qed
qed

lemma match_chars_like: "percent \<notin> set s \<Longrightarrow> match_chars s p = Some (like p s)"
  unfolding match_chars_def
  by (subst match_loop_correct) (simp_all add: loop_inv_def loop_goal_def)


section \<open>The pieces\<close>

lemma strip_prefix_iff: "strip_prefix s p = Some r \<longleftrightarrow> s = p @ r"
  by (induction s p rule: strip_prefix.induct) auto

lemma strip_prefix_append [simp]: "strip_prefix (p @ r) p = Some r"
  by (simp add: strip_prefix_iff)

lemma strip_prefix_self [simp]: "strip_prefix p p = Some []"
  by (simp add: strip_prefix_iff)

lemma like_literal:
  "percent \<notin> set g \<Longrightarrow> underscore \<notin> set g \<Longrightarrow>
   like (g @ p) s \<longleftrightarrow> (case strip_prefix s g of None \<Rightarrow> False | Some r \<Rightarrow> like p r)"
proof (induction s g rule: strip_prefix.induct)
  case (3 x xs q ps)
  then show ?case by (auto simp: like_char)
qed (auto simp: like_char split: option.splits)

lemma find_str_Some:
  "find_str t s = Some i \<Longrightarrow> i \<le> length s \<and> strip_prefix (drop i s) t \<noteq> None \<and>
     (\<forall>j < i. strip_prefix (drop j s) t = None)"
proof (induction t s arbitrary: i rule: find_str.induct)
  case (2 t x xs)
  then show ?case by (auto split: if_splits simp: less_Suc_eq_0_disj)
qed (auto split: if_splits)

lemma find_str_None: "find_str t s = None \<Longrightarrow> j \<le> length s \<Longrightarrow> strip_prefix (drop j s) t = None"
proof (induction t s arbitrary: j rule: find_str.induct)
  case (1 t)
  then show ?case by (cases t) (auto split: if_splits)
next
  case (2 t x xs)
  then show ?case by (cases j) (auto split: if_splits)
qed

text \<open>Searching for a literal after a star: the first occurrence is as good as any.\<close>

lemma like_find:
  assumes "percent \<notin> set g" and "underscore \<notin> set g"
  shows "like (percent # g @ percent # q) s \<longleftrightarrow>
     (case find_str g s of None \<Rightarrow> False | Some i \<Rightarrow> like (percent # q) (drop (i + length g) s))"
proof (cases "find_str g s")
  case None
  then show ?thesis using find_str_None [OF None] assms by (auto simp: like_percent like_literal)
next
  case (Some i)
  note f = find_str_Some [OF Some]
  have hit: "strip_prefix (drop k s) g = Some r \<Longrightarrow> r = drop (k + length g) s" for k r
    by (auto simp: strip_prefix_iff) (metis append_eq_conv_conj drop_drop add.commute)
  show ?thesis
  proof
    assume "like (percent # g @ percent # q) s"
    then obtain k where k: "k \<le> length s" "like (g @ percent # q) (drop k s)" by (auto simp: like_percent)
    then obtain r where r: "strip_prefix (drop k s) g = Some r" "like (percent # q) r"
      using like_literal [OF assms] by (auto split: option.splits)
    then have "i \<le> k" using f by (metis not_le_imp_less option.distinct(1))
    with r hit [OF r(1)] show "case find_str g s of None \<Rightarrow> False
        | Some i \<Rightarrow> like (percent # q) (drop (i + length g) s)"
      using like_star_mono [of q "k + length g" s "i + length g"] Some by simp
  next
    assume "case find_str g s of None \<Rightarrow> False | Some i \<Rightarrow> like (percent # q) (drop (i + length g) s)"
    then have "like (percent # q) (drop (i + length g) s)" using Some by simp
    moreover obtain r where "strip_prefix (drop i s) g = Some r" using f by blast
    ultimately have "like (g @ percent # q) (drop i s)"
      using hit like_literal [OF assms] by auto
    then show "like (percent # g @ percent # q) s" using f by (auto simp: like_percent)
  qed
qed

lemma like_ends_with:
  assumes "percent \<notin> set g" and "underscore \<notin> set g"
  shows "like (percent # g) s \<longleftrightarrow> ends_with s g"
proof -
  have g: "like g t \<longleftrightarrow> t = g" for t
    using like_literal [OF assms, of "[]" t] by (auto simp: strip_prefix_iff split: option.splits)
  have "k = length s - length g" if "k \<le> length s" "drop k s = g" for k
    using that length_drop [of k s] by simp
  then show ?thesis
    unfolding like_percent g ends_with_def by (metis diff_le_self length_drop)
qed

lemma split_literal:
  "c \<notin> set g \<Longrightarrow> split_on c (g @ c # q) = g # split_on c q"
  by (induction g) auto

lemma split_literal_end: "c \<notin> set g \<Longrightarrow> split_on c g = [g]"
  by (induction g) auto

definition pieces :: "rstr \<Rightarrow> rstr list" where
  "pieces q = filter (\<lambda>s. s \<noteq> []) (split_on percent q)"

lemma pieces_literal:
  "percent \<notin> set g \<Longrightarrow> pieces (g @ percent # q) = (if g = [] then pieces q else g # pieces q)"
  "percent \<notin> set g \<Longrightarrow> pieces g = (if g = [] then [] else [g])"
  by (simp_all add: pieces_def split_literal split_literal_end)

lemma split_on_not_Nil: "split_on c s \<noteq> []"
  by (induction s) (auto split: list.splits)

lemma pieces_empty: "pieces q = [] \<Longrightarrow> set q \<subseteq> {percent}"
proof (induction q)
  case (Cons x q)
  then show ?case using split_on_not_Nil [of percent q]
    by (auto simp: pieces_def split: if_splits list.splits)
qed simp

lemma pieces_empty_last: "pieces q = [] \<Longrightarrow> last (percent # q) = percent"
  using pieces_empty [of q] last_in_set [of "percent # q"] by auto

lemma first_literal:
  obtains (all) "percent \<notin> set q" | (split) g r where "q = g @ percent # r" "percent \<notin> set g"
  using split_list_first [of percent q] by blast

text \<open>Behind a star, the loop over the pieces decides the rest of the pattern.\<close>

lemma match_parts_star:
  assumes "underscore \<notin> set q" and "i \<noteq> 0 \<or> \<not> a_start" and "a_end = (last (percent # q) \<noteq> percent)"
  shows "match_parts a_start a_end i (pieces q) s \<longleftrightarrow> like (percent # q) s"
  using assms
proof (induction "length q" arbitrary: q i s rule: less_induct)
  case less
  show ?case
  proof (cases q rule: first_literal)
    case all
    show ?thesis
    proof (cases "q = []")
      case True
      then show ?thesis using less.prems by (auto simp: pieces_def like_percent)
    next
      case False
      with all have "last q \<noteq> percent" using last_in_set by metis
      with False have "a_end" using less.prems(3) by simp
      with False all less.prems show ?thesis
        by (auto simp: pieces_literal like_ends_with)
    qed
  next
    case (split g r)
    have r: "length r < length q" "underscore \<notin> set r" "underscore \<notin> set g"
      using split less.prems(1) by auto
    have ae: "a_end = (last (percent # r) \<noteq> percent)" using less.prems(3) split by simp
    show ?thesis
    proof (cases "g = []")
      case True
      with split less.hyps [OF r(1,2) less.prems(2) ae, of s] show ?thesis
        by (simp add: pieces_literal(1) [of "[]", simplified] like_star_star)
    next
      case False
      have more: "\<not> (pieces r = [] \<and> a_end)"
        using pieces_empty_last [of r] ae by auto
      have "match_parts a_start a_end (i + 1) (pieces r) t \<longleftrightarrow> like (percent # r) t" for t
        using less.hyps [OF r(1,2) _ ae, of "i + 1" t] by simp
      with False split more less.prems(2) show ?thesis
        by (auto simp: pieces_literal(1) [OF split(2)] like_find [OF split(2) r(3)] split: option.splits)
    qed
  qed
qed


lemma matches_chunks:
  assumes "underscore \<notin> set pat"
  shows "matches (compile pat) s = Some (like pat s)"
proof (cases pat rule: first_literal)
  case all
  show ?thesis
  proof (cases "pat = []")
    case False
    with all have "last pat \<noteq> percent" "hd pat \<noteq> percent" using last_in_set hd_in_set by metis+
    with False all assms like_literal [OF all assms, of "[]" s] show ?thesis
      by (auto simp: matches_def compile_def pieces_def [symmetric] pieces_literal split: option.splits)
  qed (simp add: matches_def compile_def)
next
  case (split g r)
  have g: "underscore \<notin> set g" "underscore \<notin> set r" using assms split by auto
  show ?thesis
  proof (cases "g = []")
    case True
    then have start: "hd pat = percent" "pat \<noteq> []" "pieces pat = pieces r"
      using split pieces_literal(1) [of "[]" r] by simp_all
    have last: "last pat = last (percent # r)" using split True by simp
    have "match_parts False (last (percent # r) \<noteq> percent) 0 (pieces r) s \<longleftrightarrow> like (percent # r) s"
      by (rule match_parts_star [OF g(2)]) simp_all
    with True split start last assms pieces_empty_last [of r] show ?thesis
      by (auto simp: matches_def compile_def pieces_def [symmetric])
  next
    case False
    then have start: "hd pat \<noteq> percent" "pat \<noteq> []" "pieces pat = g # pieces r"
      using split pieces_literal(1) [OF split(2), of r] by (auto simp: hd_append dest: hd_in_set)
    have last: "last pat = last (percent # r)" using split by simp
    obtain e where e: "e \<longleftrightarrow> last pat \<noteq> percent" by blast
    have "match_parts True e (Suc 0) (pieces r) t \<longleftrightarrow> like (percent # r) t" for t
      by (rule match_parts_star [OF g(2)]) (simp_all add: e last)
    then have "match_parts True e 0 (pieces pat) s \<longleftrightarrow> like pat s"
      using like_literal [OF split(2) g(1), of "percent # r" s]
      unfolding start(3) by (simp add: split(1) split: option.splits)
    with start(1,2) assms show ?thesis
      by (simp add: matches_def compile_def pieces_def [symmetric] start(3) e)
  qed
qed

lemma matches_chars:
  assumes "underscore \<in> set pat" and "percent \<notin> set s"
  shows "matches (compile pat) s = Some (like pat s)"
  using assms by (simp add: matches_def compile_def match_chars_like)

text \<open>The loop always ends, percent signs in the string or not.\<close>

definition pos_inv :: "rstr \<Rightarrow> rstr \<Rightarrow> nat \<Rightarrow> nat \<Rightarrow> nat option \<Rightarrow> nat \<Rightarrow> bool" where
  "pos_inv s p si pi star_pi star_si \<longleftrightarrow>
     star_si \<le> si \<and> si \<le> length s \<and> (case star_pi of None \<Rightarrow> True | Some sp \<Rightarrow> sp < length p)"

lemma match_loop_ends:
  assumes "pos_inv s p si pi star_pi star_si"
  shows "\<exists>b. match_loop s p si pi star_pi star_si = Some b"
  using assms
proof (induction "loop_measure s p pi star_si" arbitrary: si pi star_pi star_si rule: less_induct)
  case less
  note inv = less.prems
  show ?case
  proof (cases "si < length s")
    case False
    then show ?thesis by (subst match_loop.simps) simp
  next
    case si: True
    consider (hit) "pi < length p" "p ! pi = underscore \<or> p ! pi = s ! si"
      | (star) "pi < length p" "\<not> (p ! pi = underscore \<or> p ! pi = s ! si)" "p ! pi = percent"
      | (miss) "\<not> (pi < length p \<and> (p ! pi = underscore \<or> p ! pi = s ! si))"
          "\<not> (pi < length p \<and> p ! pi = percent)"
      by blast
    then show ?thesis
    proof cases
      case hit
      have "loop_measure s p (pi + 1) star_si < loop_measure s p pi star_si"
        using hit by (simp add: loop_measure_def)
      from less.hyps [OF this, of "si + 1" star_pi] inv si hit show ?thesis
        by (subst match_loop.simps) (auto simp: pos_inv_def)
    next
      case star
      have "loop_measure s p (pi + 1) si < loop_measure s p pi star_si"
        using inv star(1) by (intro star_measure) (simp_all add: pos_inv_def)
      from less.hyps [OF this, of si "Some pi"] inv si star show ?thesis
        by (subst match_loop.simps) (auto simp: pos_inv_def)
    next
      case miss
      show ?thesis
      proof (cases star_pi)
        case None
        with si miss show ?thesis by (subst match_loop.simps) auto
      next
        case (Some sp)
        have "loop_measure s p (sp + 1) (star_si + 1) < loop_measure s p pi star_si"
          using inv si Some by (intro back_measure) (simp_all add: pos_inv_def)
        from less.hyps [OF this, of "star_si + 1" star_pi] inv si miss Some show ?thesis
          by (subst match_loop.simps) (auto simp: pos_inv_def)
      qed
    qed
  qed
qed

lemma matches_total: "\<exists>b. matches pat s = Some b"
  using match_loop_ends [of s _ 0 0 None 0]
  by (cases pat) (auto simp: matches_def match_chars_def pos_inv_def)

definition matches_bool :: "pattern \<Rightarrow> rstr \<Rightarrow> bool" where
  "matches_bool pat s = (matches pat s = Some True)"

section \<open>Properties\<close>

text \<open>C17: the matcher always returns, whatever the pattern and the string.\<close>

theorem like_terminates: "\<exists>b. matches (compile pat) s = Some b"
  by (rule matches_total)

text \<open>C9: both matchers decide \<open>LIKE\<close>: the search for literal pieces, used for a pattern without
  an underscore, on every string; the backtracking loop, used otherwise, on every string without
  a percent sign.\<close>

theorem matches_like:
  assumes "underscore \<in> set pat \<longrightarrow> percent \<notin> set s"
  shows "matches (compile pat) s = Some (like pat s)"
  using assms matches_chunks matches_chars by blast

theorem matches_like_witness:
  "matches (compile (str ''%a_c%'')) (str ''xxabcx'') = Some (like (str ''%a_c%'') (str ''xxabcx'')) \<and>
   matches (compile (str ''%a_c%'')) (str ''xxabcx'') = Some True"
  by (intro conjI matches_like) code_simp+

text \<open>on a string with a percent sign the loop can answer wrongly: it takes the wildcard for
  the same character of the string before it looks at it as a wildcard. The string of one
  percent sign is refused by the pattern of a wildcard and one arbitrary character.\<close>

theorem literal_percent_mismatch:
  "matches (compile (str ''%_'')) (str ''%'') = Some False \<and> like (str ''%_'') (str ''%'')"
  by code_simp

end
