(* ===== verification/Exec.thy ===== *)
theory Exec
  imports Plan Like Decimal
begin

text \<open>
  \<open>exec.rs\<close>, evaluation of expressions, and \<open>simd.rs\<close>: an expression is evaluated over all the
  selected rows at once and gives an array of one value per row, or of one value for all rows.
  Broadcasting, the integer fast path, saturation and the conversions to \<open>f64\<close> are those of the
  source. \<open>lower\<close> and \<open>upper\<close> are the Unicode case mappings of \<open>str\<close>. The NEON variants of the
  two vector kernels exist on aarch64 only; the kernels here are the scalar ones.
\<close>

section \<open>Vector kernels\<close>

text \<open>\<open>iter().sum()\<close> on floats starts from minus zero.\<close>

definition sum_f32 :: "f32 list \<Rightarrow> f32" where
  "sum_f32 xs = foldl f32_add (f32_neg 0) xs"

definition dot :: "f32 list \<Rightarrow> f32 list \<Rightarrow> f32" where
  "dot a b = sum_f32 (map (\<lambda>(x, y). f32_mul x y) (zip a b))"

definition l2_sq :: "f32 list \<Rightarrow> f32 list \<Rightarrow> f32" where
  "l2_sq a b = sum_f32 (map (\<lambda>(x, y). f32_mul (f32_sub x y) (f32_sub x y)) (zip a b))"

definition f32_one :: f32 where
  "f32_one = f32_bits (F_Fin False 1 0)"

text \<open>The loop reads \<open>b[i]\<close> for every index of \<open>a\<close>.\<close>

fun cosine_loop :: "f32 list \<Rightarrow> f32 list \<Rightarrow> nat \<Rightarrow> f32 \<Rightarrow> f32 \<Rightarrow> f32 \<Rightarrow> (f32 \<times> f32 \<times> f32) res" where
  "cosine_loop [] b i d na nb = Inr (d, na, nb)"
| "cosine_loop (x # xs) b i d na nb =
     and_then (index_at b i) (\<lambda>y.
     cosine_loop xs b (i + 1) (f32_add d (f32_mul x y)) (f32_add na (f32_mul x x))
       (f32_add nb (f32_mul y y)))"

definition cosine_distance :: "f32 list \<Rightarrow> f32 list \<Rightarrow> f32 res" where
  "cosine_distance a b =
     and_then (cosine_loop a b 0 0 0 0) (\<lambda>(d, na, nb).
     (let denom = f32_sqrt (f32_mul na nb) in
      if f32_eq denom 0 then Inr f32_one else Inr (f32_sub f32_one (f32_div d denom))))"

section \<open>Selections and arrays\<close>

datatype (plugins only: code size) sel =
    All nat
  | Ids "u32 list"

definition sel_len :: "sel \<Rightarrow> nat" where
  "sel_len s = (case s of All n \<Rightarrow> n | Ids v \<Rightarrow> length v)"

definition sel_row :: "sel \<Rightarrow> nat \<Rightarrow> nat res" where
  "sel_row s i = (case s of All _ \<Rightarrow> Inr i | Ids v \<Rightarrow> and_then (index_at v i) (\<lambda>r. Inr (unat r)))"

definition permute :: "sel \<Rightarrow> nat list \<Rightarrow> sel res" where
  "permute s order =
     and_then (map_res (\<lambda>i. and_then (sel_row s i) (\<lambda>r. Inr (word_of_nat r))) order) (\<lambda>ids. Inr (Ids ids))"

datatype (plugins only: code size) arr =
    Arr_I64 "i64 list"
  | Arr_F64 "f64 list"
  | Arr_Bool "u8 list"
  | Arr_Str "rstr list"
  | Arr_Vector usize "f32 list list"

definition arr_len :: "arr \<Rightarrow> nat" where
  "arr_len a =
     (case a of
        Arr_I64 v \<Rightarrow> length v
      | Arr_F64 v \<Rightarrow> length v
      | Arr_Bool v \<Rightarrow> length v
      | Arr_Str v \<Rightarrow> length v
      | Arr_Vector _ rows \<Rightarrow> length rows)"

definition arr_type :: "arr \<Rightarrow> data_type" where
  "arr_type a =
     (case a of
        Arr_I64 _ \<Rightarrow> DT_I64
      | Arr_F64 _ \<Rightarrow> DT_F64
      | Arr_Bool _ \<Rightarrow> DT_Bool
      | Arr_Str _ \<Rightarrow> DT_Str
      | Arr_Vector dim _ \<Rightarrow> DT_Vector dim)"

definition at :: "nat \<Rightarrow> nat \<Rightarrow> nat" where
  "at len i = (if len = 1 then 0 else i)"

definition arr_value :: "arr \<Rightarrow> nat \<Rightarrow> rvalue res" where
  "arr_value a i =
     (let i = at (arr_len a) i in
      case a of
        Arr_I64 v \<Rightarrow> and_then (index_at v i) (\<lambda>x. Inr (V_I64 x))
      | Arr_F64 v \<Rightarrow> and_then (index_at v i) (\<lambda>x. Inr (V_F64 x))
      | Arr_Bool v \<Rightarrow> and_then (index_at v i) (\<lambda>x. Inr (V_Bool (x \<noteq> 0)))
      | Arr_Str v \<Rightarrow> and_then (index_at v i) (\<lambda>x. Inr (V_Str x))
      | Arr_Vector _ rows \<Rightarrow> and_then (index_at rows i) (\<lambda>x. Inr (V_Vector x)))"

definition as_bool :: "arr \<Rightarrow> u8 list res" where
  "as_bool a = (case a of Arr_Bool v \<Rightarrow> Inr v | _ \<Rightarrow> Inl (Query (Expected_bool (arr_type a))))"

definition to_f64 :: "arr \<Rightarrow> f64 list res" where
  "to_f64 a =
     (case a of
        Arr_F64 v \<Rightarrow> Inr v
      | Arr_I64 v \<Rightarrow> Inr (map f64_of_i64 v)
      | Arr_Bool v \<Rightarrow> Inr (map (\<lambda>b. f64_of_int (uint b)) v)
      | _ \<Rightarrow> Inl (Query (Expected_number (arr_type a))))"

definition into_column :: "arr \<Rightarrow> column" where
  "into_column a =
     (case a of
        Arr_I64 v \<Rightarrow> C_I64 v
      | Arr_F64 v \<Rightarrow> C_F64 v
      | Arr_Bool v \<Rightarrow> C_Bool v
      | Arr_Str v \<Rightarrow> C_Str (foldl str_push str_new v)
      | Arr_Vector dim rows \<Rightarrow> C_Vector dim (concat rows))"

section \<open>Binary operators\<close>

definition pair_len :: "nat \<Rightarrow> nat \<Rightarrow> nat res" where
  "pair_len l r =
     (if l = r then Inr l else if l = 1 then Inr r else if r = 1 then Inr l
      else Inl (Query (Operand_lengths l r)))"

text \<open>The macro \<open>zip_map\<close>; after \<open>pair_len\<close> its indices are in range.\<close>

definition zip_map :: "nat \<Rightarrow> ('a \<Rightarrow> 'b \<Rightarrow> 'c) \<Rightarrow> 'a list \<Rightarrow> 'b list \<Rightarrow> 'c list" where
  "zip_map n f ls rs = map (\<lambda>i. f (ls ! at (length ls) i) (rs ! at (length rs) i)) [0..<n]"

definition is_cmp :: "bin_op \<Rightarrow> bool" where
  "is_cmp op \<longleftrightarrow> op \<in> {B_Eq, B_NotEq, B_Lt, B_LtEq, B_Gt, B_GtEq}"

text \<open>Only comparison operators reach \<open>cmp_ok\<close>; the others are \<open>unreachable!\<close> there.\<close>

definition cmp_ok :: "bin_op \<Rightarrow> ordering \<Rightarrow> bool" where
  "cmp_ok op c =
     (case op of
        B_Eq \<Rightarrow> c = Equal
      | B_NotEq \<Rightarrow> c \<noteq> Equal
      | B_Lt \<Rightarrow> c = Less
      | B_LtEq \<Rightarrow> c \<noteq> Greater
      | B_Gt \<Rightarrow> c = Greater
      | _ \<Rightarrow> c \<noteq> Less)"

definition cmp_i64 :: "i64 \<Rightarrow> i64 \<Rightarrow> ordering" where
  "cmp_i64 a b = cmp_int (sint a) (sint b)"

text \<open>\<open>str::cmp\<close> compares the UTF-8 bytes, which orders strings by their code points.\<close>

fun cmp_bytes :: "u8 list \<Rightarrow> u8 list \<Rightarrow> ordering" where
  "cmp_bytes [] [] = Equal"
| "cmp_bytes [] (b # bs) = Less"
| "cmp_bytes (a # as) [] = Greater"
| "cmp_bytes (a # as) (b # bs) = (if a < b then Less else if b < a then Greater else cmp_bytes as bs)"

definition cmp_str :: "rstr \<Rightarrow> rstr \<Rightarrow> ordering" where
  "cmp_str a b = cmp_bytes (utf8 a) (utf8 b)"

definition sat_add :: "i64 \<Rightarrow> i64 \<Rightarrow> i64" where
  "sat_add a b = clamp_i64 (sint a + sint b)"

definition sat_sub :: "i64 \<Rightarrow> i64 \<Rightarrow> i64" where
  "sat_sub a b = clamp_i64 (sint a - sint b)"

definition sat_mul :: "i64 \<Rightarrow> i64 \<Rightarrow> i64" where
  "sat_mul a b = clamp_i64 (sint a * sint b)"

text \<open>\<open>wrapping_rem\<close>: the truncated remainder.\<close>

definition rem_i64 :: "i64 \<Rightarrow> i64 \<Rightarrow> i64" where
  "rem_i64 a b =
     (if b = 0 then 0
      else let m = \<bar>sint a\<bar> mod \<bar>sint b\<bar> in word_of_int (if sint a < 0 then - m else m))"

definition arith_i64 :: "bin_op \<Rightarrow> i64 \<Rightarrow> i64 \<Rightarrow> i64" where
  "arith_i64 op a b =
     (case op of
        B_Add \<Rightarrow> sat_add a b
      | B_Sub \<Rightarrow> sat_sub a b
      | B_Mul \<Rightarrow> sat_mul a b
      | _ \<Rightarrow> rem_i64 a b)"

definition arith_f64 :: "bin_op \<Rightarrow> f64 \<Rightarrow> f64 \<Rightarrow> f64" where
  "arith_f64 op a b =
     (case op of
        B_Add \<Rightarrow> f64_add a b
      | B_Sub \<Rightarrow> f64_sub a b
      | B_Mul \<Rightarrow> f64_mul a b
      | B_Div \<Rightarrow> f64_div a b
      | _ \<Rightarrow> f64_rem a b)"

definition cmp_f64 :: "bin_op \<Rightarrow> f64 \<Rightarrow> f64 \<Rightarrow> bool" where
  "cmp_f64 op a b =
     (case f64_partial_cmp a b of Some c \<Rightarrow> cmp_ok op c | None \<Rightarrow> op = B_NotEq)"

text \<open>The comparisons as the mask bytes that the closures produce.\<close>

definition mask_i64 :: "bin_op \<Rightarrow> i64 \<Rightarrow> i64 \<Rightarrow> u8" where
  "mask_i64 op a b = bool_byte (cmp_ok op (cmp_i64 a b))"

definition mask_str :: "bin_op \<Rightarrow> rstr \<Rightarrow> rstr \<Rightarrow> u8" where
  "mask_str op a b = bool_byte (cmp_ok op (cmp_str a b))"

definition mask_f64 :: "bin_op \<Rightarrow> f64 \<Rightarrow> f64 \<Rightarrow> u8" where
  "mask_f64 op a b = bool_byte (cmp_f64 op a b)"

definition is_str :: "arr \<Rightarrow> bool" where
  "is_str a = (case a of Arr_Str _ \<Rightarrow> True | _ \<Rightarrow> False)"

definition logic_u8 :: "bin_op \<Rightarrow> u8 \<Rightarrow> u8 \<Rightarrow> u8" where
  "logic_u8 op a b =
     bool_byte (if op = B_And then a \<noteq> 0 \<and> b \<noteq> 0 else a \<noteq> 0 \<or> b \<noteq> 0)"

definition eval_floats :: "bin_op \<Rightarrow> nat \<Rightarrow> arr \<Rightarrow> arr \<Rightarrow> arr res" where
  "eval_floats op n l r =
     and_then (to_f64 l) (\<lambda>lf.
     and_then (to_f64 r) (\<lambda>rf.
     Inr (if is_cmp op then Arr_Bool (zip_map n (mask_f64 op) lf rf)
          else Arr_F64 (zip_map n (arith_f64 op) lf rf))))"

definition eval_binary :: "bin_op \<Rightarrow> arr \<Rightarrow> arr \<Rightarrow> arr res" where
  "eval_binary op l r =
     and_then (pair_len (arr_len l) (arr_len r)) (\<lambda>n.
     if op = B_And \<or> op = B_Or then
       and_then (as_bool l) (\<lambda>lb.
       and_then (as_bool r) (\<lambda>rb.
       Inr (Arr_Bool (zip_map n (logic_u8 op) lb rb))))
     else
       case (l, r) of
         (Arr_Str ls, Arr_Str rs) \<Rightarrow>
           if \<not> is_cmp op then Inl (Query String_arithmetic)
           else Inr (Arr_Bool (zip_map n (mask_str op) ls rs))
       | (Arr_I64 ls, Arr_I64 rs) \<Rightarrow>
           if is_cmp op then
             Inr (Arr_Bool (zip_map n (mask_i64 op) ls rs))
           else if op \<noteq> B_Div then Inr (Arr_I64 (zip_map n (arith_i64 op) ls rs))
           else eval_floats op n l r
       | _ \<Rightarrow>
           if is_str l \<or> is_str r then Inl (Query String_with_number) else eval_floats op n l r)"

section \<open>Columns and distances\<close>

definition gather :: "column \<Rightarrow> sel \<Rightarrow> arr res" where
  "gather col s =
     (case (col, s) of
        (C_I64 v, All _) \<Rightarrow> Inr (Arr_I64 v)
      | (C_F64 v, All _) \<Rightarrow> Inr (Arr_F64 v)
      | (C_Bool v, All _) \<Rightarrow> Inr (Arr_Bool v)
      | (C_I64 v, Ids ids) \<Rightarrow> and_then (map_res (\<lambda>i. index_at v (unat i)) ids) (\<lambda>xs. Inr (Arr_I64 xs))
      | (C_F64 v, Ids ids) \<Rightarrow> and_then (map_res (\<lambda>i. index_at v (unat i)) ids) (\<lambda>xs. Inr (Arr_F64 xs))
      | (C_Bool v, Ids ids) \<Rightarrow> and_then (map_res (\<lambda>i. index_at v (unat i)) ids) (\<lambda>xs. Inr (Arr_Bool xs))
      | (C_Str c, _) \<Rightarrow>
          and_then (map_res (\<lambda>i. and_then (sel_row s i) (str_get c)) [0..<sel_len s]) (\<lambda>xs.
          Inr (Arr_Str xs))
      | (C_Vector dim _, _) \<Rightarrow>
          and_then (map_res (\<lambda>i.
            and_then (sel_row s i) (\<lambda>r.
            and_then (vector_at col r) (\<lambda>v. ok_or v (Panic ''unwrap'')))) [0..<sel_len s]) (\<lambda>rows.
          Inr (Arr_Vector dim rows)))"

definition metric_value :: "metric \<Rightarrow> f32 list \<Rightarrow> f32 list \<Rightarrow> f64 res" where
  "metric_value m v q =
     (case m of
        M_L2 \<Rightarrow> Inr (f64_of_f32 (l2_sq v q))
      | M_Cosine \<Rightarrow> and_then (cosine_distance v q) (\<lambda>d. Inr (f64_of_f32 d))
      | M_NegInnerProduct \<Rightarrow> Inr (f64_of_f32 (f32_neg (dot v q))))"

text \<open>Above 4096 rows the same function is mapped in parallel, in the same order.\<close>

definition distances :: "column \<Rightarrow> sel \<Rightarrow> metric \<Rightarrow> f32 list \<Rightarrow> f64 list res" where
  "distances col s m q =
     (case col of
        C_Vector dim _ \<Rightarrow>
          if unat dim \<noteq> length q then Inl (Query (Query_vector_dim (length q) dim))
          else map_res (\<lambda>i.
            and_then (sel_row s i) (\<lambda>r.
            and_then (vector_at col r) (\<lambda>v.
            and_then (ok_or v (Panic ''unwrap'')) (\<lambda>v.
            metric_value m v q)))) [0..<sel_len s]
      | _ \<Rightarrow> Inl (Query Not_vector_column))"

section \<open>Casts\<close>

definition join :: "rstr \<Rightarrow> rstr list \<Rightarrow> rstr" where
  "join sep xs = (case xs of [] \<Rightarrow> [] | y # ys \<Rightarrow> y @ concat (map (\<lambda>z. sep @ z) ys))"

definition render :: "rvalue \<Rightarrow> rstr" where
  "render v =
     (case v of
        V_I64 x \<Rightarrow> show_i64 x
      | V_F64 x \<Rightarrow> show_f64 x
      | V_Bool x \<Rightarrow> (if x then str ''true'' else str ''false'')
      | V_Str x \<Rightarrow> x
      | V_Vector x \<Rightarrow> str ''['' @ join (str '','') (map show_f32 x) @ str '']'')"

definition cast :: "arr \<Rightarrow> data_type \<Rightarrow> arr res" where
  "cast v ty =
     (case ty of
        DT_I64 \<Rightarrow>
          (case v of
             Arr_Str s \<Rightarrow>
               Inr (Arr_I64 (map (\<lambda>x. case parse_i64 (trim x) of Some i \<Rightarrow> i | None \<Rightarrow> 0) s))
           | _ \<Rightarrow> and_then (to_f64 v) (\<lambda>xs. Inr (Arr_I64 (map f64_to_i64 xs))))
      | DT_F64 \<Rightarrow>
          (case v of
             Arr_Str s \<Rightarrow>
               Inr (Arr_F64 (map (\<lambda>x. case parse_f64 (trim x) of Some d \<Rightarrow> d | None \<Rightarrow> 0) s))
           | _ \<Rightarrow> and_then (to_f64 v) (\<lambda>xs. Inr (Arr_F64 xs)))
      | DT_Bool \<Rightarrow>
          and_then (to_f64 v) (\<lambda>xs. Inr (Arr_Bool (map (\<lambda>x. bool_byte (\<not> f64_eq x 0)) xs)))
      | DT_Str \<Rightarrow>
          and_then (map_res (arr_value v) [0..<arr_len v]) (\<lambda>vs. Inr (Arr_Str (map render vs)))
      | DT_Vector _ \<Rightarrow> Inl (Query Cast_to_vector))"

section \<open>Calendar\<close>

text \<open>
  \<open>civil_from_days\<close>, the days since 1970-01-01 to a date of the Gregorian calendar. The days of an
  \<open>i64\<close> of seconds are far from the ends of \<open>i64\<close>, so nothing overflows.
\<close>

definition civil_from_days :: "int \<Rightarrow> int \<times> int \<times> int" where
  "civil_from_days z0 =
     (let z = z0 + 719468;
          era = z div 146097;
          doe = z mod 146097;
          yoe = (doe - doe div 1460 + doe div 36524 - doe div 146096) div 365;
          y = yoe + era * 400;
          doy = doe - (365 * yoe + yoe div 4 - yoe div 100);
          mp = (5 * doy + 2) div 153;
          d = doy - (153 * mp + 2) div 5 + 1;
          m = (if mp < 10 then mp + 3 else mp - 9)
      in (if m \<le> 2 then y + 1 else y, m, d))"

definition extract_part :: "scalar_fn \<Rightarrow> i64 \<Rightarrow> i64" where
  "extract_part fn ts =
     (let days = sint ts div 86400; secs = sint ts mod 86400 in
      case fn of
        S_ExtractHour \<Rightarrow> word_of_int (secs div 3600)
      | S_ExtractMinute \<Rightarrow> word_of_int (secs mod 3600 div 60)
      | _ \<Rightarrow>
          (case civil_from_days days of (y, m, d) \<Rightarrow>
             word_of_int (if fn = S_ExtractDay then d else if fn = S_ExtractMonth then m else y)))"

section \<open>Scalar functions\<close>

text \<open>The first length that is not 1 decides how many values there are.\<close>

definition args_len :: "arr list \<Rightarrow> nat" where
  "args_len args = (case find (\<lambda>l. l \<noteq> 1) (map arr_len args) of None \<Rightarrow> 1 | Some l \<Rightarrow> l)"

definition strings_of :: "arr \<Rightarrow> err \<Rightarrow> rstr list res" where
  "strings_of a e = (case a of Arr_Str s \<Rightarrow> Inr s | _ \<Rightarrow> Inl e)"

definition pick_at :: "'a list \<Rightarrow> nat \<Rightarrow> 'a res" where
  "pick_at xs i = index_at xs (at (length xs) i)"

definition substring :: "rstr \<Rightarrow> f64 \<Rightarrow> f64 option \<Rightarrow> rstr" where
  "substring src start count =
     (let from = nat (max 0 (sint (f64_to_i64 start - 1)));
          tail = drop from src
      in case count of
           None \<Rightarrow> tail
         | Some c \<Rightarrow> take (f64_to_usize (f64_max c 0)) tail)"

definition func_substring :: "nat \<Rightarrow> arr list \<Rightarrow> arr res" where
  "func_substring n args =
     and_then (index_at args 0) (\<lambda>a0.
     and_then (strings_of a0 (Query Substring_type)) (\<lambda>s.
     and_then (index_at args 1) (\<lambda>a1.
     and_then (to_f64 a1) (\<lambda>start.
     and_then (if 2 < length args then map_sum id Some (to_f64 (args ! 2)) else Inr None) (\<lambda>count.
     and_then (map_res (\<lambda>i.
       and_then (pick_at s i) (\<lambda>src.
       and_then (pick_at start i) (\<lambda>st.
       and_then (case count of None \<Rightarrow> Inr None | Some c \<Rightarrow> map_sum id Some (pick_at c i)) (\<lambda>cnt.
       Inr (substring src st cnt))))) [0..<n]) (\<lambda>out.
     Inr (Arr_Str out)))))))"

definition trunc_step :: "rstr \<Rightarrow> int option" where
  "trunc_step unit =
     map_of [(str ''second'', 1), (str ''minute'', 60), (str ''hour'', 3600), (str ''day'', 86400)] unit"

definition trunc_to :: "int \<Rightarrow> f64 \<Rightarrow> i64" where
  "trunc_to step x = word_of_int (sint (f64_to_i64 x) div step * step)"

text \<open>Only the first element of the unit argument is looked at.\<close>

definition func_date_trunc :: "(rstr \<Rightarrow> rstr) \<Rightarrow> arr list \<Rightarrow> arr res" where
  "func_date_trunc lower args =
     and_then (index_at args 0) (\<lambda>a0.
     and_then (strings_of a0 (Query Trunc_unit_type)) (\<lambda>unit.
     and_then (index_at args 1) (\<lambda>a1.
     and_then (to_f64 a1) (\<lambda>secs.
     and_then (index_at unit 0) (\<lambda>u.
     and_then (ok_or (trunc_step (lower u)) (Query (Trunc_unit (lower u)))) (\<lambda>step.
     Inr (Arr_I64 (map (trunc_to step) secs))))))))"

definition func_if :: "nat \<Rightarrow> arr list \<Rightarrow> arr res" where
  "func_if n args =
     and_then (index_at args 0) (\<lambda>a0.
     and_then (as_bool a0) (\<lambda>cond.
     and_then (index_at args 1) (\<lambda>a1.
     and_then (index_at args 2) (\<lambda>a2.
     case (a1, a2) of
       (Arr_Str xs, Arr_Str ys) \<Rightarrow>
         and_then (map_res (\<lambda>i.
           and_then (pick_at cond i) (\<lambda>c. if c \<noteq> 0 then pick_at xs i else pick_at ys i)) [0..<n])
         (\<lambda>out. Inr (Arr_Str out))
     | _ \<Rightarrow>
         and_then (to_f64 a1) (\<lambda>xs.
         and_then (to_f64 a2) (\<lambda>ys.
         and_then (map_res (\<lambda>i.
           and_then (pick_at cond i) (\<lambda>c. if c \<noteq> 0 then pick_at xs i else pick_at ys i)) [0..<n])
         (\<lambda>out. Inr (Arr_F64 out))))))))"

definition round_by :: "f64 \<Rightarrow> f64 \<Rightarrow> f64" where
  "round_by k x = f64_div (f64_round (f64_mul x k)) k"

definition func_round :: "arr list \<Rightarrow> arr res" where
  "func_round args =
     and_then (index_at args 0) (\<lambda>a0.
     and_then (to_f64 a0) (\<lambda>v.
     and_then (if 1 < length args
               then map_sum id (\<lambda>ds. f64_to_i32 (case ds of [] \<Rightarrow> 0 | d # _ \<Rightarrow> d)) (to_f64 (args ! 1))
               else Inr 0) (\<lambda>digits.
     (let k = f64_powi (f64_of_int 10) digits in
      Inr (Arr_F64 (map (round_by k) v))))))"

definition sat_abs :: "i64 \<Rightarrow> i64" where
  "sat_abs x = clamp_i64 \<bar>sint x\<bar>"

definition sat_neg :: "i64 \<Rightarrow> i64" where
  "sat_neg x = clamp_i64 (- sint x)"

definition scalar_func :: "(rstr \<Rightarrow> rstr) \<Rightarrow> (rstr \<Rightarrow> rstr) \<Rightarrow> scalar_fn \<Rightarrow> arr list \<Rightarrow> arr res" where
  "scalar_func lower upper fn args =
     (let n = args_len args in
      case fn of
        S_Length \<Rightarrow>
          and_then (index_at args 0) (\<lambda>a.
          and_then (strings_of a (Query (Function_type (arr_type a)))) (\<lambda>s.
          Inr (Arr_I64 (map (\<lambda>x. word_of_nat (length x)) s))))
      | S_Lower \<Rightarrow>
          and_then (index_at args 0) (\<lambda>a.
          and_then (strings_of a (Query (Function_type (arr_type a)))) (\<lambda>s.
          Inr (Arr_Str (map lower s))))
      | S_Upper \<Rightarrow>
          and_then (index_at args 0) (\<lambda>a.
          and_then (strings_of a (Query (Function_type (arr_type a)))) (\<lambda>s.
          Inr (Arr_Str (map upper s))))
      | S_Abs \<Rightarrow>
          and_then (index_at args 0) (\<lambda>a.
          case a of
            Arr_I64 v \<Rightarrow> Inr (Arr_I64 (map sat_abs v))
          | _ \<Rightarrow> and_then (to_f64 a) (\<lambda>v. Inr (Arr_F64 (map f64_abs v))))
      | S_Floor \<Rightarrow>
          and_then (index_at args 0) (\<lambda>a.
          and_then (to_f64 a) (\<lambda>v. Inr (Arr_F64 (map f64_floor v))))
      | S_Ceil \<Rightarrow>
          and_then (index_at args 0) (\<lambda>a.
          and_then (to_f64 a) (\<lambda>v. Inr (Arr_F64 (map f64_ceil v))))
      | S_Sqrt \<Rightarrow>
          and_then (index_at args 0) (\<lambda>a.
          and_then (to_f64 a) (\<lambda>v. Inr (Arr_F64 (map f64_sqrt v))))
      | S_Round \<Rightarrow> func_round args
      | S_Substring \<Rightarrow> func_substring n args
      | S_DateTrunc \<Rightarrow> func_date_trunc lower args
      | S_Coalesce \<Rightarrow>
          and_then (index_at args 0) (\<lambda>a. Inr a)
      | S_If \<Rightarrow> func_if n args
      | _ \<Rightarrow>
          and_then (index_at args 0) (\<lambda>a.
          and_then (to_f64 a) (\<lambda>v.
          Inr (Arr_I64 (map (\<lambda>x. extract_part fn (f64_to_i64 x)) v)))))"

section \<open>Evaluation\<close>

definition eval_lit :: "rvalue \<Rightarrow> arr res" where
  "eval_lit v =
     (case v of
        V_I64 x \<Rightarrow> Inr (Arr_I64 [x])
      | V_F64 x \<Rightarrow> Inr (Arr_F64 [x])
      | V_Bool x \<Rightarrow> Inr (Arr_Bool [bool_byte x])
      | V_Str x \<Rightarrow> Inr (Arr_Str [x])
      | V_Vector _ \<Rightarrow> Inl (Query Vector_literal))"

definition not_u8 :: "u8 \<Rightarrow> u8" where
  "not_u8 x = bool_byte (x = 0)"

definition eval_unary :: "un_op \<Rightarrow> arr \<Rightarrow> arr res" where
  "eval_unary op v =
     (case op of
        U_Not \<Rightarrow> and_then (as_bool v) (\<lambda>bs. Inr (Arr_Bool (map not_u8 bs)))
      | U_Neg \<Rightarrow>
          (case v of
             Arr_I64 xs \<Rightarrow> Inr (Arr_I64 (map sat_neg xs))
           | _ \<Rightarrow> and_then (to_f64 v) (\<lambda>xs. Inr (Arr_F64 (map f64_neg xs)))))"

definition eval_like :: "(rstr \<Rightarrow> rstr) \<Rightarrow> rstr \<Rightarrow> bool \<Rightarrow> bool \<Rightarrow> arr \<Rightarrow> arr res" where
  "eval_like lower pat negated ci v =
     and_then (strings_of v (Query Like_not_string)) (\<lambda>items.
     (let p = compile (if ci then lower pat else pat) in
      Inr (Arr_Bool (map (\<lambda>s. bool_byte (matches_bool p (if ci then lower s else s) \<noteq> negated)) items))))"

text \<open>The mask is as long as the value list; zipping stops at the shorter of the two.\<close>

fun or_masks :: "u8 list \<Rightarrow> u8 list \<Rightarrow> u8 list" where
  "or_masks (m # ms) (b # bs) = or m b # or_masks ms bs"
| "or_masks ms _ = ms"

fun in_list_loop :: "arr \<Rightarrow> rvalue list \<Rightarrow> u8 list \<Rightarrow> u8 list res" where
  "in_list_loop v [] hits = Inr hits"
| "in_list_loop v (lit # lits) hits =
     and_then (eval_lit lit) (\<lambda>x.
     and_then (eval_binary B_Eq v x) (\<lambda>c.
     and_then (as_bool c) (\<lambda>bs.
     in_list_loop v lits (or_masks hits bs))))"

definition eval_in_list :: "rvalue list \<Rightarrow> bool \<Rightarrow> arr \<Rightarrow> arr res" where
  "eval_in_list lits negated v =
     and_then (in_list_loop v lits (replicate (arr_len v) 0)) (\<lambda>hits.
     Inr (Arr_Bool (if negated then map not_u8 hits else hits)))"

definition eval_between :: "bool \<Rightarrow> arr \<Rightarrow> arr res \<Rightarrow> arr res \<Rightarrow> arr res" where
  "eval_between negated v low high =
     and_then low (\<lambda>l.
     and_then (eval_binary B_GtEq v l) (\<lambda>lo.
     and_then high (\<lambda>h.
     and_then (eval_binary B_LtEq v h) (\<lambda>hi.
     and_then (eval_binary B_And lo hi) (\<lambda>m.
     Inr (case m of Arr_Bool bs \<Rightarrow> Arr_Bool (if negated then map not_u8 bs else bs) | _ \<Rightarrow> m))))))"

text \<open>The invariant checked after every node: one value, or one for each row.\<close>

definition checked :: "nat \<Rightarrow> arr res \<Rightarrow> arr res" where
  "checked n r =
     and_then r (\<lambda>a. if arr_len a = n \<or> arr_len a = 1 then Inr a
                     else Inl (Query (Value_count (arr_len a) n)))"

primrec eval :: "(rstr \<Rightarrow> rstr) \<Rightarrow> (rstr \<Rightarrow> rstr) \<Rightarrow> column list \<Rightarrow> sel \<Rightarrow> expr \<Rightarrow> arr res" where
  "eval lower upper f s (E_Col i) =
     checked (sel_len s)
       (if i < length f then gather (f ! i) s else Inl (Query Frame_column))"
| "eval lower upper f s (E_Lit v) = checked (sel_len s) (eval_lit v)"
| "eval lower upper f s (E_Binary op l r) =
     checked (sel_len s)
       (and_then (eval lower upper f s l) (\<lambda>x.
        and_then (eval lower upper f s r) (\<lambda>y. eval_binary op x y)))"
| "eval lower upper f s (E_Unary op e) =
     checked (sel_len s) (and_then (eval lower upper f s e) (eval_unary op))"
| "eval lower upper f s (E_Like e pat negated ci) =
     checked (sel_len s) (and_then (eval lower upper f s e) (eval_like lower pat negated ci))"
| "eval lower upper f s (E_InList e lits negated) =
     checked (sel_len s) (and_then (eval lower upper f s e) (eval_in_list lits negated))"
| "eval lower upper f s (E_Between e lo hi negated) =
     checked (sel_len s)
       (and_then (eval lower upper f s e) (\<lambda>v.
        eval_between negated v (eval lower upper f s lo) (eval lower upper f s hi)))"
| "eval lower upper f s (E_Func fn args) =
     checked (sel_len s)
       (and_then (map_res (\<lambda>r. r) (map (eval lower upper f s) args)) (scalar_func lower upper fn))"
| "eval lower upper f s (E_Distance m c q) =
     checked (sel_len s)
       (if c < length f then and_then (distances (f ! c) s m q) (\<lambda>xs. Inr (Arr_F64 xs))
        else Inl (Query Frame_column))"
| "eval lower upper f s (E_Agg fn arg d) = checked (sel_len s) (Inl (Query Aggregate_here))"
| "eval lower upper f s (E_Cast e ty) =
     checked (sel_len s) (and_then (eval lower upper f s e) (\<lambda>v. cast v ty))"

end
