(* ===== verification/Select.thy ===== *)
theory Select
  imports Exec
begin

text \<open>
  \<open>exec.rs\<close>, execution of a \<open>SELECT\<close>: the rows that satisfy \<open>WHERE\<close>, grouping and aggregates over
  an intermediate frame, \<open>HAVING\<close>, \<open>ORDER BY\<close> with \<open>LIMIT\<close> and \<open>OFFSET\<close>, projection. Row numbers are
  cut to \<open>u32\<close> where the source does so. \<open>hash\<close> is the hash of a string by \<open>rustc_hash\<close>.
\<close>


section \<open>Results\<close>

record query_result =
  qcolumns :: "rstr list"
  qtypes :: "data_type list"
  qrows :: "rvalue list list"

definition message :: "rstr \<Rightarrow> query_result" where
  "message text = \<lparr>qcolumns = [str ''result''], qtypes = [DT_Str], qrows = [[V_Str text]]\<rparr>"

section \<open>Ordering\<close>

definition cmp_u8 :: "u8 \<Rightarrow> u8 \<Rightarrow> ordering" where
  "cmp_u8 a b = cmp_int (uint a) (uint b)"

definition cmp_nat :: "nat \<Rightarrow> nat \<Rightarrow> ordering" where
  "cmp_nat a b = cmp_int (int a) (int b)"

text \<open>\<open>cmp_arr\<close> indexes the array without broadcasting.\<close>

definition cmp_at :: "('a \<Rightarrow> 'a \<Rightarrow> ordering) \<Rightarrow> 'a list \<Rightarrow> nat \<Rightarrow> nat \<Rightarrow> ordering res" where
  "cmp_at c v i j = and_then (index_at v i) (\<lambda>x. and_then (index_at v j) (\<lambda>y. Inr (c x y)))"

definition cmp_arr :: "arr \<Rightarrow> nat \<Rightarrow> nat \<Rightarrow> ordering res" where
  "cmp_arr a i j =
     (case a of
        Arr_I64 v \<Rightarrow> cmp_at cmp_i64 v i j
      | Arr_F64 v \<Rightarrow> cmp_at f64_total_cmp v i j
      | Arr_Bool v \<Rightarrow> cmp_at cmp_u8 v i j
      | Arr_Str v \<Rightarrow> cmp_at cmp_str v i j
      | Arr_Vector _ _ \<Rightarrow> Inr Equal)"

text \<open>The comparison of two rows: the first key that differs decides, then the position.\<close>

fun cmp_rows :: "(arr \<times> bool) list \<Rightarrow> nat \<Rightarrow> nat \<Rightarrow> ordering res" where
  "cmp_rows [] a b = Inr (cmp_nat a b)"
| "cmp_rows ((k, up) # ks) a b =
     and_then (cmp_arr k a b) (\<lambda>c.
     if c \<noteq> Equal then Inr (if up then c else reverse c) else cmp_rows ks a b)"

text \<open>
  Sorting: the comparison is total on positions, so the sorted order is unique and any algorithm
  computes it. A comparison that panics is taken to be reached if it is one of the pairs.
\<close>

definition row_less :: "(arr \<times> bool) list \<Rightarrow> nat \<Rightarrow> nat \<Rightarrow> bool" where
  "row_less ks a b \<longleftrightarrow> cmp_rows ks a b = Inr Less"

definition compare_pair :: "(arr \<times> bool) list \<Rightarrow> nat \<times> nat \<Rightarrow> ordering res" where
  "compare_pair ks p = (case p of (a, b) \<Rightarrow> if a = b then Inr Equal else cmp_rows ks a b)"

definition compare_pairs :: "(arr \<times> bool) list \<Rightarrow> nat list \<Rightarrow> unit res" where
  "compare_pairs ks idx =
     and_then (map_res (compare_pair ks) (List.product idx idx)) (\<lambda>_. Inr ())"

fun insort_by :: "('a \<Rightarrow> 'a \<Rightarrow> bool) \<Rightarrow> 'a \<Rightarrow> 'a list \<Rightarrow> 'a list" where
  "insort_by lt x [] = [x]"
| "insort_by lt x (y # ys) = (if lt y x then y # insort_by lt x ys else x # y # ys)"

definition sort_by :: "('a \<Rightarrow> 'a \<Rightarrow> bool) \<Rightarrow> 'a list \<Rightarrow> 'a list" where
  "sort_by lt xs = foldr (insort_by lt) xs []"

text \<open>
  \<open>select_nth_unstable_by\<close>: the element that belongs at position \<open>k\<close> is put there, the smaller
  ones before it and the larger ones behind.
\<close>

definition select_nth_by :: "('a \<Rightarrow> 'a \<Rightarrow> bool) \<Rightarrow> nat \<Rightarrow> 'a list \<Rightarrow> 'a list" where
  "select_nth_by lt k xs =
     (let p = sort_by lt xs ! k
      in filter (\<lambda>x. lt x p) xs @ filter (\<lambda>x. \<not> lt x p \<and> \<not> lt p x) xs @ filter (\<lambda>x. lt p x) xs)"

text \<open>Addition of \<open>usize\<close> values wraps around in a release build.\<close>

definition usize_add :: "nat \<Rightarrow> nat \<Rightarrow> nat" where
  "usize_add a b = (a + b) mod 2 ^ 64"

definition as_u32 :: "nat \<Rightarrow> nat" where
  "as_u32 n = n mod 2 ^ 32"

definition cut_end :: "nat option \<Rightarrow> nat \<Rightarrow> nat \<Rightarrow> nat" where
  "cut_end lim start n = (case lim of None \<Rightarrow> n | Some l \<Rightarrow> min (usize_add start l) n)"

definition sorted_positions :: "(arr \<times> bool) list \<Rightarrow> nat option \<Rightarrow> nat \<Rightarrow> nat \<Rightarrow> nat list" where
  "sorted_positions ks lim off n =
     (let idx = [0 ..< as_u32 n] in
      case lim of
        None \<Rightarrow> sort_by (row_less ks) idx
      | Some l \<Rightarrow>
          (let k = min (usize_add off l) n in
           if k * 4 < n then sort_by (row_less ks) (take k (select_nth_by (row_less ks) k idx))
           else sort_by (row_less ks) idx))"

definition order_and_limit ::
  "(rstr \<Rightarrow> rstr) \<Rightarrow> (rstr \<Rightarrow> rstr) \<Rightarrow> column list \<Rightarrow> sel \<Rightarrow> order_key list \<Rightarrow> nat option \<Rightarrow> nat \<Rightarrow> sel res" where
  "order_and_limit lower upper frame s keys lim off =
     (if keys = [] then
        (let n = sel_len s; start = min off n; fin = cut_end lim start n in
         if start = 0 \<and> fin = n then Inr s
         else permute s [as_u32 start ..< as_u32 fin])
      else
        and_then (map_res (\<lambda>k. eval lower upper frame s (key_expr k)) keys) (\<lambda>arrays.
        (let ks = zip arrays (map asc keys); n = sel_len s in
         and_then (compare_pairs ks [0 ..< as_u32 n]) (\<lambda>_.
         (let idx = sorted_positions ks lim off n;
              start = min off (length idx);
              fin = cut_end lim start (length idx)
          in and_then (slice idx start fin) (permute s))))))"

section \<open>Groups\<close>

definition key_bytes :: "arr \<Rightarrow> nat \<Rightarrow> u8 list res" where
  "key_bytes k i =
     (case k of
        Arr_I64 v \<Rightarrow> and_then (pick_at v i) (\<lambda>x. Inr (nat_to_le 8 (unat x)))
      | Arr_F64 v \<Rightarrow> and_then (pick_at v i) (\<lambda>x. Inr (nat_to_le 8 (unat x)))
      | Arr_Bool v \<Rightarrow> and_then (pick_at v i) (\<lambda>x. Inr [x])
      | Arr_Str v \<Rightarrow>
          and_then (pick_at v i) (\<lambda>x. Inr (nat_to_le 4 (str_bytes_len x mod 2 ^ 32) @ utf8 x))
      | Arr_Vector _ _ \<Rightarrow> Inl (Query Group_by_vector))"

definition row_key :: "arr list \<Rightarrow> nat \<Rightarrow> u8 list res" where
  "row_key keys i = and_then (map_res (\<lambda>k. key_bytes k i) keys) (\<lambda>bs. Inr (concat bs))"

text \<open>The loop over the rows: the hash map is a finite map with its number of entries.\<close>

fun group_loop ::
  "arr list \<Rightarrow> nat list \<Rightarrow> (u8 list \<Rightarrow> u32 option) \<Rightarrow> nat \<Rightarrow> u32 list \<Rightarrow> (u32 list \<times> nat) res" where
  "group_loop keys [] seen count acc = Inr (acc, count)"
| "group_loop keys (i # is) seen count acc =
     and_then (row_key keys i) (\<lambda>buf.
     case seen buf of
       Some g \<Rightarrow> group_loop keys is seen count (acc @ [g])
     | None \<Rightarrow>
         group_loop keys is (seen(buf \<mapsto> word_of_nat count)) (count + 1) (acc @ [word_of_nat count]))"

definition assign_groups :: "arr list \<Rightarrow> nat \<Rightarrow> (u32 list \<times> nat) res" where
  "assign_groups keys n =
     (if keys = [] then Inr (replicate n 0, 1)
      else group_loop keys [0..<n] (\<lambda>_. None) 0 [])"

fun first_loop :: "nat \<Rightarrow> nat \<Rightarrow> u32 list \<Rightarrow> nat option list \<Rightarrow> nat option list res" where
  "first_loop len row [] src = Inr src"
| "first_loop len row (g # gs) src =
     and_then (index_at src (unat g)) (\<lambda>s.
     first_loop len (row + 1) gs
       (if s = None then src[unat g := Some (at len row)] else src))"

definition pick_rows :: "'a list \<Rightarrow> nat option list \<Rightarrow> 'a list res" where
  "pick_rows v src =
     map_res (\<lambda>s. case s of None \<Rightarrow> Inl (Panic ''index out of bounds'') | Some i \<Rightarrow> index_at v i) src"

definition pick_first_per_group :: "arr \<Rightarrow> u32 list \<Rightarrow> nat \<Rightarrow> arr res" where
  "pick_first_per_group a group_of ngroups =
     and_then (first_loop (arr_len a) 0 group_of (replicate ngroups None)) (\<lambda>src.
     case a of
       Arr_I64 v \<Rightarrow> and_then (pick_rows v src) (\<lambda>x. Inr (Arr_I64 x))
     | Arr_F64 v \<Rightarrow> and_then (pick_rows v src) (\<lambda>x. Inr (Arr_F64 x))
     | Arr_Bool v \<Rightarrow> and_then (pick_rows v src) (\<lambda>x. Inr (Arr_Bool x))
     | Arr_Str v \<Rightarrow> and_then (pick_rows v src) (\<lambda>x. Inr (Arr_Str x))
     | Arr_Vector dim rows \<Rightarrow> and_then (pick_rows rows src) (\<lambda>x. Inr (Arr_Vector dim x)))"

section \<open>Aggregates\<close>

text \<open>One pass over the rows \<open>is\<close>, updating the accumulator of each row's group.\<close>

fun accumulate :: "(nat \<Rightarrow> 'a \<Rightarrow> 'a res) \<Rightarrow> u32 list \<Rightarrow> nat list \<Rightarrow> 'a list \<Rightarrow> 'a list res" where
  "accumulate f group_of [] acc = Inr acc"
| "accumulate f group_of (i # is) acc =
     and_then (index_at group_of i) (\<lambda>g.
     and_then (index_at acc (unat g)) (\<lambda>a.
     and_then (f i a) (\<lambda>a'.
     accumulate f group_of is (acc[unat g := a']))))"

definition count_rows :: "nat \<Rightarrow> u32 list \<Rightarrow> nat \<Rightarrow> column res" where
  "count_rows n group_of ngroups =
     and_then (accumulate (\<lambda>_ c. Inr (c + 1)) group_of [0 ..< min n (length group_of)]
                 (replicate ngroups (0 :: i64)))
       (\<lambda>counts. Inr (C_I64 counts))"

text \<open>\<open>hash\<close> is the hash of a string by \<open>rustc_hash\<close>.\<close>

definition value_key :: "(rstr \<Rightarrow> u64) \<Rightarrow> arr \<Rightarrow> nat \<Rightarrow> u64 res" where
  "value_key hash a i =
     (case a of
        Arr_I64 v \<Rightarrow> index_at v i
      | Arr_F64 v \<Rightarrow> index_at v i
      | Arr_Bool v \<Rightarrow> and_then (index_at v i) (\<lambda>b. Inr (ucast b))
      | Arr_Str v \<Rightarrow> and_then (index_at v i) (\<lambda>s. Inr (hash s))
      | Arr_Vector _ _ \<Rightarrow> Inr 0)"

definition count_distinct :: "(rstr \<Rightarrow> u64) \<Rightarrow> arr \<Rightarrow> nat \<Rightarrow> u32 list \<Rightarrow> nat \<Rightarrow> column res" where
  "count_distinct hash v n group_of ngroups =
     and_then (accumulate
         (\<lambda>i set'. and_then (value_key hash v (at (arr_len v) i)) (\<lambda>k. Inr (List.insert k set')))
         group_of [0..<n] (replicate ngroups []))
       (\<lambda>sets. Inr (C_I64 (map (\<lambda>s. word_of_nat (length s)) sets)))"

text \<open>The running extremum: nothing yet, or the value \<open>better\<close> keeps.\<close>

definition keep :: "('a \<Rightarrow> 'a \<Rightarrow> 'a) \<Rightarrow> 'a \<Rightarrow> 'a option \<Rightarrow> 'a option" where
  "keep better x cur = Some (case cur of None \<Rightarrow> x | Some c \<Rightarrow> better c x)"

definition extremum :: "('a \<Rightarrow> 'a \<Rightarrow> 'a) \<Rightarrow> 'a list \<Rightarrow> nat \<Rightarrow> u32 list \<Rightarrow> nat \<Rightarrow> 'a option list res" where
  "extremum better x n group_of ngroups =
     accumulate (\<lambda>i cur. and_then (pick_at x i) (\<lambda>v. Inr (keep better v cur)))
       group_of [0..<n] (replicate ngroups None)"

definition better_str :: "bool \<Rightarrow> rstr \<Rightarrow> rstr \<Rightarrow> rstr" where
  "better_str is_min cur s = (if (cmp_str s cur = Less) = is_min then s else cur)"

definition better_i64 :: "bool \<Rightarrow> i64 \<Rightarrow> i64 \<Rightarrow> i64" where
  "better_i64 is_min cur v =
     (if is_min then if sint v < sint cur then v else cur
      else if sint cur < sint v then v else cur)"

definition better_f64 :: "bool \<Rightarrow> f64 \<Rightarrow> f64 \<Rightarrow> f64" where
  "better_f64 is_min cur v = (if is_min then f64_min cur v else f64_max cur v)"

definition or_default :: "'a \<Rightarrow> 'a option \<Rightarrow> 'a" where
  "or_default d x = (case x of None \<Rightarrow> d | Some v \<Rightarrow> v)"

definition agg_min_max :: "bool \<Rightarrow> arr \<Rightarrow> nat \<Rightarrow> u32 list \<Rightarrow> nat \<Rightarrow> column res" where
  "agg_min_max is_min v n group_of ngroups =
     (case v of
        Arr_Str x \<Rightarrow>
          and_then (extremum (better_str is_min) x n group_of ngroups) (\<lambda>acc.
          Inr (C_Str (foldl str_push str_new (map (or_default []) acc))))
      | Arr_I64 x \<Rightarrow>
          and_then (extremum (better_i64 is_min) x n group_of ngroups) (\<lambda>acc.
          Inr (C_I64 (map (or_default 0) acc)))
      | _ \<Rightarrow>
          and_then (to_f64 v) (\<lambda>x.
          and_then (extremum (better_f64 is_min) x n group_of ngroups) (\<lambda>acc.
          Inr (C_F64 (map (or_default 0) acc)))))"

definition agg_sum :: "arr \<Rightarrow> nat \<Rightarrow> u32 list \<Rightarrow> nat \<Rightarrow> column res" where
  "agg_sum v n group_of ngroups =
     (case v of
        Arr_I64 x \<Rightarrow>
          and_then (accumulate (\<lambda>i a. and_then (pick_at x i) (\<lambda>y. Inr (sat_add a y)))
             group_of [0..<n] (replicate ngroups 0)) (\<lambda>acc. Inr (C_I64 acc))
      | _ \<Rightarrow>
          and_then (to_f64 v) (\<lambda>x.
          and_then (accumulate (\<lambda>i a. and_then (pick_at x i) (\<lambda>y. Inr (f64_add a y)))
             group_of [0..<n] (replicate ngroups 0)) (\<lambda>acc. Inr (C_F64 acc))))"

definition agg_avg :: "arr \<Rightarrow> nat \<Rightarrow> u32 list \<Rightarrow> nat \<Rightarrow> column res" where
  "agg_avg v n group_of ngroups =
     and_then (to_f64 v) (\<lambda>x.
     and_then (accumulate
         (\<lambda>i (s, c). and_then (pick_at x i) (\<lambda>y. Inr (f64_add s y, f64_add c (f64_of_int 1))))
         group_of [0..<n] (replicate ngroups (0, 0)))
       (\<lambda>acc. Inr (C_F64 (map (\<lambda>(s, c). if f64_eq c 0 then 0 else f64_div s c) acc))))"

definition run_agg ::
  "(rstr \<Rightarrow> rstr) \<Rightarrow> (rstr \<Rightarrow> rstr) \<Rightarrow> (rstr \<Rightarrow> u64) \<Rightarrow> expr \<Rightarrow> column list \<Rightarrow> sel \<Rightarrow> u32 list \<Rightarrow> nat \<Rightarrow>
   column res" where
  "run_agg lower upper hash agg base s group_of ngroups =
     (case agg of
        E_Agg fn arg distinct' \<Rightarrow>
          (let n = sel_len s in
           case arg of
             None \<Rightarrow> count_rows n group_of ngroups
           | Some e \<Rightarrow>
               and_then (eval lower upper base s e) (\<lambda>v.
               if distinct' then count_distinct hash v n group_of ngroups
               else
                 case fn of
                   A_Count \<Rightarrow> count_rows n group_of ngroups
                 | A_Sum \<Rightarrow> agg_sum v n group_of ngroups
                 | A_Avg \<Rightarrow> agg_avg v n group_of ngroups
                 | A_Min \<Rightarrow> agg_min_max True v n group_of ngroups
                 | A_Max \<Rightarrow> agg_min_max False v n group_of ngroups))
      | _ \<Rightarrow> Inl (Query Not_an_aggregate))"

record grouped =
  gcolumns :: "column list"
  ngroups :: nat
  gprojections :: "projection list"
  gorder_by :: "order_key list"
  ghaving :: "expr option"

text \<open>The aggregates of an expression that the list does not have yet.\<close>

definition collect_visitor :: "expr \<Rightarrow> expr list \<Rightarrow> expr list \<times> bool" where
  "collect_visitor e aggs =
     (if is_agg e then (if list_ex (\<lambda>a. expr_eq a e) aggs then aggs else aggs @ [e], True)
      else (aggs, False))"

definition collect_aggs :: "select \<Rightarrow> expr list" where
  "collect_aggs plan =
     (let es = map proj_expr (projections plan) @ map key_expr (order_by plan) @
               (case having plan of None \<Rightarrow> [] | Some h \<Rightarrow> [h])
      in foldl (\<lambda>aggs e. walk collect_visitor e aggs) [] es)"

definition bad_visitor :: "nat \<Rightarrow> expr \<Rightarrow> bool \<Rightarrow> bool \<times> bool" where
  "bad_visitor ncols e bad =
     (let bad' = (bad \<or> (case e of E_Col i \<Rightarrow> ncols \<le> i | _ \<Rightarrow> False)) in (bad', bad'))"

definition group_pats :: "expr list \<Rightarrow> expr list \<Rightarrow> (expr \<times> expr) list" where
  "group_pats aggs keys =
     zip aggs (map (\<lambda>i. E_Col (length keys + i)) [0..<length aggs]) @
     zip keys (map E_Col [0..<length keys])"

definition check_projections :: "nat \<Rightarrow> projection list \<Rightarrow> unit res" where
  "check_projections ncols ps =
     (case find (\<lambda>p. walk (bad_visitor ncols) (proj_expr p) False) ps of
        None \<Rightarrow> Inr ()
      | Some p \<Rightarrow> Inl (Query (Not_grouped (proj_alias p))))"

text \<open>Above 65536 rows the aggregates are computed in parallel, each as here.\<close>

definition aggregate ::
  "(rstr \<Rightarrow> rstr) \<Rightarrow> (rstr \<Rightarrow> rstr) \<Rightarrow> (rstr \<Rightarrow> u64) \<Rightarrow> select \<Rightarrow> column list \<Rightarrow> sel \<Rightarrow> grouped res" where
  "aggregate lower upper hash plan base s =
     and_then (map_res (eval lower upper base s) (group_by plan)) (\<lambda>key_arrays.
     and_then (assign_groups key_arrays (sel_len s)) (\<lambda>(group_of, n).
     (let aggs = collect_aggs plan in
      and_then (map_res (\<lambda>a. and_then (pick_first_per_group a group_of n) (\<lambda>x. Inr (into_column x)))
                  key_arrays) (\<lambda>kcols.
      and_then (map_res (\<lambda>a. run_agg lower upper hash a base s group_of n) aggs) (\<lambda>acols.
      (let cols = kcols @ acols; rw = substitute (group_pats aggs (group_by plan));
           ps = map (\<lambda>p. p\<lparr>proj_expr := rw (proj_expr p)\<rparr>) (projections plan);
           os = map (\<lambda>k. k\<lparr>key_expr := rw (key_expr k)\<rparr>) (order_by plan)
       in and_then (check_projections (length cols) ps) (\<lambda>_.
          Inr \<lparr>gcolumns = cols, ngroups = n, gprojections = ps, gorder_by = os,
               ghaving = map_option rw (having plan)\<rparr>)))))))"

section \<open>Queries\<close>

text \<open>A mask over the rows of a selection: constant, or one entry per row.\<close>

definition apply_mask :: "sel \<Rightarrow> u8 list \<Rightarrow> sel res" where
  "apply_mask s bs =
     (if length bs = 1 then Inr (if bs ! 0 \<noteq> 0 then s else Ids [])
      else
        and_then (map_res (\<lambda>i. and_then (index_at bs i) (\<lambda>b. Inr (i, b \<noteq> 0))) [0..<sel_len s]) (\<lambda>hits.
        and_then (map_res (\<lambda>(i, _). and_then (sel_row s i) (\<lambda>r. Inr (word_of_nat r))) (filter snd hits)) (\<lambda>ids.
        Inr (Ids ids))))"

definition where_rows ::
  "(rstr \<Rightarrow> rstr) \<Rightarrow> (rstr \<Rightarrow> rstr) \<Rightarrow> column list \<Rightarrow> nat \<Rightarrow> expr option \<Rightarrow> sel res" where
  "where_rows lower upper base size0 flt =
     (case flt of
        None \<Rightarrow> Inr (All size0)
      | Some f \<Rightarrow>
          and_then (eval lower upper base (All size0) f) (\<lambda>m.
          and_then (with_context ''WHERE'' (as_bool m)) (\<lambda>bs.
          if length bs = 1 then Inr (if bs ! 0 \<noteq> 0 then All size0 else Ids [])
          else Inr (Ids (map (\<lambda>(i, _). word_of_nat i) (filter (\<lambda>(_, b). b \<noteq> 0) (enumerate 0 bs)))))))"

definition having_rows ::
  "(rstr \<Rightarrow> rstr) \<Rightarrow> (rstr \<Rightarrow> rstr) \<Rightarrow> column list \<Rightarrow> sel \<Rightarrow> expr option \<Rightarrow> sel res" where
  "having_rows lower upper frame s hav =
     (case hav of
        None \<Rightarrow> Inr s
      | Some h \<Rightarrow>
          and_then (eval lower upper frame s h) (\<lambda>m.
          and_then (with_context ''HAVING'' (as_bool m)) (apply_mask s)))"

definition result_rows :: "arr list \<Rightarrow> nat \<Rightarrow> rvalue list list res" where
  "result_rows arrays n = map_res (\<lambda>i. map_res (\<lambda>a. arr_value a i) arrays) [0..<n]"

definition run_select ::
  "(rstr \<Rightarrow> rstr) \<Rightarrow> (rstr \<Rightarrow> rstr) \<Rightarrow> (rstr \<Rightarrow> u64) \<Rightarrow> select \<Rightarrow> table option \<Rightarrow> query_result res" where
  "run_select lower upper hash plan tab =
     (let base = (case tab of None \<Rightarrow> [] | Some t \<Rightarrow> columns t);
          n = (case tab of None \<Rightarrow> 1 | Some t \<Rightarrow> nrows t)
      in
      and_then (where_rows lower upper base n (sel_filter plan)) (\<lambda>s0.
      and_then
        (if is_aggregate plan
         then and_then (aggregate lower upper hash plan base s0) (\<lambda>g.
              Inr (gcolumns g, All (ngroups g), gprojections g, gorder_by g, ghaving g))
         else Inr (base, s0, projections plan, order_by plan, None))
        (\<lambda>(frame, s1, ps, os, hav).
      and_then (having_rows lower upper frame s1 hav) (\<lambda>s2.
      and_then (order_and_limit lower upper frame s2 os (limit plan) (offset plan)) (\<lambda>s3.
      and_then (map_res (\<lambda>p. eval lower upper frame s3 (proj_expr p)) ps) (\<lambda>arrays.
      and_then (result_rows arrays (sel_len s3)) (\<lambda>rows.
      Inr \<lparr>qcolumns = map proj_alias ps, qtypes = map arr_type arrays, qrows = rows\<rparr>)))))))"

end
