(* ===== verification/Codec.thy ===== *)
theory Codec
  imports Table
begin

unbundle bit_operations_syntax

text \<open>
  \<open>codec.rs\<close>: the binary format of snapshots, of the WAL and of replication. A method of
  \<open>Writer\<close> only appends to its buffer, so it is modelled by the bytes it appends; a \<open>Reader\<close>
  is modelled by the bytes it has not consumed (\<open>data[pos..]\<close>), and a read returns the value
  with the bytes that are left. Lengths are 64-bit words on disk and the products \<open>n * 8\<close>
  and \<open>n * 4\<close> wrap as in a release build. The locale \<open>byte_codec\<close> states what a pair of a
  writer and a reader promises; every pair of the format is an interpretation of it.
\<close>

section \<open>Writer\<close>

definition w_u8 :: "u8 \<Rightarrow> u8 list" where
  "w_u8 v = [v]"

definition w_u32 :: "u32 \<Rightarrow> u8 list" where
  "w_u32 v = nat_to_le 4 (unat v)"

definition w_u64 :: "u64 \<Rightarrow> u8 list" where
  "w_u64 v = nat_to_le 8 (unat v)"

definition w_i64 :: "i64 \<Rightarrow> u8 list" where
  "w_i64 v = nat_to_le 8 (unat v)"

definition w_f64 :: "f64 \<Rightarrow> u8 list" where
  "w_f64 v = nat_to_le 8 (unat v)"

definition w_f32 :: "f32 \<Rightarrow> u8 list" where
  "w_f32 v = nat_to_le 4 (unat v)"

definition w_bytes :: "u8 list \<Rightarrow> u8 list" where
  "w_bytes v = w_u64 (word_of_nat (length v)) @ v"

definition w_str :: "rstr \<Rightarrow> u8 list" where
  "w_str v = w_bytes (utf8 v)"

text \<open>\<open>raw\<close>: the number of elements, then the memory of the slice, element by element.\<close>

definition w_raw :: "('a \<Rightarrow> u8 list) \<Rightarrow> 'a list \<Rightarrow> u8 list" where
  "w_raw mem v = w_u64 (word_of_nat (length v)) @ concat (map mem v)"

definition w_data_type :: "data_type \<Rightarrow> u8 list" where
  "w_data_type ty =
     (case ty of
        DT_I64 \<Rightarrow> w_u8 1
      | DT_F64 \<Rightarrow> w_u8 2
      | DT_Bool \<Rightarrow> w_u8 3
      | DT_Str \<Rightarrow> w_u8 4
      | DT_Vector d \<Rightarrow> w_u8 5 @ w_u64 d)"

definition w_field :: "field \<Rightarrow> u8 list" where
  "w_field f = w_str (fname f) @ w_data_type (fty f)"

definition w_schema :: "schema \<Rightarrow> u8 list" where
  "w_schema s = w_u64 (word_of_nat (length (sfields s))) @ concat (map w_field (sfields s))"

definition w_value :: "rvalue \<Rightarrow> u8 list" where
  "w_value v =
     (case v of
        V_I64 x \<Rightarrow> w_i64 x
      | V_F64 x \<Rightarrow> w_f64 x
      | V_Bool x \<Rightarrow> w_u8 (bool_byte x)
      | V_Str x \<Rightarrow> w_str x
      | V_Vector x \<Rightarrow> w_raw w_f32 x)"

definition w_column :: "column \<Rightarrow> u8 list" where
  "w_column c =
     (case c of
        C_I64 v \<Rightarrow> w_raw w_i64 v
      | C_F64 v \<Rightarrow> w_raw w_f64 v
      | C_Bool v \<Rightarrow> w_raw w_u8 v
      | C_Vector dim data \<Rightarrow> w_u64 dim @ w_raw w_f32 data
      | C_Str s \<Rightarrow> w_raw w_u32 (offsets s) @ w_bytes (buf s))"

section \<open>Reader\<close>

type_synonym 'a reader = "u8 list \<Rightarrow> ('a \<times> u8 list) res"

definition r_take :: "nat \<Rightarrow> u8 list reader" where
  "r_take n bs =
     (if length bs < n then Inl (Data_ends n (length bs)) else Inr (take n bs, drop n bs))"

definition r_u8 :: "u8 reader" where
  "r_u8 bs = and_then (r_take 1 bs) (\<lambda>(b, r). Inr (hd b, r))"

definition r_u32 :: "u32 reader" where
  "r_u32 bs = and_then (r_take 4 bs) (\<lambda>(b, r). Inr (word_of_nat (nat_of_le b), r))"

definition r_u64 :: "u64 reader" where
  "r_u64 bs = and_then (r_take 8 bs) (\<lambda>(b, r). Inr (word_of_nat (nat_of_le b), r))"

definition r_i64 :: "i64 reader" where
  "r_i64 bs = and_then (r_take 8 bs) (\<lambda>(b, r). Inr (word_of_nat (nat_of_le b), r))"

definition r_f64 :: "f64 reader" where
  "r_f64 bs = and_then (r_take 8 bs) (\<lambda>(b, r). Inr (word_of_nat (nat_of_le b), r))"

definition r_bytes :: "u8 list reader" where
  "r_bytes bs = and_then (r_u64 bs) (\<lambda>(n, r). r_take (unat n) r)"

definition r_str :: "rstr reader" where
  "r_str bs =
     and_then (r_bytes bs) (\<lambda>(b, r).
     and_then (ok_or (from_utf8 b) Not_utf8) (\<lambda>s. Inr (s, r)))"

text \<open>\<open>chunks_exact\<close>: full chunks only, a shorter rest is dropped.\<close>

function chunks_exact :: "nat \<Rightarrow> 'a list \<Rightarrow> 'a list list" where
  "chunks_exact k xs =
     (if k = 0 \<or> length xs < k then [] else take k xs # chunks_exact k (drop k xs))"
  by pat_completeness auto
termination
  by (relation "measure (\<lambda>(k, xs). length xs)") auto

declare chunks_exact.simps [simp del]

text \<open>The four \<open>raw_*\<close> readers: a count, \<open>n * width\<close> bytes (a wrapping product), the chunks.\<close>

definition r_raw :: "usize \<Rightarrow> (u8 list \<Rightarrow> 'a) \<Rightarrow> 'a list reader" where
  "r_raw width elem bs =
     and_then (r_u64 bs) (\<lambda>(n, r).
     and_then (r_take (unat (n * width)) r) (\<lambda>(b, r').
     Inr (map elem (chunks_exact (unat width) b), r')))"

definition r_raw_i64 :: "i64 list reader" where
  "r_raw_i64 = r_raw 8 (\<lambda>c. word_of_nat (nat_of_le c))"

definition r_raw_f64 :: "f64 list reader" where
  "r_raw_f64 = r_raw 8 (\<lambda>c. word_of_nat (nat_of_le c))"

definition r_raw_f32 :: "f32 list reader" where
  "r_raw_f32 = r_raw 4 (\<lambda>c. word_of_nat (nat_of_le c))"

definition r_raw_u32 :: "u32 list reader" where
  "r_raw_u32 = r_raw 4 (\<lambda>c. word_of_nat (nat_of_le c))"

definition r_raw_u8 :: "u8 list reader" where
  "r_raw_u8 bs = and_then (r_u64 bs) (\<lambda>(n, r). r_take (unat n) r)"

definition r_data_type :: "data_type reader" where
  "r_data_type bs =
     and_then (r_u8 bs) (\<lambda>(c, r).
     if c = 1 then Inr (DT_I64, r)
     else if c = 2 then Inr (DT_F64, r)
     else if c = 3 then Inr (DT_Bool, r)
     else if c = 4 then Inr (DT_Str, r)
     else if c = 5 then and_then (r_u64 r) (\<lambda>(d, r'). Inr (DT_Vector d, r'))
     else Inl (Bad_type_code c))"

text \<open>\<open>n\<close> reads in a row, stopping at the first error.\<close>

fun r_many :: "nat \<Rightarrow> 'a reader \<Rightarrow> 'a list reader" where
  "r_many 0 f bs = Inr ([], bs)"
| "r_many (Suc n) f bs =
     and_then (f bs) (\<lambda>(x, r). and_then (r_many n f r) (\<lambda>(xs, r'). Inr (x # xs, r')))"

definition r_field :: "field reader" where
  "r_field bs =
     and_then (r_str bs) (\<lambda>(n, r).
     and_then (r_data_type r) (\<lambda>(ty, r'). Inr (\<lparr>fname = n, fty = ty\<rparr>, r')))"

definition r_schema :: "schema reader" where
  "r_schema bs =
     and_then (r_u64 bs) (\<lambda>(n, r).
     and_then (r_many (unat n) r_field r) (\<lambda>(fs, r'). Inr (\<lparr>sfields = fs\<rparr>, r')))"

definition r_value :: "data_type \<Rightarrow> rvalue reader" where
  "r_value ty bs =
     (case ty of
        DT_I64 \<Rightarrow> and_then (r_i64 bs) (\<lambda>(x, r). Inr (V_I64 x, r))
      | DT_F64 \<Rightarrow> and_then (r_f64 bs) (\<lambda>(x, r). Inr (V_F64 x, r))
      | DT_Bool \<Rightarrow> and_then (r_u8 bs) (\<lambda>(x, r). Inr (V_Bool (x \<noteq> 0), r))
      | DT_Str \<Rightarrow> and_then (r_str bs) (\<lambda>(x, r). Inr (V_Str x, r))
      | DT_Vector dim \<Rightarrow>
          and_then (r_raw_f32 bs) (\<lambda>(v, r).
          if length v \<noteq> unat dim then Inl (Value_vector_len (length v) dim)
          else Inr (V_Vector v, r)))"

definition r_column :: "data_type \<Rightarrow> column reader" where
  "r_column ty bs =
     (case ty of
        DT_I64 \<Rightarrow> and_then (r_raw_i64 bs) (\<lambda>(v, r). Inr (C_I64 v, r))
      | DT_F64 \<Rightarrow> and_then (r_raw_f64 bs) (\<lambda>(v, r). Inr (C_F64 v, r))
      | DT_Bool \<Rightarrow> and_then (r_raw_u8 bs) (\<lambda>(v, r). Inr (C_Bool v, r))
      | DT_Str \<Rightarrow>
          and_then (r_raw_u32 bs) (\<lambda>(os, r).
          and_then (r_bytes r) (\<lambda>(b, r').
          and_then (str_from_parts b os) (\<lambda>s. Inr (C_Str s, r'))))
      | DT_Vector dim \<Rightarrow>
          and_then (r_u64 bs) (\<lambda>(stored_dim, r).
          if stored_dim \<noteq> dim then Inl (Snapshot_vector_dim stored_dim dim)
          else and_then (r_raw_f32 r) (\<lambda>(data, r').
          if dim = 0 \<or> length data mod unat dim \<noteq> 0
          then Inl (Vector_not_multiple (length data) dim)
          else Inr (C_Vector dim data, r'))))"

section \<open>CRC-32\<close>

definition crc_round :: "u32 \<Rightarrow> u32" where
  "crc_round crc = (let mask = - (crc AND 1) in drop_bit 1 crc XOR (0xEDB88320 AND mask))"

definition crc_byte :: "u32 \<Rightarrow> u8 \<Rightarrow> u32" where
  "crc_byte crc b = (crc_round ^^ 8) (crc XOR ucast b)"

definition crc32 :: "u8 list \<Rightarrow> u32" where
  "crc32 data = NOT (foldl crc_byte (NOT 0) data)"

section \<open>The interface of an encoding\<close>

locale byte_codec =
  fixes enc :: "'a \<Rightarrow> u8 list"
    and dec :: "'a reader"
    and valid :: "'a \<Rightarrow> bool"
  assumes dec_enc: "valid x \<Longrightarrow> dec (enc x @ rest) = Inr (x, rest)"
begin

lemma dec_enc_end: "valid x \<Longrightarrow> dec (enc x) = Inr (x, [])"
  using dec_enc [of x "[]"] by simp

text \<open>An encoding is prefix-free: two encoded streams agree only when their values do.\<close>

lemma enc_prefix_free:
  "valid x \<Longrightarrow> valid y \<Longrightarrow> enc x @ r = enc y @ s \<Longrightarrow> x = y \<and> r = s"
  using dec_enc [of x r] dec_enc [of y s] by (metis Pair_inject sum.inject(2))

lemma dec_many:
  "\<forall>x \<in> set xs. valid x \<Longrightarrow> r_many (length xs) dec (concat (map enc xs) @ rest) = Inr (xs, rest)"
  by (induction xs) (auto simp: dec_enc)

end

text \<open>Array elements of a fixed width, as \<open>raw\<close> writes them and \<open>raw_*\<close> reads them.\<close>

locale array_elem =
  fixes mem :: "'a \<Rightarrow> u8 list"
    and elem :: "u8 list \<Rightarrow> 'a"
    and width :: usize
  assumes width_pos: "width \<noteq> 0"
    and mem_width: "length (mem x) = unat width"
    and elem_mem: "elem (mem x) = x"
begin

lemma length_mems: "length (concat (map mem xs)) = length xs * unat width"
  by (induction xs) (auto simp: mem_width)

lemma chunks_mems: "map elem (chunks_exact (unat width) (concat (map mem xs))) = xs"
proof (induction xs)
  case Nil
  then show ?case using width_pos by (simp add: chunks_exact.simps unat_eq_0)
next
  case (Cons x xs)
  then show ?case
    using width_pos mem_width [of x] chunks_exact.simps [of "unat width" "concat (map mem (x # xs))"]
    by (simp add: elem_mem unat_eq_0)
qed

lemma r_u64_w_u64: "r_u64 (w_u64 v @ rest) = Inr (v, rest)"
  using unat_u64_less [of v]
  by (simp add: r_u64_def w_u64_def r_take_def nat_of_to_le)

end

sublocale array_elem \<subseteq> raw: byte_codec "w_raw mem" "r_raw width elem"
    "\<lambda>xs. length xs * unat width < 2 ^ 64"
proof unfold_locales
  fix xs :: "'a list" and rest :: "u8 list"
  assume small: "length xs * unat width < 2 ^ 64"
  have "length xs \<le> length xs * unat width" using width_pos by (simp add: unat_gt_0 Suc_le_eq)
  then have "length xs < 2 ^ 64" using small by (rule le_less_trans)
  then have n: "unat (word_of_nat (length xs) :: u64) = length xs"
    by (simp add: unat_of_nat)
  have prod: "unat (word_of_nat (length xs) * width) = length xs * unat width"
    using small n by (simp add: unat_word_ariths)
  show "r_raw width elem (w_raw mem xs @ rest) = Inr (xs, rest)"
    using prod chunks_mems [of xs] length_mems [of xs]
    by (simp add: r_raw_def w_raw_def r_u64_w_u64 r_take_def)
qed

section \<open>The encodings of the format\<close>

interpretation u8_codec: byte_codec w_u8 r_u8 "\<lambda>_. True"
  by unfold_locales (simp add: w_u8_def r_u8_def r_take_def)

interpretation u32_codec: byte_codec w_u32 r_u32 "\<lambda>_. True"
proof unfold_locales
  show "r_u32 (w_u32 x @ rest) = Inr (x, rest)" for x rest
    using unat_u32_less [of x] by (simp add: r_u32_def w_u32_def r_take_def nat_of_to_le)
qed

interpretation u64_codec: byte_codec w_u64 r_u64 "\<lambda>_. True"
proof unfold_locales
  show "r_u64 (w_u64 x @ rest) = Inr (x, rest)" for x rest
    using unat_u64_less [of x] by (simp add: r_u64_def w_u64_def r_take_def nat_of_to_le)
qed

interpretation i64_codec: byte_codec w_i64 r_i64 "\<lambda>_. True"
  using u64_codec.dec_enc by unfold_locales (simp add: r_i64_def w_i64_def r_u64_def w_u64_def)

interpretation f64_codec: byte_codec w_f64 r_f64 "\<lambda>_. True"
  using u64_codec.dec_enc by unfold_locales (simp add: r_f64_def w_f64_def r_u64_def w_u64_def)

interpretation bytes_codec: byte_codec w_bytes r_bytes "\<lambda>b. length b < 2 ^ 64"
  by unfold_locales
    (simp add: w_bytes_def r_bytes_def u64_codec.dec_enc r_take_def unat_of_nat)

interpretation str_codec: byte_codec w_str r_str "\<lambda>s. str_bytes_len s < 2 ^ 64"
  by unfold_locales (simp add: w_str_def r_str_def bytes_codec.dec_enc str_bytes_len_def)

interpretation data_type_codec: byte_codec w_data_type r_data_type "\<lambda>_. True"
proof unfold_locales
  show "r_data_type (w_data_type ty @ rest) = Inr (ty, rest)" for ty rest
    by (cases ty) (simp_all add: w_data_type_def r_data_type_def u8_codec.dec_enc
        u64_codec.dec_enc)
qed

interpretation field_codec: byte_codec w_field r_field "\<lambda>f. str_bytes_len (fname f) < 2 ^ 64"
  by unfold_locales
    (simp add: w_field_def r_field_def str_codec.dec_enc data_type_codec.dec_enc)

definition schema_small :: "schema \<Rightarrow> bool" where
  "schema_small s \<longleftrightarrow>
     length (sfields s) < 2 ^ 64 \<and> (\<forall>f \<in> set (sfields s). str_bytes_len (fname f) < 2 ^ 64)"

interpretation schema_codec: byte_codec w_schema r_schema schema_small
proof unfold_locales
  show "r_schema (w_schema s @ rest) = Inr (s, rest)" if "schema_small s" for s rest
    using that field_codec.dec_many [of "sfields s"]
    by (simp add: w_schema_def r_schema_def u64_codec.dec_enc schema_small_def unat_of_nat)
qed

lemma elem4: "(word_of_nat (nat_of_le (nat_to_le 4 (unat (w :: u32)))) :: u32) = w"
  using unat_u32_less [of w] by (simp add: nat_of_to_le)

lemma elem8: "(word_of_nat (nat_of_le (nat_to_le 8 (unat (w :: u64)))) :: u64) = w"
  using unat_u64_less [of w] by (simp add: nat_of_to_le)

interpretation i64_elem: array_elem w_i64 "\<lambda>c. word_of_nat (nat_of_le c)" 8
  by unfold_locales (simp_all add: w_i64_def elem8)

interpretation f64_elem: array_elem w_f64 "\<lambda>c. word_of_nat (nat_of_le c)" 8
  by unfold_locales (simp_all add: w_f64_def elem8)

interpretation f32_elem: array_elem w_f32 "\<lambda>c. word_of_nat (nat_of_le c)" 4
  by unfold_locales (simp_all add: w_f32_def elem4)

interpretation u32_elem: array_elem w_u32 "\<lambda>c. word_of_nat (nat_of_le c)" 4
  by unfold_locales (simp_all add: w_u32_def elem4)

lemma w_raw_u8: "w_raw w_u8 v = w_bytes v"
  by (induction v) (auto simp: w_raw_def w_bytes_def w_u8_def)

interpretation raw_u8_codec: byte_codec "w_raw w_u8" r_raw_u8 "\<lambda>v. length v < 2 ^ 64"
  using bytes_codec.dec_enc by unfold_locales (simp add: w_raw_u8 r_raw_u8_def r_bytes_def)

lemmas raw_defs = r_raw_i64_def r_raw_f64_def r_raw_f32_def r_raw_u32_def

text \<open>The values a column of type \<open>ty\<close> writes exactly: no widening, and within 64-bit lengths.\<close>

definition value_exact :: "data_type \<Rightarrow> rvalue \<Rightarrow> bool" where
  "value_exact ty v \<longleftrightarrow>
     (case (ty, v) of
        (DT_I64, V_I64 _) \<Rightarrow> True
      | (DT_F64, V_F64 _) \<Rightarrow> True
      | (DT_Bool, V_Bool _) \<Rightarrow> True
      | (DT_Str, V_Str s) \<Rightarrow> str_bytes_len s < 2 ^ 64
      | (DT_Vector d, V_Vector x) \<Rightarrow> length x = unat d \<and> length x * 4 < 2 ^ 64
      | _ \<Rightarrow> False)"

interpretation value_codec: byte_codec w_value "r_value ty" "value_exact ty" for ty
proof unfold_locales
  show "r_value ty (w_value v @ rest) = Inr (v, rest)" if "value_exact ty v" for v rest
    using that
    by (cases ty; cases v) (simp_all add: value_exact_def r_value_def w_value_def
        i64_codec.dec_enc f64_codec.dec_enc u8_codec.dec_enc str_codec.dec_enc bool_byte_def
        r_raw_f32_def f32_elem.raw.dec_enc)
qed

section \<open>Columns\<close>

lemma monotone_nth: "monotone os \<longleftrightarrow> (\<forall>i. Suc i < length os \<longrightarrow> os ! i \<le> os ! Suc i)"
proof (induction os rule: monotone.induct)
  case (1 a b xs)
  then show ?case by (auto simp: less_Suc_eq_0_disj not_less nth_Cons split: nat.split)
qed auto

lemma str_from_parts_rep:
  assumes r: "strcol_rep s ss"
  shows "str_from_parts (buf s) (offsets s) = Inr s"
proof -
  have b: "buf s = arena ss" and o: "offsets s = map word_of_nat (offsets_from 0 ss)"
    and small: "length (arena ss) < 2 ^ 32"
    using r by (auto simp: strcol_rep_def)
  have at: "offsets s ! i = word_of_nat (length (arena (take i ss)))" if "i \<le> length ss" for i
    using that o by (simp add: nth_offsets_from)
  have len: "length (offsets s) = Suc (length ss)" using o by simp
  then have ne: "offsets s \<noteq> []" by auto
  have "hd (offsets s) = 0" using ne at [of 0] by (simp add: hd_conv_nth)
  moreover have "last (offsets s) = word_of_nat (length (buf s))"
    using ne at [of "length ss"] len b by (simp add: last_conv_nth)
  moreover have "monotone (offsets s)"
  proof (subst monotone_nth, intro allI impI)
    fix i assume i: "Suc i < length (offsets s)"
    have m: "length (arena (take j ss)) < 2 ^ 32" for j
      using arena_take_le [of j ss] small by (rule le_less_trans)
    have "length (arena (take i ss)) \<le> length (arena (take (Suc i) ss))"
      using i len arena_take_Suc [of i ss] by simp
    then show "offsets s ! i \<le> offsets s ! Suc i"
      using at [of i] at [of "Suc i"] i len m [of i] m [of "Suc i"]
      by (simp add: word_le_nat_alt unat_of_nat)
  qed
  ultimately show ?thesis using ne b by (cases s) (simp add: str_from_parts_def)
qed

definition column_small :: "column \<Rightarrow> bool" where
  "column_small c \<longleftrightarrow> column_bytes_used c < 2 ^ 64"

lemma column_roundtrip:
  assumes rep: "column_rep c vs" and small: "column_small c"
  shows "r_column (column_type c) (w_column c @ rest) = Inr (c, rest)"
proof (cases c)
  case (C_Str s)
  then obtain ss where "strcol_rep s ss" using rep by (auto simp: column_rep_def)
  with small C_Str show ?thesis
    using u32_elem.raw.dec_enc [of "offsets s"]
    by (simp add: r_column_def w_column_def column_type_def r_raw_u32_def bytes_codec.dec_enc
        str_from_parts_rep column_small_def column_bytes_used_def str_bytes_used_def)
next
  case (C_Vector dim data)
  then obtain rows where rows: "dim \<noteq> 0" "\<forall>r \<in> set rows. length r = unat dim" "data = concat rows"
    using rep by (auto elim: column_rep_vectorE)
  then have "length data mod unat dim = 0" using concat_rows_length by fastforce
  with small C_Vector rows(1) show ?thesis
    using f32_elem.raw.dec_enc [of data]
    by (simp add: r_column_def w_column_def column_type_def r_raw_f32_def u64_codec.dec_enc
        column_small_def column_bytes_used_def)
qed (use small in \<open>simp_all add: r_column_def w_column_def column_type_def raw_defs
       i64_elem.raw.dec_enc f64_elem.raw.dec_enc raw_u8_codec.dec_enc
       column_small_def column_bytes_used_def\<close>)

section \<open>Damage detection\<close>

text \<open>
  The register update is injective: the top bit of the result is the bit shifted out (the
  polynomial has bit 31 set), so the old register can be recovered. Hence two inputs of the
  same length that differ in one byte never share a checksum.
\<close>

lemma bit_mask_lsb: "bit (- (x AND 1) :: u32) n \<longleftrightarrow> n < 32 \<and> bit x 0"
  by (cases "odd x") (simp_all add: and_one_eq odd_iff_mod_2_eq_one even_iff_mod_2_eq_zero bit_0)

lemma bit_crc_round:
  "n < 32 \<Longrightarrow> bit (crc_round x) n \<longleftrightarrow> bit x (Suc n) \<noteq> (bit (0xEDB88320 :: u32) n \<and> bit x 0)"
  by (simp add: crc_round_def Let_def bit_xor_iff bit_and_iff bit_drop_bit_eq bit_mask_lsb)


lemma len_bit32: "n < LENGTH(32) \<longleftrightarrow> n < 32"
  by simp

lemma crc_round_inject: "crc_round x = crc_round y \<longleftrightarrow> x = y"
proof
  assume eq: "crc_round x = crc_round y"
  have "\<not> bit (w :: u32) 32" for w by (auto dest: bit_imp_le_length)
  then have "bit x 0 \<longleftrightarrow> bit y 0"
    using arg_cong [OF eq, of "\<lambda>w. bit w 31"] by (simp add: bit_crc_round bit_simps)
  moreover have "bit x (Suc n) \<longleftrightarrow> bit y (Suc n)" if "n < 32" for n
    using arg_cong [OF eq, of "\<lambda>w. bit w n"] that calculation by (auto simp: bit_crc_round)
  ultimately show "x = y"
    by (intro bit_word_eqI) (metis Suc_lessD not0_implies_Suc len_bit32)
qed simp

lemma crc_rounds_inject: "(crc_round ^^ n) x = (crc_round ^^ n) y \<longleftrightarrow> x = y"
  by (induction n) (simp_all add: crc_round_inject)

lemma xor_cancel_right: "(x XOR a = y XOR a) \<longleftrightarrow> x = (y :: u32)"
  by (metis xor.right_neutral xor.assoc xor_self_eq)

lemma xor_cancel_left: "(a XOR x = a XOR y) \<longleftrightarrow> x = (y :: u32)"
  by (simp add: xor_cancel_right xor.commute [of a])

lemma ucast_u8_inject: "(ucast (b :: u8) :: u32) = ucast c \<longleftrightarrow> b = c"
proof
  assume "(ucast b :: u32) = ucast c"
  then have "unat (ucast b :: u32) = unat (ucast c :: u32)" by simp
  moreover have "take_bit 32 (unat d) = unat d" for d :: u8
    by (intro take_bit_nat_eq_self less_trans [OF unat_u8_less]) simp
  ultimately have "unat b = unat c" by (simp add: unsigned_ucast_eq)
  then show "b = c" by (simp only: word_unat_eq_iff)
qed simp

lemma crc_byte_inject_state: "crc_byte x b = crc_byte y b \<longleftrightarrow> x = y"
  by (simp add: crc_byte_def crc_rounds_inject xor_cancel_right)

lemma crc_byte_inject_byte: "crc_byte x b = crc_byte x c \<longleftrightarrow> b = c"
  by (simp add: crc_byte_def crc_rounds_inject xor_cancel_left ucast_u8_inject)

lemma foldl_crc_inject: "foldl crc_byte x bs = foldl crc_byte y bs \<longleftrightarrow> x = y"
  by (induction bs arbitrary: x y) (simp_all add: crc_byte_inject_state)

lemma crc32_byte_change: "b \<noteq> c \<Longrightarrow> crc32 (xs @ b # ys) \<noteq> crc32 (xs @ c # ys)"
  by (simp add: crc32_def foldl_crc_inject crc_byte_inject_byte)

end
