(* ===== verification/Storage.thy ===== *)
theory Storage
  imports Codec
begin

text \<open>
  \<open>storage.rs\<close>: WAL records and their payloads, the framed WAL file, and snapshots. A file is
  the list of its bytes; opening a WAL returns the surviving records together with the file
  truncated to them. Input and output calls are taken to succeed, and what a crash can leave
  behind is described by the byte strings a reader then finds.
\<close>

section \<open>WAL records\<close>

datatype durability = Fsync | Buffered

type_synonym raw_record = "u64 \<times> u8 list"

datatype wal_record =
    CreateTable rstr schema
  | DropTable rstr
  | InsertRows rstr "rvalue list list"

definition encode_row :: "schema \<Rightarrow> rvalue list \<Rightarrow> u8 list res" where
  "encode_row s r =
     (if length r \<noteq> schema_len s then Inl (Wal_row_arity (length r) (schema_len s))
      else Inr (concat (map w_value r)))"

text \<open>\<open>WalRecord::encode\<close>; the values are written as they came, not as the column stores them.\<close>

definition wal_encode :: "(rstr \<Rightarrow> schema option) \<Rightarrow> wal_record \<Rightarrow> u8 list res" where
  "wal_encode schema_of rec =
     (case rec of
        CreateTable name s \<Rightarrow> Inr (w_u8 1 @ w_str name @ w_schema s)
      | DropTable name \<Rightarrow> Inr (w_u8 2 @ w_str name)
      | InsertRows tab rows \<Rightarrow>
          and_then (ok_or (schema_of tab) (Wal_no_schema tab)) (\<lambda>s.
          and_then (map_res (encode_row s) rows) (\<lambda>bs.
          Inr (w_u8 3 @ w_str tab @ w_u64 (word_of_nat (length rows)) @ concat bs))))"

fun r_row :: "field list \<Rightarrow> rvalue list reader" where
  "r_row [] bs = Inr ([], bs)"
| "r_row (f # fs) bs =
     and_then (r_value (fty f) bs) (\<lambda>(v, r).
     and_then (r_row fs r) (\<lambda>(vs, r'). Inr (v # vs, r')))"

definition wal_decode :: "(rstr \<Rightarrow> schema option) \<Rightarrow> u8 list \<Rightarrow> wal_record res" where
  "wal_decode schema_of payload =
     and_then (r_u8 payload) (\<lambda>(code, r).
     if code = 1 then
       and_then (r_str r) (\<lambda>(name, r1).
       and_then (r_schema r1) (\<lambda>(s, _). Inr (CreateTable name s)))
     else if code = 2 then and_then (r_str r) (\<lambda>(name, _). Inr (DropTable name))
     else if code = 3 then
       and_then (r_str r) (\<lambda>(tab, r1).
       and_then (ok_or (schema_of tab) (Wal_unknown_table tab)) (\<lambda>s.
       and_then (r_u64 r1) (\<lambda>(n, r2).
       and_then (r_many (unat n) (r_row (sfields s)) r2) (\<lambda>(rows, _).
       Inr (InsertRows tab rows)))))
     else Inl (Wal_record_code code))"

section \<open>The WAL file\<close>

definition ascii :: "string \<Rightarrow> u8 list" where
  "ascii s = map (\<lambda>c. byte (of_char c)) s"

definition wal_magic :: "u8 list" where
  "wal_magic = ascii ''VELDBWAL''"

definition format_version :: u32 where
  "format_version = 1"

definition wal_header :: "u8 list" where
  "wal_header = wal_magic @ w_u32 format_version"

definition frame_header :: nat where
  "frame_header = 16"

definition le_u32 :: "u8 list \<Rightarrow> u32" where
  "le_u32 bs = word_of_nat (nat_of_le bs)"

definition le_u64 :: "u8 list \<Rightarrow> u64" where
  "le_u64 bs = word_of_nat (nat_of_le bs)"

definition frame :: "u64 \<Rightarrow> u8 list \<Rightarrow> u8 list" where
  "frame lsn payload =
     (let body = w_u64 lsn @ payload in
      w_u32 (word_of_nat (length payload)) @ w_u32 (crc32 body) @ body)"

text \<open>
  The loop of \<open>Wal::open\<close> over the bytes from \<open>pos\<close> on: the records of the intact frames and
  the number of bytes they take. It stops at a frame that is cut short or fails its checksum.
\<close>

function scan_frames :: "u8 list \<Rightarrow> raw_record list \<times> nat" where
  "scan_frames bs =
     (if length bs < frame_header then ([], 0)
      else
        let len = unat (le_u32 (take 4 bs));
            crc = le_u32 (take 4 (drop 4 bs));
            fin = frame_header + len
        in if length bs < fin then ([], 0)
           else
             let body = take (fin - 8) (drop 8 bs) in
             if crc32 body \<noteq> crc then ([], 0)
             else case scan_frames (drop fin bs) of
               (rs, n) \<Rightarrow> ((le_u64 (take 8 body), drop 8 body) # rs, fin + n))"
  by pat_completeness auto
termination
  by (relation "measure length") (auto simp: frame_header_def Let_def)

declare scan_frames.simps [simp del]

record wal =
  wfile :: "u8 list"
  wnext :: u64
  wdurability :: durability

definition next_after :: "raw_record list \<Rightarrow> u64" where
  "next_after rs = (if rs = [] then 1 else fst (last rs) + 1)"

definition wal_open :: "u8 list \<Rightarrow> durability \<Rightarrow> (wal \<times> raw_record list) res" where
  "wal_open raw d =
     (if raw = [] then Inr (\<lparr>wfile = wal_header, wnext = 1, wdurability = d\<rparr>, [])
      else if length raw < 12 \<or> take 8 raw \<noteq> wal_magic then Inl Not_a_wal
      else
        let ver = le_u32 (take 4 (drop 8 raw)) in
        if ver \<noteq> format_version then Inl (Wal_version ver)
        else case scan_frames (drop 12 raw) of
          (rs, n) \<Rightarrow>
            Inr (\<lparr>wfile = take (12 + n) raw, wnext = next_after rs, wdurability = d\<rparr>, rs))"

definition wal_append :: "wal \<Rightarrow> u8 list \<Rightarrow> wal \<times> u64" where
  "wal_append w payload =
     (w\<lparr>wfile := wfile w @ frame (wnext w) payload, wnext := wnext w + 1\<rparr>, wnext w)"

text \<open>
  \<open>records_after\<close> opens the file a second time; the truncation of a damaged tail that this
  implies happens to the file the writer holds.
\<close>

definition wal_records_after :: "wal \<Rightarrow> u64 \<Rightarrow> (wal \<times> raw_record list) res" where
  "wal_records_after w after =
     and_then (wal_open (wfile w) (wdurability w)) (\<lambda>(w', all).
     Inr (w\<lparr>wfile := wfile w'\<rparr>, filter (\<lambda>(lsn, _). after < lsn) all))"

definition wal_reset :: "wal \<Rightarrow> wal" where
  "wal_reset w = w\<lparr>wfile := wal_header\<rparr>"

section \<open>Snapshots\<close>

definition snapshot_magic :: "u8 list" where
  "snapshot_magic = ascii ''VELDBSNP''"

definition w_table :: "table \<Rightarrow> u8 list" where
  "w_table t =
     w_str (tname t) @ w_schema (tschema t) @ w_u64 (word_of_nat (nrows t)) @
     concat (map w_column (columns t))"

definition snapshot_body :: "table list \<Rightarrow> u64 \<Rightarrow> u8 list" where
  "snapshot_body ts lsn =
     snapshot_magic @ w_u32 format_version @ w_u64 lsn @ w_u64 (word_of_nat (length ts)) @
     concat (map w_table ts)"

definition encode_snapshot :: "table list \<Rightarrow> u64 \<Rightarrow> u8 list" where
  "encode_snapshot ts lsn = snapshot_body ts lsn @ w_u32 (crc32 (snapshot_body ts lsn))"

fun r_columns :: "field list \<Rightarrow> column list reader" where
  "r_columns [] bs = Inr ([], bs)"
| "r_columns (f # fs) bs =
     and_then (r_column (fty f) bs) (\<lambda>(c, r).
     and_then (r_columns fs r) (\<lambda>(cs, r'). Inr (c # cs, r')))"

definition r_table :: "table reader" where
  "r_table bs =
     and_then (r_str bs) (\<lambda>(name, r1).
     and_then (r_schema r1) (\<lambda>(s, r2).
     and_then (r_u64 r2) (\<lambda>(n, r3).
     and_then (r_columns (sfields s) r3) (\<lambda>(cs, r4).
     and_then (with_context ''table from snapshot'' (from_columns name s cs)) (\<lambda>t.
     if nrows t \<noteq> unat n then Inl (Snapshot_rows name n (nrows t)) else Inr (t, r4))))))"

definition decode_snapshot :: "u8 list \<Rightarrow> (table list \<times> u64) res" where
  "decode_snapshot raw =
     (if length raw < 28 \<or> take 8 raw \<noteq> snapshot_magic then Inl Not_a_snapshot
      else
        let body = take (length raw - 4) raw;
            stored_crc = le_u32 (drop (length raw - 4) raw)
        in if crc32 body \<noteq> stored_crc then Inl Snapshot_crc
           else
             and_then (r_take 8 body) (\<lambda>(_, r0).
             and_then (r_u32 r0) (\<lambda>(ver, r1).
             if ver \<noteq> format_version then Inl (Snapshot_version ver)
             else
               and_then (r_u64 r1) (\<lambda>(lsn, r2).
               and_then (r_u64 r2) (\<lambda>(n, r3).
               and_then (r_many (unat n) r_table r3) (\<lambda>(ts, _). Inr (ts, lsn)))))))"

text \<open>
  The files of a data directory. \<open>write_snapshot\<close> fills the temporary file and renames it;
  \<open>snapshot_states\<close> lists the directories a crash during it can leave: the temporary file
  absent, cut short at any length, complete, and finally the renamed file.
\<close>

record disk =
  snapshot_file :: "u8 list option"
  tmp_file :: "u8 list option"
  wal_file :: "u8 list"

definition write_snapshot :: "disk \<Rightarrow> table list \<Rightarrow> u64 \<Rightarrow> disk" where
  "write_snapshot d ts lsn = d\<lparr>snapshot_file := Some (encode_snapshot ts lsn), tmp_file := None\<rparr>"

definition snapshot_states :: "disk \<Rightarrow> table list \<Rightarrow> u64 \<Rightarrow> disk list" where
  "snapshot_states d ts lsn =
     (let b = encode_snapshot ts lsn in
      d # map (\<lambda>k. d\<lparr>tmp_file := Some (take k b)\<rparr>) [0..<Suc (length b)] @ [write_snapshot d ts lsn])"

definition read_snapshot :: "u8 list \<Rightarrow> (table list \<times> u64) res" where
  "read_snapshot raw = with_context ''snapshot'' (decode_snapshot raw)"

section \<open>Frames\<close>

definition frames :: "raw_record list \<Rightarrow> u8 list" where
  "frames rs = concat (map (\<lambda>(lsn, p). frame lsn p) rs)"

lemma frames_simps [simp]:
  "frames [] = []" "frames ((lsn, p) # rs) = frame lsn p @ frames rs"
  "frames (rs @ qs) = frames rs @ frames qs"
  by (simp_all add: frames_def)

definition payload_small :: "u8 list \<Rightarrow> bool" where
  "payload_small p \<longleftrightarrow> length p < 2 ^ 32"

lemma length_w_u32 [simp, len_simps]: "length (w_u32 v) = 4"
  by (simp add: w_u32_def)

lemma length_w_u64 [simp, len_simps]: "length (w_u64 v) = 8"
  by (simp add: w_u64_def)

lemma le_u32_w_u32 [simp]: "le_u32 (w_u32 v) = v"
  by (simp add: le_u32_def w_u32_def elem4)

lemma le_u64_w_u64 [simp]: "le_u64 (w_u64 v) = v"
  by (simp add: le_u64_def w_u64_def elem8)

lemma w_u32_le_u32: "length bs = 4 \<Longrightarrow> w_u32 (le_u32 bs) = bs"
  using nat_of_le_bound [of bs] nat_to_of_le [of bs]
  by (simp add: w_u32_def le_u32_def unat_of_nat)

lemma length_frame [len_simps]: "length (frame lsn p) = frame_header + length p"
  by (simp add: frame_def frame_header_def Let_def)

text \<open>
  One turn of the scan on a string laid out as a frame with the stored length \<open>len\<close>, the
  stored checksum \<open>crc\<close> and a body of the right size.
\<close>

lemma scan_frame_layout:
  assumes "8 + unat len = length body"
  shows "scan_frames (w_u32 len @ w_u32 crc @ body @ rest) =
     (if crc32 body \<noteq> crc then ([], 0)
      else case scan_frames rest of
        (rs, n) \<Rightarrow> ((le_u64 (take 8 body), drop 8 body) # rs, frame_header + unat len + n))"
  using assms
  by (subst scan_frames.simps) (simp add: frame_header_def Let_def)

lemma scan_frame:
  assumes "payload_small p"
  shows "scan_frames (frame lsn p @ rest) =
     (case scan_frames rest of (rs, n) \<Rightarrow> ((lsn, p) # rs, length (frame lsn p) + n))"
proof -
  have "8 + unat (word_of_nat (length p) :: u32) = length (w_u64 lsn @ p)"
    using assms by (simp add: payload_small_def unat_of_nat)
  from scan_frame_layout [OF this, of "crc32 (w_u64 lsn @ p)" rest] assms show ?thesis
    by (simp add: frame_def Let_def frame_header_def payload_small_def unat_of_nat split: prod.splits)
qed

lemma scan_frames_append:
  "\<forall>(l, p) \<in> set rs. payload_small p \<Longrightarrow>
   scan_frames (frames rs @ tail) =
     (rs @ fst (scan_frames tail), length (frames rs) + snd (scan_frames tail))"
  by (induction rs) (auto simp: scan_frame split: prod.splits)

text \<open>A frame cut short anywhere yields nothing: the scan stops in front of it.\<close>

lemma scan_torn_frame:
  assumes small: "payload_small p" and k: "k < length (frame lsn p)"
  shows "scan_frames (take k (frame lsn p)) = ([], 0)"
proof (cases "k < frame_header")
  case True
  then show ?thesis by (subst scan_frames.simps) (simp add: min_less_iff_disj)
next
  case False
  have "take 4 (take k (frame lsn p)) = w_u32 (word_of_nat (length p))"
    using False by (simp add: frame_def frame_header_def Let_def min_def)
  moreover have "unat (word_of_nat (length p) :: u32) = length p"
    using small by (simp add: payload_small_def unat_of_nat)
  ultimately show ?thesis
    using k by (subst scan_frames.simps) (simp add: length_frame Let_def)
qed

text \<open>One changed byte after the length field is caught by the checksum.\<close>

definition change_byte :: "u8 list \<Rightarrow> nat \<Rightarrow> u8 \<Rightarrow> u8 list" where
  "change_byte bs i b = bs[i := b]"

lemma crc32_change_byte:
  "i < length bs \<Longrightarrow> bs ! i \<noteq> b \<Longrightarrow> crc32 (change_byte bs i b) \<noteq> crc32 bs"
  using crc32_byte_change [of b "bs ! i" "take i bs" "drop (Suc i) bs"]
  by (simp add: change_byte_def upd_conv_take_nth_drop id_take_nth_drop [of i bs, symmetric])

lemma scan_damaged_frame:
  assumes small: "payload_small p" and i: "4 \<le> i" "i < length (frame lsn p)"
    and b: "frame lsn p ! i \<noteq> b"
  shows "scan_frames (change_byte (frame lsn p) i b @ rest) = ([], 0)"
proof -
  let ?len = "word_of_nat (length p) :: u32" and ?body = "w_u64 lsn @ p"
  have len: "unat ?len = length p" using small by (simp add: payload_small_def unat_of_nat)
  have fr: "frame lsn p = w_u32 ?len @ w_u32 (crc32 ?body) @ ?body" by (simp add: frame_def Let_def)
  show ?thesis
  proof (cases "i < 8")
    case True
    then have i4: "i - 4 < 4" using i by simp
    let ?c = "change_byte (w_u32 (crc32 ?body)) (i - 4) b"
    have ch: "change_byte (frame lsn p) i b = w_u32 ?len @ ?c @ ?body"
      using True i i4 by (simp add: fr change_byte_def list_update_append)
    have "length ?c = 4" by (simp add: change_byte_def)
    then have c: "w_u32 (le_u32 ?c) = ?c" by (rule w_u32_le_u32)
    have "?c \<noteq> w_u32 (crc32 ?body)"
    proof -
      have "w_u32 (crc32 ?body) ! (i - 4) \<noteq> b"
        using b True i i4 by (simp add: fr nth_append)
      then show ?thesis using i4 by (metis change_byte_def length_w_u32 nth_list_update_eq)
    qed
    then have "crc32 ?body \<noteq> le_u32 ?c" using c by auto
    with scan_frame_layout [of ?len ?body "le_u32 ?c" rest] len c ch show ?thesis by simp
  next
    case False
    then have i4: "\<not> i - 4 < 4" by simp
    let ?body' = "change_byte ?body (i - 8) b"
    have ch: "change_byte (frame lsn p) i b = w_u32 ?len @ w_u32 (crc32 ?body) @ ?body'"
      using False i i4 by (simp add: fr change_byte_def list_update_append)
    have "frame lsn p = (w_u32 ?len @ w_u32 (crc32 ?body)) @ ?body" by (simp add: fr)
    then have "frame lsn p ! i = ?body ! (i - 8)"
      using False nth_append [of "w_u32 ?len @ w_u32 (crc32 ?body)" ?body i] by simp
    then have "?body ! (i - 8) \<noteq> b" using b by simp
    moreover have "i - 8 < length ?body" using False i by (simp add: length_frame frame_header_def)
    moreover note crc32_change_byte [of "i - 8" ?body b]
    ultimately have "crc32 ?body' \<noteq> crc32 ?body" by simp
    moreover have "8 + unat ?len = length ?body'" by (simp add: len change_byte_def)
    ultimately show ?thesis using scan_frame_layout [of ?len ?body' "crc32 ?body" rest] ch by simp
  qed
qed

section \<open>The WAL as a list of records\<close>

text \<open>
  \<open>wal_rep w rs\<close>: the file of \<open>w\<close> is the header followed by the frames of \<open>rs\<close>.
\<close>

definition wal_rep :: "wal \<Rightarrow> raw_record list \<Rightarrow> bool" where
  "wal_rep w rs \<longleftrightarrow> wfile w = wal_header @ frames rs \<and> (\<forall>(l, p) \<in> set rs. payload_small p)"

lemma length_wal_header [simp]: "length wal_header = 12"
  by (simp add: wal_header_def wal_magic_def ascii_def)

lemma length_wal_magic [simp]: "length wal_magic = 8"
  by (simp add: wal_magic_def ascii_def)

lemma wal_header_parts [simp]:
  "wal_header \<noteq> []"
  "take 8 wal_header = wal_magic"
  "drop 8 wal_header = w_u32 format_version"
  by (auto simp: wal_header_def dest: arg_cong [of _ _ length])

lemma wal_open_header:
  "wal_open (wal_header @ bs) d =
     (case scan_frames bs of
        (rs, n) \<Rightarrow> Inr (\<lparr>wfile = wal_header @ take n bs, wnext = next_after rs, wdurability = d\<rparr>, rs))"
  by (simp add: wal_open_def Let_def split: prod.splits)

lemma wal_open_empty: "wal_open [] d = Inr (\<lparr>wfile = wal_header, wnext = 1, wdurability = d\<rparr>, [])"
  by (simp add: wal_open_def)

lemma wal_open_tail:
  assumes "\<forall>(l, p) \<in> set rs. payload_small p" and "scan_frames tail = ([], 0)"
  shows "wal_open (wal_header @ frames rs @ tail) d =
     Inr (\<lparr>wfile = wal_header @ frames rs, wnext = next_after rs, wdurability = d\<rparr>, rs)"
  using assms by (simp add: wal_open_header scan_frames_append)

lemma scan_frames_Nil [simp]: "scan_frames [] = ([], 0)"
  by (subst scan_frames.simps) (simp add: frame_header_def)

lemma wal_open_rep:
  assumes "wal_rep w rs"
  shows "wal_open (wfile w) d = Inr (w\<lparr>wnext := next_after rs, wdurability := d\<rparr>, rs)"
  using assms wal_open_tail [of rs "[]" d] by (cases w) (simp add: wal_rep_def)

lemma wal_rep_append:
  assumes "wal_rep w rs" and "payload_small p"
  shows "wal_rep (fst (wal_append w p)) (rs @ [(wnext w, p)])"
  using assms by (simp add: wal_rep_def wal_append_def)

lemma wal_rep_reset: "wal_rep (wal_reset w) []"
  by (simp add: wal_rep_def wal_reset_def)

lemma next_after_simps [simp]:
  "next_after [] = 1" "next_after (rs @ [(l, p)]) = l + 1"
  by (simp_all add: next_after_def)

section \<open>Payloads\<close>

definition row_exact :: "field list \<Rightarrow> rvalue list \<Rightarrow> bool" where
  "row_exact fs row \<longleftrightarrow> list_all2 (\<lambda>f v. value_exact (fty f) v) fs row"

interpretation row_codec: byte_codec "\<lambda>r. concat (map w_value r)" "r_row fs" "row_exact fs" for fs
proof unfold_locales
  show "r_row fs (concat (map w_value row) @ rest) = Inr (row, rest)"
    if "row_exact fs row" for row rest
    using that
  proof (induction fs arbitrary: row)
    case Nil
    then show ?case by (simp add: row_exact_def)
  next
    case (Cons f fs)
    then show ?case
      by (auto simp: row_exact_def list_all2_Cons1 value_codec.dec_enc)
  qed
qed

text \<open>The records whose payload is read back unchanged.\<close>

definition record_exact :: "(rstr \<Rightarrow> schema option) \<Rightarrow> wal_record \<Rightarrow> bool" where
  "record_exact schema_of rec \<longleftrightarrow>
     (case rec of
        CreateTable n s \<Rightarrow> str_bytes_len n < 2 ^ 64 \<and> schema_small s
      | DropTable n \<Rightarrow> str_bytes_len n < 2 ^ 64
      | InsertRows t rows \<Rightarrow>
          str_bytes_len t < 2 ^ 64 \<and> length rows < 2 ^ 64 \<and>
          (case schema_of t of None \<Rightarrow> False
           | Some s \<Rightarrow> \<forall>r \<in> set rows. row_exact (sfields s) r))"

lemma encode_rows_ok:
  "\<forall>r \<in> set rows. row_exact (sfields s) r \<Longrightarrow>
   map_res (encode_row s) rows = Inr (map (\<lambda>r. concat (map w_value r)) rows)"
  by (rule map_res_total)
    (auto simp: encode_row_def schema_len_def row_exact_def dest!: bspec dest: list_all2_lengthD)

lemma record_roundtrip:
  assumes "record_exact schema_of rec"
  shows "\<exists>p. wal_encode schema_of rec = Inr p \<and> wal_decode schema_of p = Inr rec"
proof (cases rec)
  case (CreateTable n s)
  with assms show ?thesis
    by (simp add: record_exact_def wal_encode_def wal_decode_def u8_codec.dec_enc
        str_codec.dec_enc schema_codec.dec_enc_end)
next
  case (DropTable n)
  with assms show ?thesis
    by (simp add: record_exact_def wal_encode_def wal_decode_def u8_codec.dec_enc
        str_codec.dec_enc_end)
next
  case (InsertRows t rows)
  with assms obtain s where s: "schema_of t = Some s" "\<forall>r \<in> set rows. row_exact (sfields s) r"
    "str_bytes_len t < 2 ^ 64" "length rows < 2 ^ 64"
    by (auto simp: record_exact_def split: option.splits)
  have "r_many (length rows) (r_row (sfields s)) (concat (map (\<lambda>r. concat (map w_value r)) rows))
      = Inr (rows, [])"
    using row_codec.dec_many [OF s(2), of "[]"] by simp
  with InsertRows s show ?thesis
    by (simp add: wal_encode_def wal_decode_def u8_codec.dec_enc str_codec.dec_enc
        u64_codec.dec_enc encode_rows_ok unat_of_nat)
qed

section \<open>Snapshot images\<close>

definition table_small :: "table \<Rightarrow> bool" where
  "table_small t \<longleftrightarrow>
     str_bytes_len (tname t) < 2 ^ 64 \<and> schema_small (tschema t) \<and> nrows t < 2 ^ 64 \<and>
     (\<forall>c \<in> set (columns t). column_small c)"

definition table_wf :: "table \<Rightarrow> bool" where
  "table_wf t \<longleftrightarrow> (\<exists>rows. table_rep t rows)"

lemma r_columns_roundtrip:
  assumes "list_all2 (\<lambda>c f. column_type c = fty f \<and> column_small c \<and> (\<exists>vs. column_rep c vs)) cs fs"
  shows "r_columns fs (concat (map w_column cs) @ rest) = Inr (cs, rest)"
  using assms
proof (induction rule: list_all2_induct)
  case Nil
  then show ?case by simp
next
  case (Cons c cs f fs)
  then obtain vs where "column_rep c vs" "column_small c" "column_type c = fty f" by auto
  with column_roundtrip [of c vs] Cons.IH show ?case by simp
qed

interpretation table_codec: byte_codec w_table r_table "\<lambda>t. table_wf t \<and> table_small t"
proof unfold_locales
  fix t rest assume t: "table_wf t \<and> table_small t"
  then obtain rows where rep: "table_rep t rows" by (auto simp: table_wf_def)
  have "list_all2 (\<lambda>c f. column_type c = fty f \<and> column_small c \<and> (\<exists>vs. column_rep c vs))
      (columns t) (sfields (tschema t))"
    using rep t by (auto simp: table_rep_def table_small_def list_all2_conv_all_nth)
  then have "r_columns (sfields (tschema t)) (concat (map w_column (columns t)) @ rest)
      = Inr (columns t, rest)"
    by (rule r_columns_roundtrip)
  with t from_columns_rep [OF rep] show "r_table (w_table t @ rest) = Inr (t, rest)"
    by (simp add: w_table_def r_table_def str_codec.dec_enc schema_codec.dec_enc
        u64_codec.dec_enc table_small_def unat_of_nat)
qed

definition snapshot_ok :: "table list \<Rightarrow> bool" where
  "snapshot_ok ts \<longleftrightarrow> length ts < 2 ^ 64 \<and> (\<forall>t \<in> set ts. table_wf t \<and> table_small t)"

lemma length_snapshot_magic [simp]: "length snapshot_magic = 8"
  by (simp add: snapshot_magic_def ascii_def)

lemma length_snapshot_body: "28 \<le> length (snapshot_body ts lsn)"
  by (simp add: snapshot_body_def)

lemma take8_snapshot_body [simp]: "take 8 (snapshot_body ts lsn) = snapshot_magic"
  by (simp add: snapshot_body_def)

lemma decode_encode_snapshot:
  assumes "snapshot_ok ts"
  shows "decode_snapshot (encode_snapshot ts lsn) = Inr (ts, lsn)"
proof -
  let ?b = "snapshot_body ts lsn"
  have "r_many (length ts) r_table (concat (map w_table ts)) = Inr (ts, [])"
    using table_codec.dec_many [of ts "[]"] assms by (simp add: snapshot_ok_def)
  moreover have "r_take 8 ?b = Inr (snapshot_magic, w_u32 format_version @ w_u64 lsn @
      w_u64 (word_of_nat (length ts)) @ concat (map w_table ts))"
    by (simp add: r_take_def snapshot_body_def)
  moreover have "unat (word_of_nat (length ts) :: u64) = length ts"
    using assms by (simp add: snapshot_ok_def unat_of_nat)
  moreover have "drop (length ?b) ?b = []" by simp
  ultimately show ?thesis
    using length_snapshot_body [of ts lsn]
    by (simp add: decode_snapshot_def encode_snapshot_def Let_def u32_codec.dec_enc
        u64_codec.dec_enc)
qed

text \<open>A single changed byte anywhere in an image is noticed: nothing of it is loaded.\<close>

lemma decode_changed_snapshot:
  assumes i: "i < length (encode_snapshot ts lsn)" and b: "encode_snapshot ts lsn ! i \<noteq> b"
  shows "decode_snapshot (change_byte (encode_snapshot ts lsn) i b) \<in> {Inl Not_a_snapshot, Inl Snapshot_crc}"
proof -
  let ?b = "snapshot_body ts lsn" and ?n = "length (snapshot_body ts lsn)"
  let ?r = "change_byte (encode_snapshot ts lsn) i b"
  have len: "length ?r = ?n + 4" by (simp add: encode_snapshot_def change_byte_def)
  have "crc32 (take ?n ?r) \<noteq> le_u32 (drop ?n ?r)"
  proof (cases "i < ?n")
    case True
    then have "?b ! i \<noteq> b" using b by (simp add: encode_snapshot_def nth_append)
    then have "crc32 (change_byte ?b i b) \<noteq> crc32 ?b" using True by (simp add: crc32_change_byte)
    with True show ?thesis
      by (simp add: encode_snapshot_def change_byte_def list_update_append)
  next
    case False
    let ?c = "change_byte (w_u32 (crc32 ?b)) (i - ?n) b"
    have j: "i - ?n < 4" using i False by (simp add: encode_snapshot_def)
    have "w_u32 (crc32 ?b) ! (i - ?n) \<noteq> b" using b False by (simp add: encode_snapshot_def nth_append)
    then have "?c \<noteq> w_u32 (crc32 ?b)"
      using j by (metis change_byte_def length_w_u32 nth_list_update_eq)
    moreover have "w_u32 (le_u32 ?c) = ?c" by (rule w_u32_le_u32) (simp add: change_byte_def)
    ultimately have "crc32 ?b \<noteq> le_u32 ?c" by auto
    with False show ?thesis
      by (simp add: encode_snapshot_def change_byte_def list_update_append)
  qed
  with len show ?thesis by (simp add: decode_snapshot_def Let_def)
qed

end
