(* ===== verification/Database.thy ===== *)
theory Database
  imports Storage
begin

text \<open>
  \<open>db.rs\<close>: the catalogue of tables, the write path (memory first, then the WAL), snapshots,
  recovery and the entry points of replication. The catalogue is a finite map from lower-cased
  names to tables. Two things stand outside the source and are parameters: \<open>lower\<close>, the
  Unicode \<open>str::to_lowercase\<close>, and \<open>order\<close>, the order in which the hash map of \<open>rustc_hash\<close>
  lists its keys (\<open>lists_keys order\<close>: each key once). A method that takes a lock for its whole
  effect is one state change; \<open>Concurrency\<close> takes the write path apart into the two critical
  sections it has.
\<close>

section \<open>State\<close>

type_synonym catalog = "rstr \<Rightarrow> table option"

record store =
  store_snapshot :: "u8 list option"
  store_wal :: wal

record database =
  tables :: catalog
  store :: "store option"
  read_only :: bool
  memory_limit :: u64

definition lists_keys :: "(rstr set \<Rightarrow> rstr list) \<Rightarrow> bool" where
  "lists_keys order \<longleftrightarrow> (\<forall>K. finite K \<longrightarrow> distinct (order K) \<and> set (order K) = K)"

definition db_new :: database where
  "db_new = \<lparr>tables = (\<lambda>_. None), store = None, read_only = False, memory_limit = 0\<rparr>"

section \<open>The catalogue\<close>

definition key :: "(rstr \<Rightarrow> rstr) \<Rightarrow> rstr \<Rightarrow> rstr" where
  "key lower name = lower name"

definition table_of :: "(rstr \<Rightarrow> rstr) \<Rightarrow> catalog \<Rightarrow> rstr \<Rightarrow> table option" where
  "table_of lower m name = m (key lower name)"

definition schema_of :: "(rstr \<Rightarrow> rstr) \<Rightarrow> catalog \<Rightarrow> rstr \<Rightarrow> schema option" where
  "schema_of lower m name = map_option tschema (table_of lower m name)"

definition put_table :: "(rstr \<Rightarrow> rstr) \<Rightarrow> catalog \<Rightarrow> table \<Rightarrow> catalog" where
  "put_table lower m t = m(key lower (tname t) \<mapsto> t)"

definition drop_table_inner :: "(rstr \<Rightarrow> rstr) \<Rightarrow> catalog \<Rightarrow> rstr \<Rightarrow> catalog \<times> bool" where
  "drop_table_inner lower m name = (m(key lower name := None), m (key lower name) \<noteq> None)"

definition insert_inner ::
  "(rstr \<Rightarrow> rstr) \<Rightarrow> catalog \<Rightarrow> rstr \<Rightarrow> rvalue list list \<Rightarrow> catalog \<times> nat res" where
  "insert_inner lower m name rows =
     (case table_of lower m name of
        None \<Rightarrow> (m, Inl (Table_missing name))
      | Some t \<Rightarrow> (case insert_many t rows of (t', r) \<Rightarrow> (m(key lower name \<mapsto> t'), r)))"

text \<open>\<open>Database::apply\<close>: the one path of recovery and of the replica.\<close>

definition apply_record :: "(rstr \<Rightarrow> rstr) \<Rightarrow> catalog \<Rightarrow> wal_record \<Rightarrow> catalog \<times> unit res" where
  "apply_record lower m rec =
     (case rec of
        CreateTable name s \<Rightarrow>
          (case table_new name s of
             Inl e \<Rightarrow> (m, Inl e)
           | Inr t \<Rightarrow> (put_table lower m t, Inr ()))
      | DropTable name \<Rightarrow> (fst (drop_table_inner lower m name), Inr ())
      | InsertRows name rows \<Rightarrow>
          (case insert_inner lower m name rows of
             (m', Inl e) \<Rightarrow> (m', Inl e)
           | (m', Inr _) \<Rightarrow> (m', Inr ())))"

text \<open>The tables in the order the hash map lists them.\<close>

definition values_of :: "(rstr set \<Rightarrow> rstr list) \<Rightarrow> catalog \<Rightarrow> table list" where
  "values_of order m = map (\<lambda>k. the (m k)) (order (dom m))"

definition bytes_used :: "(rstr set \<Rightarrow> rstr list) \<Rightarrow> database \<Rightarrow> nat" where
  "bytes_used order db = sum_list (map table_bytes_used (values_of order (tables db)))"

definition table_names :: "(rstr set \<Rightarrow> rstr list) \<Rightarrow> database \<Rightarrow> rstr list" where
  "table_names order db = sort (map tname (values_of order (tables db)))"

section \<open>Settings\<close>

definition set_read_only :: "bool \<Rightarrow> database \<Rightarrow> database" where
  "set_read_only v db = db\<lparr>read_only := v\<rparr>"

definition set_memory_limit :: "u64 \<Rightarrow> database \<Rightarrow> database" where
  "set_memory_limit v db = db\<lparr>memory_limit := v\<rparr>"

definition is_persistent :: "database \<Rightarrow> bool" where
  "is_persistent db \<longleftrightarrow> store db \<noteq> None"

definition next_lsn :: "database \<Rightarrow> u64" where
  "next_lsn db = (case store db of None \<Rightarrow> 0 | Some s \<Rightarrow> wnext (store_wal s))"

definition deny_if_read_only :: "string \<Rightarrow> database \<Rightarrow> unit res" where
  "deny_if_read_only what db = (if read_only db then Inl (Read_only what) else Inr ())"

section \<open>The write path\<close>

definition log_record :: "(rstr \<Rightarrow> rstr) \<Rightarrow> database \<Rightarrow> wal_record \<Rightarrow> database \<times> unit res" where
  "log_record lower db rec =
     (case store db of
        None \<Rightarrow> (db, Inr ())
      | Some s \<Rightarrow>
          (case wal_encode (schema_of lower (tables db)) rec of
             Inl e \<Rightarrow> (db, Inl e)
           | Inr p \<Rightarrow>
               (db\<lparr>store := Some (s\<lparr>store_wal := fst (wal_append (store_wal s) p)\<rparr>)\<rparr>, Inr ())))"

definition create_table :: "(rstr \<Rightarrow> rstr) \<Rightarrow> database \<Rightarrow> rstr \<Rightarrow> schema \<Rightarrow> database \<times> unit res" where
  "create_table lower db name s =
     (case deny_if_read_only ''CREATE TABLE'' db of
        Inl e \<Rightarrow> (db, Inl e)
      | Inr _ \<Rightarrow>
          (case table_new name s of
             Inl e \<Rightarrow> (db, Inl e)
           | Inr t \<Rightarrow>
               if tables db (key lower name) \<noteq> None then (db, Inl (Table_exists name))
               else log_record lower (db\<lparr>tables := (tables db)(key lower name \<mapsto> t)\<rparr>)
                      (CreateTable name s)))"

definition drop_table :: "(rstr \<Rightarrow> rstr) \<Rightarrow> database \<Rightarrow> rstr \<Rightarrow> database \<times> bool res" where
  "drop_table lower db name =
     (case deny_if_read_only ''DROP TABLE'' db of
        Inl e \<Rightarrow> (db, Inl e)
      | Inr _ \<Rightarrow>
          (case drop_table_inner lower (tables db) name of
             (m, False) \<Rightarrow> (db\<lparr>tables := m\<rparr>, Inr False)
           | (m, True) \<Rightarrow>
               (case log_record lower (db\<lparr>tables := m\<rparr>) (DropTable name) of
                  (db', Inl e) \<Rightarrow> (db', Inl e)
                | (db', Inr _) \<Rightarrow> (db', Inr True))))"

definition insert_rows ::
  "(rstr \<Rightarrow> rstr) \<Rightarrow> (rstr set \<Rightarrow> rstr list) \<Rightarrow> database \<Rightarrow> rstr \<Rightarrow> rvalue list list \<Rightarrow>
   database \<times> nat res" where
  "insert_rows lower order db name rows =
     (case deny_if_read_only ''INSERT'' db of
        Inl e \<Rightarrow> (db, Inl e)
      | Inr _ \<Rightarrow>
          if 0 < memory_limit db \<and> unat (memory_limit db) \<le> bytes_used order db
          then (db, Inl (Memory_limit (bytes_used order db) (memory_limit db)))
          else
            (case insert_inner lower (tables db) name rows of
               (m, Inl e) \<Rightarrow> (db\<lparr>tables := m\<rparr>, Inl e)
             | (m, Inr n) \<Rightarrow>
                 (case log_record lower (db\<lparr>tables := m\<rparr>) (InsertRows name rows) of
                    (db', Inl e) \<Rightarrow> (db', Inl e)
                  | (db', Inr _) \<Rightarrow> (db', Inr n))))"

text \<open>
  The free function \<open>reorder\<close>. The position vector starts at \<open>usize::MAX\<close> (here \<open>None\<close>);
  reading a row at a position it does not have is a panic.
\<close>

fun reorder_positions :: "schema \<Rightarrow> nat \<Rightarrow> rstr list \<Rightarrow> nat option list \<Rightarrow> nat option list res" where
  "reorder_positions s i [] pos = Inr pos"
| "reorder_positions s i (n # ns) pos =
     and_then (ok_or (index_of s n) (No_column n)) (\<lambda>target.
     if pos ! target \<noteq> None then Inl (Column_twice n)
     else reorder_positions s (i + 1) ns (pos[target := Some i]))"

definition reorder_row :: "nat option list \<Rightarrow> rvalue list \<Rightarrow> rvalue list res" where
  "reorder_row pos r =
     map_res (\<lambda>p. case p of None \<Rightarrow> Inl (Panic ''index out of bounds'') | Some i \<Rightarrow> index_at r i) pos"

definition reorder ::
  "(rstr \<Rightarrow> rstr) \<Rightarrow> database \<Rightarrow> rstr \<Rightarrow> rstr list \<Rightarrow> rvalue list list \<Rightarrow> rvalue list list res" where
  "reorder lower db tab names rows =
     and_then (ok_or (schema_of lower (tables db) tab) (Table_missing tab)) (\<lambda>s.
     if length names \<noteq> schema_len s then Inl (Insert_columns (length names) (schema_len s))
     else and_then (reorder_positions s 0 names (replicate (schema_len s) None)) (\<lambda>pos.
       map_res (reorder_row pos) rows))"

section \<open>Snapshots and recovery\<close>

definition db_snapshot :: "(rstr set \<Rightarrow> rstr list) \<Rightarrow> database \<Rightarrow> database \<times> u64 res" where
  "db_snapshot order db =
     (case store db of
        None \<Rightarrow> (db, Inl No_data_dir)
      | Some s \<Rightarrow>
          (let lsn = wnext (store_wal s) - 1 in
           (db\<lparr>store := Some
                 \<lparr>store_snapshot = Some (encode_snapshot (values_of order (tables db)) lsn),
                  store_wal = wal_reset (store_wal s)\<rparr>\<rparr>, Inr lsn)))"

definition snapshot_bytes :: "(rstr set \<Rightarrow> rstr list) \<Rightarrow> database \<Rightarrow> u8 list" where
  "snapshot_bytes order db =
     encode_snapshot (values_of order (tables db))
       (case store db of None \<Rightarrow> 0 | Some s \<Rightarrow> wnext (store_wal s) - 1)"

definition load_tables :: "(rstr \<Rightarrow> rstr) \<Rightarrow> table list \<Rightarrow> catalog" where
  "load_tables lower ts = foldl (put_table lower) (\<lambda>_. None) ts"

definition load_snapshot_bytes :: "(rstr \<Rightarrow> rstr) \<Rightarrow> database \<Rightarrow> u8 list \<Rightarrow> database \<times> u64 res" where
  "load_snapshot_bytes lower db bytes =
     (case decode_snapshot bytes of
        Inl e \<Rightarrow> (db, Inl e)
      | Inr (ts, lsn) \<Rightarrow> (db\<lparr>tables := load_tables lower ts\<rparr>, Inr lsn))"

definition wal_since :: "database \<Rightarrow> u64 \<Rightarrow> (database \<times> raw_record list) res" where
  "wal_since db after =
     (case store db of
        None \<Rightarrow> Inr (db, [])
      | Some s \<Rightarrow>
          and_then (wal_records_after (store_wal s) after) (\<lambda>(w, rs).
          Inr (db\<lparr>store := Some (s\<lparr>store_wal := w\<rparr>)\<rparr>, rs)))"

definition apply_payload :: "(rstr \<Rightarrow> rstr) \<Rightarrow> catalog \<Rightarrow> u8 list \<Rightarrow> catalog \<times> unit res" where
  "apply_payload lower m p =
     (case with_context ''WAL record'' (wal_decode (schema_of lower m) p) of
        Inl e \<Rightarrow> (m, Inl e)
      | Inr rec \<Rightarrow>
          (case apply_record lower m rec of
             (m', Inl e) \<Rightarrow> (m', Inl (Context ''applying WAL record'' e))
           | (m', Inr _) \<Rightarrow> (m', Inr ())))"

text \<open>The replay loop of \<open>Database::open\<close>: records the snapshot already has are skipped.\<close>

fun replay :: "(rstr \<Rightarrow> rstr) \<Rightarrow> u64 \<Rightarrow> catalog \<Rightarrow> raw_record list \<Rightarrow> catalog res" where
  "replay lower snap_lsn m [] = Inr m"
| "replay lower snap_lsn m ((lsn, p) # rs) =
     (if lsn \<le> snap_lsn then replay lower snap_lsn m rs
      else case apply_payload lower m p of
        (m', Inl e) \<Rightarrow> Inl e
      | (m', Inr _) \<Rightarrow> replay lower snap_lsn m' rs)"

definition load_base :: "(rstr \<Rightarrow> rstr) \<Rightarrow> u8 list option \<Rightarrow> (catalog \<times> u64) res" where
  "load_base lower snap =
     (case snap of
        None \<Rightarrow> Inr (\<lambda>_. None, 0)
      | Some bytes \<Rightarrow>
          and_then (read_snapshot bytes) (\<lambda>(ts, lsn). Inr (load_tables lower ts, lsn)))"

definition db_open :: "(rstr \<Rightarrow> rstr) \<Rightarrow> durability \<Rightarrow> disk \<Rightarrow> database res" where
  "db_open lower d dsk =
     and_then (load_base lower (snapshot_file dsk)) (\<lambda>(m, snap_lsn).
     and_then (wal_open (wal_file dsk) d) (\<lambda>(w, rs).
     and_then (replay lower snap_lsn m rs) (\<lambda>m'.
     Inr \<lparr>tables = m',
          store = Some \<lparr>store_snapshot = snapshot_file dsk, store_wal = w\<rparr>,
          read_only = False, memory_limit = 0\<rparr>)))"

text \<open>The data directory of a running database.\<close>

definition disk_of :: "database \<Rightarrow> disk" where
  "disk_of db =
     (case store db of
        None \<Rightarrow> \<lparr>snapshot_file = None, tmp_file = None, wal_file = []\<rparr>
      | Some s \<Rightarrow>
          \<lparr>snapshot_file = store_snapshot s, tmp_file = None, wal_file = wfile (store_wal s)\<rparr>)"

definition fresh_disk :: disk where
  "fresh_disk = \<lparr>snapshot_file = None, tmp_file = None, wal_file = []\<rparr>"

section \<open>Well-formed catalogues\<close>

definition catalog_wf :: "(rstr \<Rightarrow> rstr) \<Rightarrow> catalog \<Rightarrow> bool" where
  "catalog_wf lower m \<longleftrightarrow>
     finite (dom m) \<and> (\<forall>k t. m k = Some t \<longrightarrow> k = key lower (tname t) \<and> table_wf t)"

definition catalog_small :: "catalog \<Rightarrow> bool" where
  "catalog_small m \<longleftrightarrow> card (dom m) < 2 ^ 64 \<and> (\<forall>t \<in> ran m. table_small t)"

lemma catalog_wf_empty [simp]: "catalog_wf lower (\<lambda>_. None)"
  by (simp add: catalog_wf_def)

lemma catalog_wf_put: "catalog_wf lower m \<Longrightarrow> table_wf t \<Longrightarrow> catalog_wf lower (put_table lower m t)"
  by (auto simp: catalog_wf_def put_table_def)

lemma catalog_wf_update:
  "catalog_wf lower m \<Longrightarrow> table_wf t \<Longrightarrow> key lower (tname t) = key lower n \<Longrightarrow>
   catalog_wf lower (m(key lower n \<mapsto> t))"
  by (auto simp: catalog_wf_def)

lemma catalog_wf_delete: "catalog_wf lower m \<Longrightarrow> catalog_wf lower (m(k := None))"
  by (auto simp: catalog_wf_def)

lemma catalog_wfD:
  "catalog_wf lower m \<Longrightarrow> table_of lower m n = Some t \<Longrightarrow>
   key lower (tname t) = key lower n \<and> table_wf t"
  by (auto simp: catalog_wf_def table_of_def)

lemma table_wf_new: "table_new n s = Inr t \<Longrightarrow> table_wf t"
  using table_rep_new by (auto simp: table_wf_def)

text \<open>Loading the tables a catalogue lists, in any order, rebuilds the catalogue.\<close>

lemma load_tables_map:
  assumes "\<And>k. k \<in> set ks \<Longrightarrow> \<exists>t. m k = Some t \<and> key lower (tname t) = k"
  shows "foldl (put_table lower) m0 (map (\<lambda>k. the (m k)) ks) =
         (\<lambda>k. if k \<in> set ks then m k else m0 k)"
  using assms
proof (induction ks arbitrary: m0)
  case Nil
  then show ?case by simp
next
  case (Cons k ks)
  obtain t where t: "m k = Some t" "key lower (tname t) = k" using Cons.prems by auto
  have "foldl (put_table lower) (put_table lower m0 t) (map (\<lambda>k. the (m k)) ks) =
      (\<lambda>j. if j \<in> set ks then m j else put_table lower m0 t j)"
    using Cons.IH Cons.prems by simp
  moreover have "put_table lower m0 t j = (if j = k then m k else m0 j)" for j
    using t by (simp add: put_table_def)
  ultimately show ?case using t by (auto simp: fun_eq_iff)
qed

lemma load_tables_values:
  assumes "lists_keys order" and "catalog_wf lower m"
  shows "load_tables lower (values_of order m) = m"
proof -
  have dom: "set (order (dom m)) = dom m" using assms by (simp add: lists_keys_def catalog_wf_def)
  have "\<exists>t. m k = Some t \<and> key lower (tname t) = k" if "k \<in> set (order (dom m))" for k
    using that dom assms(2) by (auto simp: catalog_wf_def)
  from load_tables_map [OF this, of "order (dom m)" "\<lambda>_. None"] have
    "load_tables lower (values_of order m) = (\<lambda>k. if k \<in> dom m then m k else None)"
    by (simp only: load_tables_def values_of_def dom)
  then show ?thesis by (simp add: fun_eq_iff domIff)
qed

lemma snapshot_ok_values:
  assumes "lists_keys order" and "catalog_wf lower m" and "catalog_small m"
  shows "snapshot_ok (values_of order m)"
proof -
  have dom: "set (order (dom m)) = dom m" "distinct (order (dom m))"
    using assms by (simp_all add: lists_keys_def catalog_wf_def)
  then have "length (values_of order m) = card (dom m)"
    by (simp add: values_of_def distinct_card [symmetric])
  moreover have "table_wf t \<and> table_small t" if "t \<in> set (values_of order m)" for t
    using that dom assms by (fastforce simp: values_of_def catalog_wf_def catalog_small_def ran_def)
  ultimately show ?thesis using assms(3) by (simp add: snapshot_ok_def catalog_small_def)
qed

section \<open>Applying what was logged\<close>

lemma value_exact_cell: "value_exact ty v \<Longrightarrow> cell_ok ty v \<and> stored ty v = v"
  by (cases ty; cases v) (auto simp: value_exact_def cell_ok_def type_of_def)

lemma row_exact_ok: "row_exact (sfields s) r \<Longrightarrow> row_ok s r \<and> stored_row s r = r"
proof -
  assume r: "row_exact (sfields s) r"
  then have "row_ok s r"
    by (auto simp: row_exact_def row_ok_def value_exact_cell elim!: list.rel_mono_strong)
  moreover have "stored_row s r = r"
    using r by (auto simp: row_exact_def stored_row_def list_all2_conv_all_nth value_exact_cell
        intro!: nth_equalityI)
  ultimately show ?thesis by simp
qed

lemma insert_inner_exact:
  assumes wf: "catalog_wf lower m" and t: "table_of lower m n = Some t"
    and rows: "\<forall>r \<in> set rs. row_exact (sfields (tschema t)) r" and fit: "batch_fits t rs"
  obtains t' where "insert_inner lower m n rs = (m(key lower n \<mapsto> t'), Inr (length rs))"
    and "tname t' = tname t" and "tschema t' = tschema t" and "table_wf t'"
    and "\<And>old. table_rep t old \<Longrightarrow> table_rep t' (old @ rs)"
proof -
  obtain old where old: "table_rep t old"
    using catalog_wfD [OF wf t] by (auto simp: table_wf_def)
  have ok: "\<forall>r \<in> set rs. row_ok (tschema t) r" and same: "map (stored_row (tschema t)) rs = rs"
    using rows row_exact_ok by (auto intro: map_idI)
  obtain t' where t': "insert_many t rs = (t', Inr (length rs))" "table_rep t' (old @ rs)"
    "tname t' = tname t" "tschema t' = tschema t"
    using insert_many_ok [OF old ok fit] same by auto
  have "table_rep t' (x @ rs)" if "table_rep t x" for x
    using t'(2) table_rep_unique [OF old that] by simp
  with that t' t show thesis by (auto simp: insert_inner_def table_wf_def)
qed

lemma apply_payload_record:
  assumes "wal_decode (schema_of lower m) p = Inr rec" and "apply_record lower m rec = (m', Inr u)"
  shows "apply_payload lower m p = (m', Inr ())"
  using assms by (simp add: apply_payload_def)

lemma replay_append:
  "replay lower b m (xs @ ys) = and_then (replay lower b m xs) (\<lambda>m'. replay lower b m' ys)"
  by (induction xs arbitrary: m) (auto split: prod.splits sum.splits)

lemma replay_skipped: "\<forall>(l, p) \<in> set rs. l \<le> b \<Longrightarrow> replay lower b m rs = Inr m"
  by (induction rs) auto

section \<open>Durability\<close>

text \<open>Log sequence numbers that go up by one, starting at \<open>n\<close>.\<close>

fun consecutive :: "u64 \<Rightarrow> raw_record list \<Rightarrow> bool" where
  "consecutive n [] \<longleftrightarrow> True"
| "consecutive n ((l, p) # rs) \<longleftrightarrow> l = n \<and> consecutive (n + 1) rs"

lemma consecutive_append:
  "consecutive n (rs @ qs) \<longleftrightarrow> consecutive n rs \<and> consecutive (n + word_of_nat (length rs)) qs"
  by (induction n rs rule: consecutive.induct) (auto simp: algebra_simps)

lemma consecutive_next_after:
  "consecutive n rs \<Longrightarrow> rs \<noteq> [] \<Longrightarrow> next_after rs = n + word_of_nat (length rs)"
  by (cases rs rule: rev_cases) (auto simp: consecutive_append next_after_def)

lemma consecutive_bounds:
  "consecutive n rs \<Longrightarrow> unat n + length rs < 2 ^ 64 \<Longrightarrow> (l, p) \<in> set rs \<Longrightarrow>
   unat n \<le> unat l \<and> unat l < unat n + length rs"
proof (induction n rs rule: consecutive.induct)
  case (2 n l' p' rs)
  then have "unat (n + 1) = unat n + 1" by (simp add: unat_word_ariths)
  with 2 show ?case by auto
qed simp

text \<open>
  \<open>durable lower db\<close>: what is on disk determines the tables in memory. The snapshot decodes,
  replaying the records of the WAL on top of it gives exactly \<open>tables db\<close>, the records are
  numbered without a gap up to the next LSN, and that lies above the LSN of the snapshot, so the
  next record will not be skipped.
\<close>

definition durable_as ::
  "(rstr \<Rightarrow> rstr) \<Rightarrow> database \<Rightarrow> store \<Rightarrow> raw_record list \<Rightarrow> u64 \<Rightarrow> catalog \<Rightarrow> u64 \<Rightarrow> bool" where
  "durable_as lower db s rs first m b \<longleftrightarrow>
     catalog_wf lower (tables db) \<and> store db = Some s \<and> wal_rep (store_wal s) rs \<and>
     load_base lower (store_snapshot s) = Inr (m, b) \<and>
     replay lower b m rs = Inr (tables db) \<and>
     b < wnext (store_wal s) \<and> consecutive first rs \<and>
     unat first + length rs = unat (wnext (store_wal s))"

definition durable :: "(rstr \<Rightarrow> rstr) \<Rightarrow> database \<Rightarrow> bool" where
  "durable lower db \<longleftrightarrow> (\<exists>s rs first m b. durable_as lower db s rs first m b)"

lemma durableI: "durable_as lower db s rs first m b \<Longrightarrow> durable lower db"
  unfolding durable_def by blast

lemma durableE:
  assumes "durable lower db" and "store db = Some s"
  obtains rs first m b where "durable_as lower db s rs first m b"
  using assms by (auto simp: durable_def durable_as_def)

lemma durable_store: "durable lower db \<Longrightarrow> \<exists>s. store db = Some s"
  by (auto simp: durable_def durable_as_def)

lemma durable_wf: "durable lower db \<Longrightarrow> catalog_wf lower (tables db)"
  by (auto simp: durable_def durable_as_def)

text \<open>The records of the log lie below the next LSN.\<close>

lemma durable_below:
  assumes "durable_as lower db s rs first m b"
  shows "\<forall>(l, p) \<in> set rs. l < wnext (store_wal s)"
proof -
  from assms have c: "consecutive first rs" and n: "unat first + length rs = unat (wnext (store_wal s))"
    by (auto simp: durable_as_def)
  have "unat first + length rs < 2 ^ 64" using n unat_u64_less [of "wnext (store_wal s)"] by simp
  with consecutive_bounds [OF c this] n show ?thesis by (auto simp: word_less_nat_alt)
qed

lemma lsn_sum: "unat (a :: u64) + n = unat b \<Longrightarrow> a + word_of_nat n = b"
  by (metis of_nat_add of_nat_unat ucast_id)

lemma durable_next_after:
  assumes "durable_as lower db s rs first m b" and "rs \<noteq> []"
  shows "next_after rs = wnext (store_wal s)"
proof -
  from assms have "next_after rs = first + word_of_nat (length rs)"
    by (simp add: durable_as_def consecutive_next_after)
  with assms(1) lsn_sum show ?thesis by (simp add: durable_as_def)
qed

text \<open>Opening the directory of a durable database gives its tables back.\<close>

lemma durable_open_as:
  assumes "durable_as lower db s rs first m b"
  shows "db_open lower d (disk_of db) =
     Inr \<lparr>tables = tables db,
          store = Some (s\<lparr>store_wal := (store_wal s)\<lparr>wnext := next_after rs, wdurability := d\<rparr>\<rparr>),
          read_only = False, memory_limit = 0\<rparr>"
proof -
  from assms have "wal_rep (store_wal s) rs" by (simp add: durable_as_def)
  from wal_open_rep [OF this, of d] assms show ?thesis
    by (cases s) (simp add: durable_as_def db_open_def disk_of_def)
qed

lemma durable_open:
  assumes "durable lower db"
  shows "\<exists>db'. db_open lower d (disk_of db) = Inr db' \<and> tables db' = tables db"
  using assms durable_open_as unfolding durable_def by fastforce

text \<open>
  Logging a change keeps durability: the payload, applied to the old tables, gives the new ones.
\<close>

lemma durable_logged:
  assumes dur: "durable lower db" and s: "store db = Some s" and small: "payload_small p"
    and app: "apply_payload lower (tables db) p = (m', Inr ())" and wf: "catalog_wf lower m'"
    and lsn: "unat (next_lsn db) < 2 ^ 64 - 1"
  shows "durable lower
     (db\<lparr>tables := m', store := Some (s\<lparr>store_wal := fst (wal_append (store_wal s) p)\<rparr>)\<rparr>)"
proof -
  let ?w = "store_wal s"
  from dur s obtain rs first m b where d: "durable_as lower db s rs first m b" by (rule durableE)
  have up: "unat (wnext ?w + 1) = unat (wnext ?w) + 1"
    using lsn s by (simp add: next_lsn_def unat_word_ariths)
  have not_skipped: "\<not> wnext ?w \<le> b" using d by (auto simp: durable_as_def)
  have "replay lower b m (rs @ [(wnext ?w, p)]) = Inr m'"
    using d app not_skipped by (simp add: durable_as_def replay_append)
  moreover have "wal_rep (fst (wal_append ?w p)) (rs @ [(wnext ?w, p)])"
    using d small by (auto simp: durable_as_def intro: wal_rep_append)
  moreover have "b < wnext (fst (wal_append ?w p))"
    using d up by (simp add: durable_as_def wal_append_def word_less_nat_alt)
  moreover have "first + word_of_nat (length rs) = wnext ?w"
    using d lsn_sum by (simp add: durable_as_def)
  then have "consecutive first (rs @ [(wnext ?w, p)])"
    using d by (simp add: consecutive_append durable_as_def)
  ultimately have "durable_as lower
      (db\<lparr>tables := m', store := Some (s\<lparr>store_wal := fst (wal_append ?w p)\<rparr>)\<rparr>)
      (s\<lparr>store_wal := fst (wal_append ?w p)\<rparr>) (rs @ [(wnext ?w, p)]) first m b"
    using d wf up by (simp add: durable_as_def wal_append_def)
  then show ?thesis by (rule durableI)
qed

lemma lsn_minus_one: "b < (n :: u64) \<Longrightarrow> n - 1 < n"
proof -
  assume "b < n"
  then have "n \<noteq> 0" by auto
  then show ?thesis by (simp add: word_less_nat_alt unat_minus_one unat_gt_0)
qed

lemma durable_snapshot_as:
  assumes dur: "durable lower db" and ord: "lists_keys order" and small: "catalog_small (tables db)"
    and s: "store db = Some s"
  shows "durable_as lower (fst (db_snapshot order db))
     \<lparr>store_snapshot = Some (encode_snapshot (values_of order (tables db)) (next_lsn db - 1)),
      store_wal = wal_reset (store_wal s)\<rparr> [] (next_lsn db) (tables db) (next_lsn db - 1)"
proof -
  from dur s obtain rs first m b where "durable_as lower db s rs first m b" by (rule durableE)
  then have "b < wnext (store_wal s)" by (simp add: durable_as_def)
  then have "wnext (store_wal s) - 1 < wnext (store_wal s)" by (rule lsn_minus_one)
  moreover have "read_snapshot (encode_snapshot (values_of order (tables db)) (wnext (store_wal s) - 1)) =
      Inr (values_of order (tables db), wnext (store_wal s) - 1)"
    using decode_encode_snapshot [OF snapshot_ok_values [OF ord durable_wf [OF dur] small]]
    by (simp add: read_snapshot_def)
  ultimately show ?thesis
    using s durable_wf [OF dur] load_tables_values [OF ord durable_wf [OF dur]]
      wal_rep_reset [of "store_wal s"]
    by (simp add: durable_as_def db_snapshot_def Let_def load_base_def wal_reset_def next_lsn_def)
qed

lemma durable_snapshot:
  assumes "durable lower db" and "lists_keys order" and "catalog_small (tables db)"
  shows "durable lower (fst (db_snapshot order db))"
  using durable_store [OF assms(1)] durable_snapshot_as [OF assms] by (auto intro: durableI)

lemma wal_rep_fresh: "wal_rep \<lparr>wfile = wal_header, wnext = n, wdurability = d\<rparr> []"
  by (simp add: wal_rep_def)

lemma durable_fresh:
  "\<exists>db. db_open lower d fresh_disk = Inr db \<and> durable lower db \<and> tables db = (\<lambda>_. None) \<and>
        next_lsn db = 1 \<and> \<not> read_only db \<and> memory_limit db = 0"
proof -
  let ?s = "\<lparr>store_snapshot = None, store_wal = \<lparr>wfile = wal_header, wnext = 1, wdurability = d\<rparr>\<rparr>"
  let ?db = "\<lparr>tables = \<lambda>_. None, store = Some ?s, read_only = False, memory_limit = 0\<rparr>"
  have "durable_as lower ?db ?s [] 1 (\<lambda>_. None) 0"
    by (simp add: durable_as_def load_base_def wal_rep_fresh)
  then have "durable lower ?db" by (rule durableI)
  moreover have "db_open lower d fresh_disk = Inr ?db"
    by (simp add: db_open_def fresh_disk_def load_base_def wal_open_empty)
  ultimately show ?thesis by (simp add: next_lsn_def)
qed

end
