(* ===== verification/Engine.thy ===== *)
theory Engine
  imports Sql Select Database
begin

text \<open>
  \<open>Database::run\<close> and \<open>Database::execute\<close>: a statement on the database, the point where the planner, the
  executor and the storage meet.
\<close>

section \<open>Execution of statements\<close>

text \<open>The message about a table: its name in single quotes and what became of it.\<close>

definition quoted :: "rstr \<Rightarrow> rstr \<Rightarrow> query_result" where
  "quoted name what = message (uni [1090, 1072, 1073, 1083, 1080, 1094, 1072, 32, 39] @ name @ uni [39, 32] @ what)"

text \<open>\<open>Database::run\<close>.\<close>

definition run_statement ::
  "(rstr \<Rightarrow> rstr) \<Rightarrow> (rstr \<Rightarrow> rstr) \<Rightarrow> (rstr \<Rightarrow> u64) \<Rightarrow> (rstr set \<Rightarrow> rstr list) \<Rightarrow> database \<Rightarrow> statement \<Rightarrow>
   database \<times> query_result res" where
  "run_statement lower upper hash order db st =
     (case st of
        St_CreateTable name s if_not_exists \<Rightarrow>
          if if_not_exists \<and> table_of lower (tables db) name \<noteq> None
          then (db, Inr (quoted name (uni [1091, 1078, 1077, 32, 1077, 1089, 1090, 1100])))
          else
            (case create_table lower db name s of
               (db', Inl e) \<Rightarrow> (db', Inl e)
             | (db', Inr _) \<Rightarrow> (db', Inr (quoted name (uni [1089, 1086, 1079, 1076, 1072, 1085, 1072]))))
      | St_DropTable name if_exists \<Rightarrow>
          (case drop_table lower db name of
             (db', Inl e) \<Rightarrow> (db', Inl e)
           | (db', Inr found) \<Rightarrow>
               if \<not> found \<and> \<not> if_exists then (db', Inl (Table_missing name))
               else (db', Inr (quoted name (uni [1091, 1076, 1072, 1083, 1077, 1085, 1072]))))
      | St_Insert tab cols rows \<Rightarrow>
          (case (case cols of None \<Rightarrow> Inr rows | Some names \<Rightarrow> reorder lower db tab names rows) of
             Inl e \<Rightarrow> (db, Inl e)
           | Inr rows' \<Rightarrow>
               (case insert_rows lower order db tab rows' of
                  (db', Inl e) \<Rightarrow> (db', Inl e)
                | (db', Inr n) \<Rightarrow> (db', Inr (message (uni [1074, 1089, 1090, 1072, 1074, 1083, 1077, 1085, 1086, 32, 1089, 1090, 1088, 1086, 1082] @ str '': '' @ dec_digits n)))))
      | St_Select q \<Rightarrow>
          (db,
           case sel_table q of
             None \<Rightarrow> run_select lower upper hash q None
           | Some name \<Rightarrow>
               and_then (ok_or (table_of lower (tables db) name) (Table_missing name)) (\<lambda>t.
               run_select lower upper hash q (Some t)))
      | St_ShowTables \<Rightarrow>
          (db, Inr \<lparr>qcolumns = [str ''name'', str ''rows''], qtypes = [DT_Str, DT_I64],
             qrows = map (\<lambda>n.
               [V_Str n, V_I64 (word_of_nat (case table_of lower (tables db) n of None \<Rightarrow> 0 | Some t \<Rightarrow> nrows t))])
               (table_names order db)\<rparr>)
      | St_Describe name \<Rightarrow>
          (db,
           and_then (ok_or (table_of lower (tables db) name) (Table_missing name)) (\<lambda>t.
           Inr \<lparr>qcolumns = [str ''column'', str ''type''], qtypes = [DT_Str, DT_Str],
                qrows = map (\<lambda>f. [V_Str (fname f), V_Str (type_name (fty f))]) (sfields (tschema t))\<rparr>)))"

definition execute ::
  "(rstr \<Rightarrow> sql_statement list option) \<Rightarrow> (sql_expr \<Rightarrow> rstr) \<Rightarrow> (rstr \<Rightarrow> rstr) \<Rightarrow> (rstr \<Rightarrow> rstr) \<Rightarrow>
   (rstr \<Rightarrow> u64) \<Rightarrow> (rstr set \<Rightarrow> rstr list) \<Rightarrow> database \<Rightarrow> rstr \<Rightarrow> database \<times> query_result res" where
  "execute parse shown lower upper hash order db text =
     (case plan parse shown (schema_of lower (tables db)) text of
        Inl e \<Rightarrow> (db, Inl e)
      | Inr st \<Rightarrow> run_statement lower upper hash order db st)"

end
