(* ===== verification/Pointwise.thy ===== *)
theory Pointwise
  imports Select
begin

text \<open>
  Vectorised evaluation is evaluation row by row: the value an expression has in a row depends on
  that row alone. \<open>cell a i\<close> is the array that evaluating row \<open>i\<close> alone gives; one lemma per
  operator shows that the operator commutes with \<open>cell\<close>, and \<open>eval_cell\<close> puts them together by
  induction on the expression. Two functions break the rule, \<open>round\<close> and \<open>date_trunc\<close>, which read
  only the first row of one of their arguments.
\<close>

section \<open>One row of an array\<close>

text \<open>
  \<open>val xs i\<close> is the value that row \<open>i\<close> sees of a broadcast list, \<open>cell a i\<close> the array of one value
  that the evaluation of row \<open>i\<close> alone would produce.
\<close>

definition val :: "'a list \<Rightarrow> nat \<Rightarrow> 'a" where
  "val xs i = xs ! at (length xs) i"

definition cell :: "arr \<Rightarrow> nat \<Rightarrow> arr" where
  "cell a i =
     (case a of
        Arr_I64 v \<Rightarrow> Arr_I64 [val v i]
      | Arr_F64 v \<Rightarrow> Arr_F64 [val v i]
      | Arr_Bool v \<Rightarrow> Arr_Bool [val v i]
      | Arr_Str v \<Rightarrow> Arr_Str [val v i]
      | Arr_Vector dim rows \<Rightarrow> Arr_Vector dim [val rows i])"

definition fit :: "nat \<Rightarrow> nat \<Rightarrow> bool" where
  "fit n k \<longleftrightarrow> k = n \<or> k = 1"

lemma val_single [simp]: "val [x] i = x"
  by (simp add: val_def at_def)

lemma cell_simps [simp]:
  "cell (Arr_I64 v) i = Arr_I64 [val v i]"
  "cell (Arr_F64 d) i = Arr_F64 [val d i]"
  "cell (Arr_Bool b) i = Arr_Bool [val b i]"
  "cell (Arr_Str s) i = Arr_Str [val s i]"
  "cell (Arr_Vector dim rows) i = Arr_Vector dim [val rows i]"
  by (simp_all add: cell_def)

lemma arr_len_simps [simp]:
  "arr_len (Arr_I64 v) = length v" "arr_len (Arr_F64 d) = length d"
  "arr_len (Arr_Bool b) = length b" "arr_len (Arr_Str s) = length s"
  "arr_len (Arr_Vector dim rows) = length rows"
  by (simp_all add: arr_len_def)

lemma arr_len_cell [simp]: "arr_len (cell a i) = 1"
  by (cases a) simp_all

lemma arr_type_cell [simp]: "arr_type (cell a i) = arr_type a"
  by (cases a) (simp_all add: arr_type_def)

lemma is_str_cell [simp]: "is_str (cell a i) = is_str a"
  by (cases a) (simp_all add: is_str_def)

lemma at_one [simp]: "at (Suc 0) i = 0" by (simp add: at_def)

lemma at_less: "fit n k \<Longrightarrow> i < n \<Longrightarrow> at k i < k"
  by (auto simp: fit_def at_def)

lemma val_map: "fit n (length xs) \<Longrightarrow> i < n \<Longrightarrow> val (map g xs) i = g (val xs i)"
  using at_less [of n "length xs" i] by (simp add: val_def)

lemma pick_at_val: "fit n (length xs) \<Longrightarrow> i < n \<Longrightarrow> pick_at xs i = Inr (val xs i)"
  using at_less [of n "length xs" i] by (simp add: pick_at_def val_def)

lemma pick_at_single [simp]: "pick_at [x] i = Inr x"
  by (simp add: pick_at_def at_def)

lemma arr_value_cell: "fit n (arr_len a) \<Longrightarrow> i < n \<Longrightarrow> arr_value (cell a i) 0 = arr_value a i"
  using at_less [of n "arr_len a" i]
  by (cases a) (simp_all add: arr_value_def Let_def val_def)

lemma to_f64_cell: "to_f64 a = Inr xs \<Longrightarrow> fit n (arr_len a) \<Longrightarrow> i < n \<Longrightarrow> to_f64 (cell a i) = Inr [val xs i]"
  by (cases a) (auto simp: to_f64_def val_map)

lemma to_f64_len: "to_f64 a = Inr xs \<Longrightarrow> length xs = arr_len a"
  by (cases a) (auto simp: to_f64_def)

lemma as_bool_Inr [res_simps]: "as_bool a = Inr bs \<longleftrightarrow> a = Arr_Bool bs"
  by (cases a) (auto simp: as_bool_def)

lemma as_bool_Arr [simp]: "as_bool (Arr_Bool bs) = Inr bs"
  by (simp add: as_bool_def)

lemma strings_of_Inr [res_simps]: "strings_of a e = Inr s \<longleftrightarrow> a = Arr_Str s"
  by (cases a) (auto simp: strings_of_def)

lemma strings_of_Arr [simp]: "strings_of (Arr_Str s) e = Inr s"
  by (simp add: strings_of_def)

section \<open>Operators, one row at a time\<close>

lemma pair_len_fit:
  "pair_len l r = Inr k \<Longrightarrow> fit n l \<Longrightarrow> fit n r \<Longrightarrow> fit n k \<and> (k = 1 \<longrightarrow> l = 1 \<and> r = 1) \<and> fit k l \<and> fit k r"
  by (auto simp: pair_len_def fit_def split: if_splits)

lemma pair_len_one [simp]: "pair_len (Suc 0) (Suc 0) = Inr 1"
  by (simp add: pair_len_def)

lemma length_zip_map [simp]: "length (zip_map n f ls rs) = n"
  by (simp add: zip_map_def)

lemma zip_map_single [simp]: "zip_map (Suc 0) f [x] [y] = [f x y]"
  by (simp add: zip_map_def at_def)

lemma val_zip_map:
  assumes "fit n k" "i < n" and "k = 1 \<longrightarrow> length ls = 1 \<and> length rs = 1"
  shows "val (zip_map k f ls rs) i = f (val ls i) (val rs i)"
proof -
  have "at k i < k" using assms(1,2) by (rule at_less)
  moreover have "at (length ls) (at k i) = at (length ls) i" "at (length rs) (at k i) = at (length rs) i"
    using assms(3) by (auto simp: at_def)
  ultimately show ?thesis by (simp add: val_def zip_map_def)
qed

lemma eval_floats_cell:
  assumes "eval_floats op k l r = Inr a" "fit n k" "k = 1 \<longrightarrow> arr_len l = 1 \<and> arr_len r = 1"
    and "fit n (arr_len l)" "fit n (arr_len r)" "i < n"
  shows "eval_floats op 1 (cell l i) (cell r i) = Inr (cell a i)" and "arr_len a = k"
  using assms
  by (auto simp: eval_floats_def res_simps to_f64_cell to_f64_len val_zip_map split: if_splits)

lemma eval_binary_len:
  "eval_binary op l r = Inr a \<Longrightarrow> \<exists>k. pair_len (arr_len l) (arr_len r) = Inr k \<and> arr_len a = k"
  by (auto simp: eval_binary_def eval_floats_def res_simps split: if_splits arr.splits)

lemma eval_binary_cell:
  assumes ok: "eval_binary op l r = Inr a" and fl: "fit n (arr_len l)" and fr: "fit n (arr_len r)"
    and i: "i < n"
  shows "eval_binary op (cell l i) (cell r i) = Inr (cell a i)"
proof -
  obtain k where k: "pair_len (arr_len l) (arr_len r) = Inr k"
    using eval_binary_len [OF ok] by blast
  note f = pair_len_fit [OF k fl fr]
  have c: "k = 1 \<longrightarrow> arr_len l = 1 \<and> arr_len r = 1" and fk: "fit n k" using f by auto
  show ?thesis
  proof (cases "op = B_And \<or> op = B_Or")
    case True
    with ok k obtain lb rb where lr: "l = Arr_Bool lb" "r = Arr_Bool rb"
      and a: "a = Arr_Bool (zip_map k (logic_u8 op) lb rb)"
      by (auto simp: eval_binary_def res_simps)
    show ?thesis unfolding lr a using True c lr
      by (simp add: eval_binary_def val_zip_map [OF fk i])
  next
    case False
    note floats = eval_floats_cell [OF _ fk c fl fr i]
    consider (s) ls rs where "l = Arr_Str ls" "r = Arr_Str rs"
      | (n) ls rs where "l = Arr_I64 ls" "r = Arr_I64 rs"
      | (o') "\<not> (\<exists>ls rs. l = Arr_Str ls \<and> r = Arr_Str rs)" "\<not> (\<exists>ls rs. l = Arr_I64 ls \<and> r = Arr_I64 rs)"
      by blast
    then show ?thesis
    proof cases
      case s
      with c have "k = 1 \<longrightarrow> length ls = 1 \<and> length rs = 1" by simp
      note v = val_zip_map [OF fk i this]
      from ok k False s have "is_cmp op"
        and "a = Arr_Bool (zip_map k (mask_str op) ls rs)"
        by (auto simp: eval_binary_def split: if_splits)
      with s False show ?thesis by (simp add: eval_binary_def v)
    next
      case n
      with c have "k = 1 \<longrightarrow> length ls = 1 \<and> length rs = 1" by simp
      note v = val_zip_map [OF fk i this]
      from ok k False n have
        "(if is_cmp op then Inr (Arr_Bool (zip_map k (mask_i64 op) ls rs))
          else if op \<noteq> B_Div then Inr (Arr_I64 (zip_map k (arith_i64 op) ls rs))
          else eval_floats op k l r) = Inr a"
        by (auto simp: eval_binary_def split: if_splits)
      with n False floats show ?thesis by (auto simp: eval_binary_def v split: if_splits)
    next
      case o'
      then have *: "eval_binary op l r = (if is_str l \<or> is_str r then Inl (Query String_with_number) else eval_floats op k l r)"
        using False k by (cases l; cases r) (simp_all add: eval_binary_def is_str_def)
      from o' have "eval_binary op (cell l i) (cell r i) =
          (if is_str l \<or> is_str r then Inl (Query String_with_number) else eval_floats op 1 (cell l i) (cell r i))"
        using False by (cases l; cases r) (simp_all add: eval_binary_def is_str_def)
      with * ok floats show ?thesis by (auto split: if_splits)
    qed
  qed
qed

lemma eval_binary_fit:
  "eval_binary op l r = Inr a \<Longrightarrow> fit n (arr_len l) \<Longrightarrow> fit n (arr_len r) \<Longrightarrow> fit n (arr_len a)"
  using eval_binary_len pair_len_fit by blast

lemma eval_unary_cell:
  assumes "eval_unary op v = Inr a" "fit n (arr_len v)" "i < n"
  shows "eval_unary op (cell v i) = Inr (cell a i)"
  using assms
  by (cases v) (auto simp: eval_unary_def res_simps val_map to_f64_def as_bool_def split: un_op.splits)

lemma eval_like_cell:
  assumes "eval_like lower p neg ci v = Inr a" "fit n (arr_len v)" "i < n"
  shows "eval_like lower p neg ci (cell v i) = Inr (cell a i)"
  using assms by (auto simp: eval_like_def res_simps val_map Let_def)

lemma length_or_masks [simp]: "length (or_masks ms bs) = length ms"
  by (induction ms bs rule: or_masks.induct) auto

lemma nth_or_masks: "i < length ms \<Longrightarrow> i < length bs \<Longrightarrow> or_masks ms bs ! i = or (ms ! i) (bs ! i)"
  by (induction ms bs arbitrary: i rule: or_masks.induct) (auto simp: nth_Cons')

lemma eval_lit_len: "eval_lit v = Inr a \<Longrightarrow> arr_len a = 1 \<and> cell a i = a"
  by (cases v) (auto simp: eval_lit_def)

lemma in_list_loop_cell:
  assumes "in_list_loop v lits hits = Inr out" "length hits = arr_len v" "fit n (arr_len v)" "i < n"
  shows "in_list_loop (cell v i) lits [val hits i] = Inr [val out i] \<and> length out = arr_len v"
  using assms
proof (induction v lits hits rule: in_list_loop.induct)
  case (1 v hits)
  then show ?case by simp
next
  case (2 v lit lits hits)
  then obtain x c bs where x: "eval_lit lit = Inr x" and c: "eval_binary B_Eq v x = Inr c"
    and bs: "c = Arr_Bool bs" and rest: "in_list_loop v lits (or_masks hits bs) = Inr out"
    by (auto simp: res_simps)
  have lx: "arr_len x = 1" and cx: "cell x i = x" using eval_lit_len [OF x] by auto
  have len: "length bs = arr_len v"
    using eval_binary_len [OF c] lx bs by (auto simp: pair_len_def split: if_splits)
  have "eval_binary B_Eq (cell v i) x = Inr (Arr_Bool [val bs i])"
    using eval_binary_cell [OF c _ _ 2(5)] 2(4) lx cx bs by (simp add: fit_def)
  moreover have "val (or_masks hits bs) i = or (val hits i) (val bs i)"
    using at_less [OF 2(4,5)] len 2(3) by (simp add: val_def nth_or_masks)
  moreover have "in_list_loop (cell v i) lits [val (or_masks hits bs) i] = Inr [val out i] \<and> length out = arr_len v"
    using 2(1) x c bs rest 2(3-5) by simp
  ultimately show ?case using x by simp
qed

lemma eval_in_list_cell:
  assumes "eval_in_list lits neg v = Inr a" "fit n (arr_len v)" "i < n"
  shows "eval_in_list lits neg (cell v i) = Inr (cell a i)"
proof -
  from assms(1) obtain hits where h: "in_list_loop v lits (replicate (arr_len v) 0) = Inr hits"
    and a: "a = Arr_Bool (if neg then map not_u8 hits else hits)"
    by (auto simp: eval_in_list_def res_simps)
  have "val (replicate (arr_len v) (0 :: u8)) i = 0" using at_less [OF assms(2,3)] by (simp add: val_def)
  with in_list_loop_cell [OF h _ assms(2,3)] a assms(2,3) show ?thesis
    by (simp add: eval_in_list_def val_map)
qed

lemma eval_between_cell:
  assumes "eval_between neg v (Inr l) (Inr h) = Inr a"
    and "fit n (arr_len v)" "fit n (arr_len l)" "fit n (arr_len h)" "i < n"
  shows "eval_between neg (cell v i) (Inr (cell l i)) (Inr (cell h i)) = Inr (cell a i)"
proof -
  from assms(1) obtain lo hi m where lo: "eval_binary B_GtEq v l = Inr lo"
    and hi: "eval_binary B_LtEq v h = Inr hi" and m: "eval_binary B_And lo hi = Inr m"
    and a: "a = (case m of Arr_Bool bs \<Rightarrow> Arr_Bool (if neg then map not_u8 bs else bs) | _ \<Rightarrow> m)"
    by (auto simp: eval_between_def res_simps)
  have f: "fit n (arr_len lo)" "fit n (arr_len hi)"
    using eval_binary_fit [OF lo] eval_binary_fit [OF hi] assms by auto
  have fm: "fit n (arr_len m)" by (rule eval_binary_fit [OF m f])
  have "cell a i = (case cell m i of Arr_Bool bs \<Rightarrow> Arr_Bool (if neg then map not_u8 bs else bs) | _ \<Rightarrow> cell m i)"
    using a fm assms(5) by (cases m) (auto simp: val_map)
  then show ?thesis
    using eval_binary_cell [OF lo assms(2,3,5)] eval_binary_cell [OF hi assms(2,4,5)]
      eval_binary_cell [OF m f assms(5)]
    by (simp add: eval_between_def)
qed

lemma val_nth: "fit n (length xs) \<Longrightarrow> i < n \<Longrightarrow> \<exists>j < length xs. val xs i = xs ! j \<and> (length xs \<noteq> 1 \<longrightarrow> j = i)"
  using at_less [of n "length xs" i] by (auto simp: val_def at_def)

lemma cast_cell:
  assumes "cast v ty = Inr a" "fit n (arr_len v)" "i < n"
  shows "cast (cell v i) ty = Inr (cell a i)"
proof (cases ty)
  case DT_Str
  with assms(1) obtain vs where vs: "map_res (arr_value v) [0..<arr_len v] = Inr vs"
    and a: "a = Arr_Str (map render vs)"
    by (auto simp: cast_def res_simps)
  have len: "length vs = arr_len v" using map_res_length [OF vs] by simp
  have j: "at (arr_len v) i < arr_len v" by (rule at_less [OF assms(2,3)])
  have "arr_value v (at (arr_len v) i) = Inr (val vs i)"
    using vs j len by (auto simp: map_res_Inr list_all2_conv_all_nth val_def)
  moreover have "arr_value v (at (arr_len v) i) = arr_value v i"
    by (cases v) (auto simp: arr_value_def at_def Let_def)
  ultimately have "arr_value (cell v i) 0 = Inr (val vs i)"
    using arr_value_cell [OF assms(2,3)] by simp
  then show ?thesis using DT_Str a assms(2,3) len by (simp add: cast_def val_map)
qed (use assms in \<open>cases v; auto simp: cast_def res_simps val_map to_f64_def\<close>)+


section \<open>Functions, one row at a time\<close>

lemma index_at_cells [res_simps]:
  "index_at (map (\<lambda>v. cell v i) args) k = Inr x \<longleftrightarrow> k < length args \<and> x = cell (args ! k) i"
  by (auto simp: index_at_Inr)

lemma args_len_cases:
  "(args_len args = 1 \<and> (\<forall>v \<in> set args. arr_len v = 1)) \<or>
   (args_len args \<noteq> 1 \<and> (\<exists>v \<in> set args. arr_len v = args_len args))"
  by (induction args) (auto simp: args_len_def)

lemma args_len_fit: "(\<And>v. v \<in> set args \<Longrightarrow> fit n (arr_len v)) \<Longrightarrow> fit n (args_len args)"
  using args_len_cases [of args] unfolding fit_def by metis

lemma args_len_one: "args_len args = 1 \<Longrightarrow> v \<in> set args \<Longrightarrow> arr_len v = 1"
  using args_len_cases [of args] by auto

lemma args_len_cells [simp]: "args_len (map (\<lambda>v. cell v i) args) = 1"
  using args_len_cases [of "map (\<lambda>v. cell v i) args"] by auto

text \<open>A function computed row by row over broadcast arguments.\<close>

lemma rows_cell:
  assumes "map_res h [0..<k] = Inr out" and "fit n k" "i < n"
  shows "h (at k i) = Inr (val out i)" and "length out = k"
proof -
  show len: "length out = k" using map_res_length [OF assms(1)] by simp
  have "at k i < k" by (rule at_less [OF assms(2,3)])
  then show "h (at k i) = Inr (val out i)"
    using assms(1) len by (auto simp: map_res_Inr list_all2_conv_all_nth val_def)
qed

lemma pick_at_at: "(k = 1 \<Longrightarrow> length xs = 1) \<Longrightarrow> pick_at xs (at k i) = pick_at xs i"
  by (auto simp: pick_at_def at_def)

lemma map_sum_Inr [res_simps]: "map_sum f g m = Inr y \<longleftrightarrow> (\<exists>x. m = Inr x \<and> y = g x)"
  by (cases m) auto

lemma func_substring_cell:
  assumes ok: "func_substring (args_len args) args = Inr a"
    and f: "\<And>v. v \<in> set args \<Longrightarrow> fit n (arr_len v)" and i: "i < n"
  shows "func_substring 1 (map (\<lambda>v. cell v i) args) = Inr (cell a i)"
proof -
  let ?row = "\<lambda>s start count i.
       and_then (pick_at s i) (\<lambda>src.
       and_then (pick_at start i) (\<lambda>st.
       and_then (case count of None \<Rightarrow> Inr None | Some c \<Rightarrow> map_sum id Some (pick_at c i)) (\<lambda>cnt.
       Inr (substring src st cnt))))"
  from ok obtain s start count out where len: "1 < length args"
    and s: "args ! 0 = Arr_Str s" and start: "to_f64 (args ! 1) = Inr start"
    and count: "(if 2 < length args then map_sum id Some (to_f64 (args ! 2)) else Inr None) = Inr count"
    and out: "map_res (?row s start count) [0..<args_len args] = Inr out" and a: "a = Arr_Str out"
    by (auto simp: func_substring_def res_simps simp del: map_res.simps)
  have m: "k < length args \<Longrightarrow> args ! k \<in> set args" for k by simp
  from len have len0: "args \<noteq> []" by auto
  have fs: "fit n (length s)" "fit n (length start)" and f1: "args_len args = 1 \<Longrightarrow> length s = 1 \<and> length start = 1"
    using f [OF m, of 0] f [OF m, of 1] args_len_one [OF _ m, of 0] args_len_one [OF _ m, of 1]
      len len0 s to_f64_len [OF start] by auto
  have fc: "fit n (length c) \<and> (args_len args = 1 \<longrightarrow> length c = 1) \<and> 2 < length args \<and>
      to_f64 (cell (args ! 2) i) = Inr [val c i]" if "count = Some c" for c
    using count that f [OF m, of 2] args_len_one [OF _ m, of 2] to_f64_cell [OF _ f [OF m] i, of 2]
      to_f64_len
    by (auto simp: res_simps split: if_splits)
  have "?row s start count (at (args_len args) i) = Inr (val out i)"
    by (rule rows_cell(1) [OF out args_len_fit [OF f] i])
  then have "?row s start count i = Inr (val out i)"
    using f1 fc by (auto simp: pick_at_at split: option.splits)
  moreover have "?row s start count i = Inr (substring (val s i) (val start i) (map_option (\<lambda>c. val c i) count))"
    using fs fc i by (auto simp: pick_at_val split: option.splits)
  ultimately have v: "val out i = substring (val s i) (val start i) (map_option (\<lambda>c. val c i) count)" by simp
  have len1: "0 < length args" using len by linarith
  show ?thesis
  proof (cases count)
    case None
    with count have "\<not> 2 < length args" by (auto simp: res_simps split: if_splits)
    then show ?thesis
      using s a v None len len1 to_f64_cell [OF start f [OF m] i]
      by (simp add: func_substring_def)
  next
    case (Some c)
    with fc have "2 < length args" "to_f64 (cell (args ! 2) i) = Inr [val c i]" by auto
    then show ?thesis
      using s a v Some len len1 to_f64_cell [OF start f [OF m] i]
      by (simp add: func_substring_def)
  qed
qed


lemma if_rows_cell:
  assumes rows: "map_res (\<lambda>i. and_then (pick_at cond i) (\<lambda>c. if c \<noteq> 0 then pick_at xs i else pick_at ys i)) [0..<k] = Inr out"
    and k: "fit n k" "i < n" and one: "k = 1 \<Longrightarrow> length cond = 1 \<and> length xs = 1 \<and> length ys = 1"
    and f: "fit n (length cond)" "fit n (length xs)" "fit n (length ys)"
  shows "val out i = (if val cond i \<noteq> 0 then val xs i else val ys i)"
proof -
  have "and_then (pick_at cond (at k i)) (\<lambda>c. if c \<noteq> 0 then pick_at xs (at k i) else pick_at ys (at k i))
      = Inr (val out i)"
    by (rule rows_cell(1) [OF rows k])
  then have "and_then (pick_at cond i) (\<lambda>c. if c \<noteq> 0 then pick_at xs i else pick_at ys i) = Inr (val out i)"
    using one pick_at_at [of k cond i] pick_at_at [of k xs i] pick_at_at [of k ys i]
    by (simp cong: if_cong)
  then show ?thesis using pick_at_val [OF f(1) k(2)] pick_at_val [OF f(2) k(2)] pick_at_val [OF f(3) k(2)]
    by (auto split: if_splits)
qed

lemma func_if_cell:
  assumes ok: "func_if (args_len args) args = Inr a"
    and f: "\<And>v. v \<in> set args \<Longrightarrow> fit n (arr_len v)" and i: "i < n"
  shows "func_if 1 (map (\<lambda>v. cell v i) args) = Inr (cell a i)"
proof -
  have m: "k < length args \<Longrightarrow> args ! k \<in> set args" for k by simp
  from ok have len: "2 < length args"
    by (auto simp: func_if_def res_simps simp del: map_res.simps)
  then have len1: "1 < length args" and len0: "0 < length args" by linarith+
  from ok len len1 len0 obtain cond where c: "args ! 0 = Arr_Bool cond"
    by (auto simp: func_if_def res_simps simp del: map_res.simps)
  note ff = f [OF m [OF len0]] f [OF m [OF len1]] f [OF m [OF len]]
  note one = args_len_one [OF _ m [OF len0]] args_len_one [OF _ m [OF len1]] args_len_one [OF _ m [OF len]]
  note fk = args_len_fit [OF f]
  show ?thesis
  proof (cases "\<exists>xs ys. args ! 1 = Arr_Str xs \<and> args ! 2 = Arr_Str ys")
    case True
    then obtain xs ys where xy: "args ! 1 = Arr_Str xs" "args ! 2 = Arr_Str ys" by blast
    with ok len len0 len1 c obtain out where
      out: "map_res (\<lambda>i. and_then (pick_at cond i) (\<lambda>c. if c \<noteq> 0 then pick_at xs i else pick_at ys i)) [0..<args_len args] = Inr out"
      and a: "a = Arr_Str out"
      by (auto simp: func_if_def res_simps simp del: map_res.simps)
    have "val out i = (if val cond i \<noteq> 0 then val xs i else val ys i)"
      by (rule if_rows_cell [OF out fk i]) (use ff one c xy f in auto)
    then show ?thesis using a c xy len len0 len1 by (simp add: func_if_def)
  next
    case False
    then have st: "func_if (args_len args) args =
        and_then (to_f64 (args ! 1)) (\<lambda>xs. and_then (to_f64 (args ! 2)) (\<lambda>ys.
        and_then (map_res (\<lambda>i.
           and_then (pick_at cond i) (\<lambda>c. if c \<noteq> 0 then pick_at xs i else pick_at ys i)) [0..<args_len args])
         (\<lambda>out. Inr (Arr_F64 out))))"
      using len len0 len1 c by (cases "args ! 1"; cases "args ! 2") (simp_all add: func_if_def)
    from False have st1: "func_if 1 (map (\<lambda>v. cell v i) args) =
        and_then (to_f64 (cell (args ! 1) i)) (\<lambda>xs. and_then (to_f64 (cell (args ! 2) i)) (\<lambda>ys.
        and_then (map_res (\<lambda>j.
           and_then (pick_at [val cond i] j) (\<lambda>c. if c \<noteq> 0 then pick_at xs j else pick_at ys j)) [0..<1])
         (\<lambda>out. Inr (Arr_F64 out))))"
      using len len0 len1 c by (cases "args ! 1"; cases "args ! 2") (simp_all add: func_if_def)
    from ok [unfolded st] obtain xs ys out where x: "to_f64 (args ! 1) = Inr xs" and y: "to_f64 (args ! 2) = Inr ys"
      and out: "map_res (\<lambda>i. and_then (pick_at cond i) (\<lambda>c. if c \<noteq> 0 then pick_at xs i else pick_at ys i)) [0..<args_len args] = Inr out"
      and a: "a = Arr_F64 out"
      by (auto simp: res_simps simp del: map_res.simps)
    have "val out i = (if val cond i \<noteq> 0 then val xs i else val ys i)"
      by (rule if_rows_cell [OF out fk i]) (use ff one c f to_f64_len [OF x] to_f64_len [OF y] in auto)
    then show ?thesis
      using a st1 to_f64_cell [OF x ff(2) i] to_f64_cell [OF y ff(3) i] by simp
  qed
qed

definition const_arg :: "scalar_fn \<Rightarrow> arr list \<Rightarrow> bool" where
  "const_arg fn args \<longleftrightarrow>
     (fn = S_Round \<longrightarrow> (1 < length args \<longrightarrow> arr_len (args ! 1) = 1)) \<and>
     (fn = S_DateTrunc \<longrightarrow> (0 < length args \<longrightarrow> arr_len (args ! 0) = 1))"

lemma val_one: "length xs = Suc 0 \<Longrightarrow> val xs i = xs ! 0"
  by (simp add: val_def at_def)

lemma func_round_cell:
  assumes ok: "func_round args = Inr a" and c: "1 < length args \<longrightarrow> arr_len (args ! 1) = 1"
    and f: "\<And>v. v \<in> set args \<Longrightarrow> fit n (arr_len v)" and i: "i < n"
  shows "func_round (map (\<lambda>v. cell v i) args) = Inr (cell a i)"
proof -
  have m: "k < length args \<Longrightarrow> args ! k \<in> set args" for k by simp
  from ok have len0: "0 < length args" by (auto simp: func_round_def res_simps)
  from ok len0 obtain v d where v: "to_f64 (args ! 0) = Inr v"
    and d: "(if 1 < length args
               then map_sum id (\<lambda>ds. f64_to_i32 (case ds of [] \<Rightarrow> 0 | d # _ \<Rightarrow> d)) (to_f64 (args ! 1))
               else Inr 0) = Inr d"
    and a: "a = Arr_F64 (map (round_by (f64_powi (f64_of_int 10) d)) v)"
    by (auto simp: func_round_def res_simps Let_def)
  note v1 = to_f64_cell [OF v f [OF m [OF len0]] i]
  have fv: "fit n (length v)" using f [OF m [OF len0]] to_f64_len [OF v] by simp
  show ?thesis
  proof (cases "1 < length args")
    case True
    with d obtain ds where ds: "to_f64 (args ! 1) = Inr ds" "d = f64_to_i32 (case ds of [] \<Rightarrow> 0 | d # _ \<Rightarrow> d)"
      by (auto simp: res_simps)
    have "length ds = 1" using to_f64_len [OF ds(1)] c True by simp
    then obtain x where x: "ds = [x]" by (auto simp: length_Suc_conv)
    have "to_f64 (cell (args ! 1) i) = Inr [x]"
      using to_f64_cell [OF ds(1) f [OF m [OF True]] i] x by simp
    with True v1 a ds x len0 fv i show ?thesis by (simp add: func_round_def val_map Let_def)
  next
    case False
    with v1 a d len0 fv i show ?thesis by (simp add: func_round_def val_map Let_def)
  qed
qed

lemma func_date_trunc_cell:
  assumes ok: "func_date_trunc lower args = Inr a" and c: "arr_len (args ! 0) = 1"
    and f: "\<And>v. v \<in> set args \<Longrightarrow> fit n (arr_len v)" and i: "i < n"
  shows "func_date_trunc lower (map (\<lambda>v. cell v i) args) = Inr (cell a i)"
proof -
  have m: "k < length args \<Longrightarrow> args ! k \<in> set args" for k by simp
  from ok have len1: "1 < length args" and len0: "0 < length args"
    by (auto simp: func_date_trunc_def res_simps)
  with ok c obtain u secs where u: "args ! 0 = Arr_Str [u]" and secs: "to_f64 (args ! 1) = Inr secs"
    by (auto simp: func_date_trunc_def res_simps length_Suc_conv)
  have fs: "fit n (length secs)" using f [OF m [OF len1]] to_f64_len [OF secs] by simp
  show ?thesis
    using ok len0 len1 u secs to_f64_cell [OF secs f [OF m [OF len1]] i] fs i
    by (auto simp: func_date_trunc_def res_simps val_map)
qed

lemma scalar_func_cell:
  assumes ok: "scalar_func lower upper fn args = Inr a"
    and c: "const_arg fn args"
    and f: "\<And>v. v \<in> set args \<Longrightarrow> fit n (arr_len v)" and i: "i < n"
  shows "scalar_func lower upper fn (map (\<lambda>v. cell v i) args) = Inr (cell a i)"
proof -
  consider "fn = S_Round" | "fn = S_DateTrunc" | "fn = S_Substring" | "fn = S_If"
    | (o') "fn \<notin> {S_Round, S_DateTrunc, S_Substring, S_If}" by blast
  then show ?thesis
  proof cases
    case 1
    with ok c func_round_cell [OF _ _ f i] show ?thesis by (simp add: scalar_func_def const_arg_def)
  next
    case 2
    with ok have "0 < length args" by (auto simp: scalar_func_def func_date_trunc_def res_simps)
    with 2 ok c func_date_trunc_cell [OF _ _ f i] show ?thesis by (simp add: scalar_func_def const_arg_def)
  next
    case 3
    with ok func_substring_cell [OF _ f i] show ?thesis by (simp add: scalar_func_def)
  next
    case 4
    with ok func_if_cell [OF _ f i] show ?thesis by (simp add: scalar_func_def)
  next
    case o'
    with ok have len0: "0 < length args"
      by (cases fn) (auto simp: scalar_func_def res_simps)
    have f0: "fit n (arr_len (args ! 0))" using f len0 by simp
    from o' ok len0 f0 i show ?thesis
      by (cases "args ! 0"; cases fn)
        (auto simp: scalar_func_def res_simps val_map strings_of_def to_f64_def)
  qed
qed


section \<open>Expressions, one row at a time\<close>

text \<open>
  A frame of \<open>total\<close> rows, a selection of its rows, and the expressions whose value in a row is
  decided by that row: the two functions that look at the first row only of an argument
  (\<open>round\<close>'s number of digits and \<open>date_trunc\<close>'s unit) need a literal there.
\<close>

definition frame_ok :: "nat \<Rightarrow> column list \<Rightarrow> bool" where
  "frame_ok N f \<longleftrightarrow> N \<le> 2 ^ 32 \<and> (\<forall>c \<in> set f. column_len c = N)"

definition sel_in :: "nat \<Rightarrow> sel \<Rightarrow> bool" where
  "sel_in N s = (case s of All n \<Rightarrow> n = N | Ids ids \<Rightarrow> (\<forall>r \<in> set ids. unat r < N))"

definition is_lit :: "expr \<Rightarrow> bool" where
  "is_lit e = (case e of E_Lit _ \<Rightarrow> True | _ \<Rightarrow> False)"

primrec row_local :: "expr \<Rightarrow> bool" where
  "row_local (E_Col i) = True"
| "row_local (E_Lit v) = True"
| "row_local (E_Binary op l r) = (row_local l \<and> row_local r)"
| "row_local (E_Unary op e) = row_local e"
| "row_local (E_Like e p n c) = row_local e"
| "row_local (E_InList e vs n) = row_local e"
| "row_local (E_Between e lo hi n) = (row_local e \<and> row_local lo \<and> row_local hi)"
| "row_local (E_Func fn args) =
     (list_all (\<lambda>b. b) (map row_local args) \<and>
      (fn = S_Round \<longrightarrow> 1 < length args \<longrightarrow> is_lit (args ! 1)) \<and>
      (fn = S_DateTrunc \<longrightarrow> 0 < length args \<longrightarrow> is_lit (args ! 0)))"
| "row_local (E_Distance m c q) = True"
| "row_local (E_Agg fn arg d) = True"
| "row_local (E_Cast e ty) = row_local e"

definition one_row :: "nat \<Rightarrow> sel" where
  "one_row r = Ids [word_of_nat r]"

lemma one_row_simps [simp]:
  "sel_len (one_row r) = 1"
  by (simp add: one_row_def sel_len_def)

lemma sel_row_bound:
  assumes "sel_in N s" "i < sel_len s"
  obtains r where "sel_row s i = Inr r" "r < N"
  using assms by (cases s) (auto simp: sel_in_def sel_row_def sel_len_def)

lemma sel_row_one: "r < 2 ^ 32 \<Longrightarrow> sel_row (one_row r) 0 = Inr r"
  by (simp add: one_row_def sel_row_def unat_of_nat)

lemma val_index: "i < length xs \<Longrightarrow> val xs i = xs ! i"
  by (auto simp: val_def at_def)

lemma map_res_upt_nth:
  "map_res h [0..<n] = Inr out \<Longrightarrow> i < n \<Longrightarrow> h i = Inr (val out i)"
  by (auto simp: map_res_Inr list_all2_conv_all_nth val_index)

lemma map_res_ids_nth:
  "map_res h ids = Inr out \<Longrightarrow> i < length ids \<Longrightarrow> h (ids ! i) = Inr (val out i)"
  by (auto simp: map_res_Inr list_all2_conv_all_nth val_index)

lemma gather_cell:
  assumes g: "gather c s = Inr a" and N: "column_len c = N" "N \<le> 2 ^ 32" and s: "sel_in N s"
    and i: "i < sel_len s" and r: "sel_row s i = Inr r"
  shows "gather c (one_row r) = Inr (cell a i)"
proof -
  have rN: "r < N" using s i r by (cases s) (auto simp: sel_in_def sel_row_def sel_len_def)
  with N have u: "unat (word_of_nat r :: u32) = r" by (simp add: unat_of_nat)
  have scalar: "map_res (\<lambda>i. index_at v (unat i)) [word_of_nat r :: u32] = Inr [val x i]"
    if "length v = N" "(case s of All _ \<Rightarrow> Inr v | Ids ids \<Rightarrow> map_res (\<lambda>i. index_at v (unat i)) ids) = Inr x"
    for v x :: "'z list"
    using that s i r rN u
    by (cases s) (auto simp: sel_in_def sel_row_def sel_len_def val_index dest: map_res_ids_nth)
  show ?thesis
  proof (cases c)
    case (C_I64 v)
    with g N have "(case s of All _ \<Rightarrow> Inr v | Ids ids \<Rightarrow> map_res (\<lambda>i. index_at v (unat i)) ids) = Inr (case a of Arr_I64 x \<Rightarrow> x)"
      and "length v = N" and "\<exists>x. a = Arr_I64 x"
      by (auto simp: gather_def column_len_def res_simps simp del: map_res.simps split: sel.splits)
    with scalar [of v] C_I64 show ?thesis by (auto simp: gather_def one_row_def simp del: map_res.simps)
  next
    case (C_F64 v)
    with g N have "(case s of All _ \<Rightarrow> Inr v | Ids ids \<Rightarrow> map_res (\<lambda>i. index_at v (unat i)) ids) = Inr (case a of Arr_F64 x \<Rightarrow> x)"
      and "length v = N" and "\<exists>x. a = Arr_F64 x"
      by (auto simp: gather_def column_len_def res_simps simp del: map_res.simps split: sel.splits)
    with scalar [of v] C_F64 show ?thesis by (auto simp: gather_def one_row_def simp del: map_res.simps)
  next
    case (C_Bool v)
    with g N have "(case s of All _ \<Rightarrow> Inr v | Ids ids \<Rightarrow> map_res (\<lambda>i. index_at v (unat i)) ids) = Inr (case a of Arr_Bool x \<Rightarrow> x)"
      and "length v = N" and "\<exists>x. a = Arr_Bool x"
      by (auto simp: gather_def column_len_def res_simps simp del: map_res.simps split: sel.splits)
    with scalar [of v] C_Bool show ?thesis by (auto simp: gather_def one_row_def simp del: map_res.simps)
  next
    case (C_Str sc)
    with g obtain xs where xs: "map_res (\<lambda>i. and_then (sel_row s i) (str_get sc)) [0..<sel_len s] = Inr xs"
      and a: "a = Arr_Str xs"
      by (auto simp: gather_def res_simps simp del: map_res.simps split: sel.splits)
    from map_res_upt_nth [OF xs i] r have "str_get sc r = Inr (val xs i)" by simp
    with C_Str a u show ?thesis by (simp add: gather_def one_row_def sel_row_def sel_len_def)
  next
    case (C_Vector dim data)
    with g obtain rows where rows: "map_res (\<lambda>i.
            and_then (sel_row s i) (\<lambda>r.
            and_then (vector_at c r) (\<lambda>v. ok_or v (Panic ''unwrap'')))) [0..<sel_len s] = Inr rows"
      and a: "a = Arr_Vector dim rows"
      by (auto simp: gather_def res_simps simp del: map_res.simps split: sel.splits)
    from map_res_upt_nth [OF rows i] r have "and_then (vector_at c r) (\<lambda>v. ok_or v (Panic ''unwrap'')) = Inr (val rows i)"
      by simp
    with C_Vector a u show ?thesis by (simp add: gather_def one_row_def sel_row_def sel_len_def)
  qed
qed

lemma distances_cell:
  assumes d: "distances c s m q = Inr xs" and r: "sel_row s i = Inr r" "r < 2 ^ 32" and i: "i < sel_len s"
  shows "distances c (one_row r) m q = Inr [val xs i]"
proof -
  from d obtain dim data where c: "c = C_Vector dim data" "unat dim = length q"
    by (auto simp: distances_def split: column.splits if_splits)
  with d have "map_res (\<lambda>i.
            and_then (sel_row s i) (\<lambda>r.
            and_then (vector_at c r) (\<lambda>v.
            and_then (ok_or v (Panic ''unwrap'')) (\<lambda>v.
            metric_value m v q)))) [0..<sel_len s] = Inr xs"
    by (simp add: distances_def)
  from map_res_upt_nth [OF this i] r have
    "and_then (vector_at c r) (\<lambda>v. and_then (ok_or v (Panic ''unwrap'')) (\<lambda>v. metric_value m v q)) = Inr (val xs i)"
    by simp
  with c r show ?thesis by (simp add: distances_def one_row_def sel_row_def sel_len_def unat_of_nat)
qed

lemma checked_Inr: "checked n m = Inr a \<longleftrightarrow> m = Inr a \<and> fit n (arr_len a)"
  by (cases m) (auto simp: checked_def fit_def)

lemma eval_fit: "eval lower upper f s e = Inr a \<Longrightarrow> fit (sel_len s) (arr_len a)"
  by (cases e) (simp_all add: checked_Inr)

lemma checked_one: "arr_len a = 1 \<Longrightarrow> checked 1 (Inr a) = Inr a"
  by (simp add: checked_def)

lemma checked_cell [simp]: "checked (Suc 0) (Inr (cell a i)) = Inr (cell a i)"
  by (simp add: checked_def)

lemma eval_cell:
  assumes f: "frame_ok N f" and s: "sel_in N s" and i: "i < sel_len s" and r: "sel_row s i = Inr r"
  shows "row_local e \<Longrightarrow> eval lower upper f s e = Inr a \<Longrightarrow>
    eval lower upper f (one_row r) e = Inr (cell a i)"
proof (induction e arbitrary: a)
  case (E_Col c)
  then have "c < length f" "gather (f ! c) s = Inr a" by (auto simp: checked_Inr split: if_splits)
  moreover from \<open>c < length f\<close> f have "column_len (f ! c) = N" "N \<le> 2 ^ 32" by (auto simp: frame_ok_def)
  ultimately have "gather (f ! c) (one_row r) = Inr (cell a i)" using gather_cell s i r by blast
  with \<open>c < length f\<close> show ?case by simp
next
  case (E_Lit v)
  then have "eval_lit v = Inr a" by (simp add: checked_Inr)
  with eval_lit_len [of v a i] show ?case by (auto simp: checked_def)
next
  case (E_Binary op l rr)
  then obtain x y where x: "eval lower upper f s l = Inr x" "eval lower upper f s rr = Inr y"
    and b: "eval_binary op x y = Inr a" by (auto simp: checked_Inr res_simps)
  with E_Binary eval_binary_cell [OF b eval_fit [OF x(1)] eval_fit [OF x(2)] i] show ?case by simp
next
  case (E_Unary op e)
  then obtain x where x: "eval lower upper f s e = Inr x" and b: "eval_unary op x = Inr a"
    by (auto simp: checked_Inr res_simps)
  with E_Unary eval_unary_cell [OF b eval_fit [OF x] i] show ?case by simp
next
  case (E_Like e p n c)
  then obtain x where x: "eval lower upper f s e = Inr x" and b: "eval_like lower p n c x = Inr a"
    by (auto simp: checked_Inr res_simps)
  with E_Like eval_like_cell [OF b eval_fit [OF x] i] show ?case by simp
next
  case (E_InList e vs n)
  then obtain x where x: "eval lower upper f s e = Inr x" and b: "eval_in_list vs n x = Inr a"
    by (auto simp: checked_Inr res_simps)
  with E_InList eval_in_list_cell [OF b eval_fit [OF x] i] show ?case by simp
next
  case (E_Between e lo hi n)
  then obtain x where x: "eval lower upper f s e = Inr x"
    and b: "eval_between n x (eval lower upper f s lo) (eval lower upper f s hi) = Inr a"
    by (auto simp: checked_Inr res_simps)
  from b obtain l h where l: "eval lower upper f s lo = Inr l" and h: "eval lower upper f s hi = Inr h"
    by (auto simp: eval_between_def res_simps)
  with b have b': "eval_between n x (Inr l) (Inr h) = Inr a" by simp
  from E_Between x l h eval_between_cell [OF b' eval_fit [OF x] eval_fit [OF l] eval_fit [OF h] i]
  show ?case by simp
next
  case (E_Func fn args)
  then obtain vals where vs: "map_res (\<lambda>r. r) (map (eval lower upper f s) args) = Inr vals"
    and b: "scalar_func lower upper fn vals = Inr a"
    by (auto simp: checked_Inr res_simps simp del: map_res.simps)
  from vs have len: "length vals = length args"
    and at: "\<And>k. k < length args \<Longrightarrow> eval lower upper f s (args ! k) = Inr (vals ! k)"
    by (auto simp: map_res_Inr list_all2_conv_all_nth)
  have loc: "\<And>k. k < length args \<Longrightarrow> row_local (args ! k)"
    using E_Func.prems(1) by (simp add: list_all_length)
  have "map_res (\<lambda>r. r) (map (eval lower upper f (one_row r)) args) = Inr (map (\<lambda>v. cell v i) vals)"
    using E_Func.IH loc at len by (auto simp: map_res_Inr list_all2_conv_all_nth)
  moreover have "scalar_func lower upper fn (map (\<lambda>v. cell v i) vals) = Inr (cell a i)"
  proof (rule scalar_func_cell [OF b _ _ i])
    show "fit (sel_len s) (arr_len v)" if "v \<in> set vals" for v
      using that at len by (metis eval_fit in_set_conv_nth)
    have lit: "arr_len (vals ! k) = 1" if "k < length args" "is_lit (args ! k)" for k
      using at [OF that(1)] that(2) eval_lit_len by (auto simp: is_lit_def checked_Inr split: expr.splits)
    show "const_arg fn vals"
      unfolding const_arg_def using E_Func.prems(1) lit [of 0] lit [of 1] len by auto
  qed
  ultimately show ?case by simp
next
  case (E_Distance m c q)
  then obtain xs where c: "c < length f" and d: "distances (f ! c) s m q = Inr xs" and a: "a = Arr_F64 xs"
    by (auto simp: checked_Inr res_simps split: if_splits)
  have "r < 2 ^ 32" using f s i r by (auto simp: frame_ok_def elim: sel_row_bound)
  with distances_cell [OF d r _ i] c a show ?case by (simp add: checked_def)
next
  case (E_Agg fn arg d)
  then show ?case by (simp add: checked_def)
next
  case (E_Cast e ty)
  then obtain x where x: "eval lower upper f s e = Inr x" and b: "cast x ty = Inr a"
    by (auto simp: checked_Inr res_simps)
  with E_Cast cast_cell [OF b eval_fit [OF x] i] show ?case by simp
qed

section \<open>What a row sees\<close>

text \<open>The value of an expression in row \<open>r\<close> of a frame: the row evaluated alone.\<close>

definition row_value ::
  "(rstr \<Rightarrow> rstr) \<Rightarrow> (rstr \<Rightarrow> rstr) \<Rightarrow> column list \<Rightarrow> nat \<Rightarrow> expr \<Rightarrow> rvalue res" where
  "row_value lower upper f r e =
     and_then (eval lower upper f (one_row r) e) (\<lambda>a. arr_value a 0)"

lemma arr_value_row:
  assumes "frame_ok N f" "sel_in N s" "row_local e" "eval lower upper f s e = Inr a"
    and "i < sel_len s" "sel_row s i = Inr r"
  shows "arr_value a i = row_value lower upper f r e"
  using eval_cell [OF assms(1,2,5,6,3,4)] arr_value_cell [OF eval_fit [OF assms(4)] assms(5)]
  by (simp add: row_value_def)

text \<open>
  C19: vectorised evaluation is evaluation row by row, for expressions in which the unit of \<open>date_trunc\<close> and
  the number of digits of \<open>round\<close> are literals (\<open>row_local\<close>; the source reads them from the first selected row,
  and the theorem after this one shows rows mixed where they vary). On a frame whose columns have the same
  number of rows, such an expression that evaluates over a selection gives every selected row the value that
  the row would get if it were evaluated alone: broadcasting, masks, gathering and the integer and float
  paths do not mix rows.
\<close>
theorem vectorised_row_by_row:
  assumes "frame_ok N f" and "sel_in N s" and "row_local e"
    and "eval lower upper f s e = Inr a" and "i < sel_len s"
  shows "\<exists>r v. sel_row s i = Inr r \<and> r < N \<and> arr_value a i = Inr v \<and> row_value lower upper f r e = Inr v"
proof -
  obtain r where r: "sel_row s i = Inr r" "r < N" by (rule sel_row_bound [OF assms(2,5)])
  have "at (arr_len a) i < arr_len a" by (rule at_less [OF eval_fit [OF assms(4)] assms(5)])
  then obtain v where "arr_value a i = Inr v"
    by (cases a) (auto simp: arr_value_def Let_def)
  with r arr_value_row [OF assms r(1)] show ?thesis by metis
qed

definition demo_frame :: "column list" where
  "demo_frame = [C_I64 [3, 5, 8], C_Str (foldl str_push str_new [str ''hour'', str ''day'', str ''day''])]"

text \<open>\<open>(c0 + 1 > 4) AND c1 LIKE 'd%'\<close> over rows 2 and 0.\<close>

definition demo_pred :: expr where
  "demo_pred =
     E_Binary B_And
       (E_Binary B_Gt (E_Binary B_Add (E_Col 0) (E_Lit (V_I64 1))) (E_Lit (V_I64 4)))
       (E_Like (E_Col 1) (str ''d%'') False False)"

theorem vectorised_row_by_row_witness:
  "\<exists>r v. sel_row (Ids [2, 0]) 0 = Inr r \<and> r < 3 \<and>
     arr_value (Arr_Bool [1, 0]) 0 = Inr v \<and> row_value id id demo_frame r demo_pred = Inr v"
proof (rule vectorised_row_by_row)
  show "frame_ok 3 demo_frame" by code_simp
  show "sel_in 3 (Ids [2, 0])" by code_simp
  show "row_local demo_pred" by code_simp
  show "eval id id demo_frame (Ids [2, 0]) demo_pred = Inr (Arr_Bool [1, 0])" by code_simp
  show "0 < sel_len (Ids [2, 0])" by code_simp
qed

text \<open>
  \<open>date_trunc\<close> reads its unit from the first selected row and \<open>round\<close> its number of digits: over a
  column of units, the second row is truncated to the unit of the first, not to its own.
\<close>
theorem first_row_decides_unit:
  "\<exists>f e a v w. frame_ok 2 f \<and> e = E_Func S_DateTrunc [E_Col 0, E_Col 1] \<and>
     eval id id f (All 2) e = Inr a \<and> arr_value a 1 = Inr v \<and>
     row_value id id f 1 e = Inr w \<and> v \<noteq> w"
proof (intro exI conjI)
  let ?f = "[C_Str (foldl str_push str_new [str ''hour'', str ''day'']), C_I64 [7300, 7300]]"
  show "frame_ok 2 ?f" by code_simp
  show "E_Func S_DateTrunc [E_Col 0, E_Col 1] = E_Func S_DateTrunc [E_Col 0, E_Col 1]" by (rule refl)
  show "eval id id ?f (All 2) (E_Func S_DateTrunc [E_Col 0, E_Col 1]) = Inr (Arr_I64 [7200, 7200])"
    by code_simp
  show "arr_value (Arr_I64 [7200, 7200]) 1 = Inr (V_I64 7200)" by code_simp
  show "row_value id id ?f 1 (E_Func S_DateTrunc [E_Col 0, E_Col 1]) = Inr (V_I64 0)" by code_simp
  show "V_I64 7200 \<noteq> V_I64 0" by simp
qed

end
