(* ===== verification/Selection.thy ===== *)
theory Selection
  imports Pointwise "HOL-Library.Multiset"
begin

text \<open>
  Which rows a query returns, and in which order. The comparisons of the source satisfy one contract,
  the locale \<open>comparison\<close>, interpreted for every type of key; from it follow the total order of the
  positions, the sorting and the partial selection behind \<open>LIMIT\<close>. \<open>finish_rows\<close> and
  \<open>run_select_rows\<close> put filter, order, cut and projection together.
\<close>


section \<open>Comparisons\<close>

text \<open>
  What \<open>sort_unstable_by\<close> relies on: a comparison is antisymmetric and transitive. The three-way
  comparisons of the source are compared through \<open>chain\<close>: the result for the two ends of a path is
  decided by the two steps.
\<close>

definition chain :: "ordering \<Rightarrow> ordering \<Rightarrow> ordering \<Rightarrow> bool" where
  "chain c1 c2 c3 \<longleftrightarrow>
     (c1 = Equal \<longrightarrow> c3 = c2) \<and> (c2 = Equal \<longrightarrow> c3 = c1) \<and> (c1 = c2 \<longrightarrow> c3 = c1)"

locale comparison =
  fixes cmp :: "'a \<Rightarrow> 'a \<Rightarrow> ordering"
  assumes swap: "cmp y x = reverse (cmp x y)"
    and steps: "chain (cmp x y) (cmp y z) (cmp x z)"
begin

lemma same: "cmp x x = Equal"
proof -
  have "c = reverse c \<Longrightarrow> c = Equal" for c by (cases c) (simp_all add: reverse_def)
  then show ?thesis using swap by blast
qed

lemma cmp_at_swap: "cmp_at cmp v i j = Inr c \<Longrightarrow> cmp_at cmp v j i = Inr (reverse c)"
  by (auto simp: cmp_at_def res_simps swap [symmetric])

lemma cmp_at_steps:
  "cmp_at cmp v i j = Inr c1 \<Longrightarrow> cmp_at cmp v j k = Inr c2 \<Longrightarrow>
   \<exists>c3. cmp_at cmp v i k = Inr c3 \<and> chain c1 c2 c3"
  using steps by (auto simp: cmp_at_def res_simps)

lemma cmp_at_same: "cmp_at cmp v i i = Inr c \<Longrightarrow> c = Equal"
  using same by (auto simp: cmp_at_def res_simps)

end

lemma comparison_key: "comparison (\<lambda>x y. cmp_int (key x) (key y))"
  by unfold_locales (auto simp: cmp_int_def reverse_def chain_def)

interpretation nats: comparison cmp_nat
  unfolding cmp_nat_def by (rule comparison_key)

interpretation i64s: comparison cmp_i64
  unfolding cmp_i64_def by (rule comparison_key)

interpretation f64s: comparison f64_total_cmp
  unfolding f64_total_cmp_def by (rule comparison_key)

interpretation bools: comparison cmp_u8
  unfolding cmp_u8_def by (rule comparison_key)

lemma cmp_bytes_swap: "reverse (cmp_bytes xs ys) = cmp_bytes ys xs"
proof (induction xs ys rule: cmp_bytes.induct)
  case (4 a as b bs)
  then show ?case by (cases a b rule: linorder_cases) (simp_all add: reverse_def)
qed (simp_all add: reverse_def)

lemma cmp_bytes_steps: "chain (cmp_bytes xs ys) (cmp_bytes ys zs) (cmp_bytes xs zs)"
proof (induction xs ys arbitrary: zs rule: cmp_bytes.induct)
  case (4 a as b bs)
  show ?case
  proof (cases zs)
    case Nil
    then show ?thesis by (simp add: chain_def)
  next
    case (Cons c cs)
    have "a = b \<Longrightarrow> b = c \<Longrightarrow> ?thesis" using Cons 4(1) [of cs] by simp
    moreover have "\<not> (a = b \<and> b = c) \<Longrightarrow> ?thesis"
      unfolding Cons by (cases a b rule: linorder_cases; cases b c rule: linorder_cases)
        (auto simp: chain_def)
    ultimately show ?thesis by blast
  qed
qed (case_tac zs; simp add: chain_def)+

interpretation strs: comparison cmp_str
  unfolding cmp_str_def
  by unfold_locales (rule cmp_bytes_swap [symmetric], rule cmp_bytes_steps)

section \<open>The comparison of two rows\<close>

lemma cmp_arr_swap: "cmp_arr k i j = Inr c \<Longrightarrow> cmp_arr k j i = Inr (reverse c)"
  by (cases k) (auto simp: cmp_arr_def reverse_def i64s.cmp_at_swap f64s.cmp_at_swap bools.cmp_at_swap strs.cmp_at_swap)

lemma cmp_arr_steps:
  "cmp_arr k a b = Inr c1 \<Longrightarrow> cmp_arr k b c = Inr c2 \<Longrightarrow> \<exists>c3. cmp_arr k a c = Inr c3 \<and> chain c1 c2 c3"
  using i64s.cmp_at_steps f64s.cmp_at_steps bools.cmp_at_steps strs.cmp_at_steps
  by (cases k) (auto simp: cmp_arr_def chain_def)

lemma reverse_simps [simp]:
  "reverse (reverse c) = c" "reverse c = reverse d \<longleftrightarrow> c = d" "reverse Equal = Equal" "reverse c = Equal \<longleftrightarrow> c = Equal"
  by (cases c; cases d; simp add: reverse_def)+

lemma chain_reverse: "chain (reverse c1) (reverse c2) (reverse c3) \<longleftrightarrow> chain c1 c2 c3"
  by (cases c1; cases c2; cases c3) (simp_all add: chain_def reverse_def)

lemma cmp_rows_swap: "cmp_rows ks a b = Inr c \<Longrightarrow> cmp_rows ks b a = Inr (reverse c)"
proof (induction ks)
  case Nil
  then show ?case using nats.swap [of b a] by auto
next
  case (Cons k ks)
  obtain v up where k: "k = (v, up)" by (cases k)
  from Cons.prems k obtain d where d: "cmp_arr v a b = Inr d"
    by (auto simp: res_simps)
  then show ?case using Cons k cmp_arr_swap [OF d] by (auto split: if_splits)
qed

lemma cmp_rows_steps:
  "cmp_rows ks a b = Inr c1 \<Longrightarrow> cmp_rows ks b c = Inr c2 \<Longrightarrow> cmp_rows ks a c = Inr c3 \<Longrightarrow> chain c1 c2 c3"
proof (induction ks arbitrary: c1 c2 c3)
  case Nil
  then show ?case using nats.steps [of a b c] by auto
next
  case (Cons k ks)
  obtain v up where k: "k = (v, up)" by (cases k)
  from Cons.prems k obtain d1 d2 where d: "cmp_arr v a b = Inr d1" "cmp_arr v b c = Inr d2"
    by (auto simp: res_simps)
  from cmp_arr_steps [OF d] obtain d3 where d3: "cmp_arr v a c = Inr d3" "chain d1 d2 d3" by blast
  show ?case
  proof (cases "d1 = Equal \<and> d2 = Equal")
    case True
    with d3 have "d3 = Equal" by (simp add: chain_def)
    with True Cons k d d3 show ?thesis by auto
  next
    case False
    then show ?thesis
    proof (cases "d1 = Equal \<or> d2 = Equal")
      case True
      with False Cons.prems k d d3 show ?thesis by (auto simp: chain_def split: if_splits)
    next
      case f2: False
      with Cons.prems k d d3 show ?thesis by (auto simp: chain_def)
    qed
  qed
qed


section \<open>Sorting and selection\<close>

definition strict_total :: "'a set \<Rightarrow> ('a \<Rightarrow> 'a \<Rightarrow> bool) \<Rightarrow> bool" where
  "strict_total A lt \<longleftrightarrow>
     (\<forall>x \<in> A. \<not> lt x x) \<and> (\<forall>x \<in> A. \<forall>y \<in> A. \<forall>z \<in> A. lt x y \<longrightarrow> lt y z \<longrightarrow> lt x z) \<and>
     (\<forall>x \<in> A. \<forall>y \<in> A. x \<noteq> y \<longrightarrow> lt x y \<or> lt y x)"

lemma strict_total_subset: "strict_total A lt \<Longrightarrow> B \<subseteq> A \<Longrightarrow> strict_total B lt"
  unfolding strict_total_def by blast

lemma mset_insort_by [simp]: "mset (insort_by lt x ys) = add_mset x (mset ys)"
  by (induction ys) auto

lemma mset_sort_by [simp]: "mset (sort_by lt xs) = mset xs"
  by (induction xs) (auto simp: sort_by_def)

lemma set_sort_by [simp]: "set (sort_by lt xs) = set xs"
  by (metis mset_sort_by set_mset_mset)

lemma length_sort_by [simp]: "length (sort_by lt xs) = length xs"
  by (metis mset_sort_by size_mset)

lemma distinct_sort_by [simp]: "distinct (sort_by lt xs) = distinct xs"
  by (rule mset_eq_imp_distinct_iff) simp

lemma set_insort_by [simp]: "set (insort_by lt x ys) = insert x (set ys)"
  by (induction ys) auto

lemma sorted_insort_by:
  assumes "strict_total A lt" "insert x (set ys) \<subseteq> A" "x \<notin> set ys" "sorted_wrt lt ys"
  shows "sorted_wrt lt (insort_by lt x ys)"
  using assms(2-)
proof (induction ys)
  case Nil
  then show ?case by simp
next
  case (Cons y ys)
  show ?case
  proof (cases "lt y x")
    case True
    with Cons show ?thesis by auto
  next
    case False
    have "x \<in> A" "y \<in> A" "x \<noteq> y" using Cons.prems by auto
    with False assms(1) have xy: "lt x y" unfolding strict_total_def by blast
    have "lt x z" if "z \<in> set ys" for z
    proof -
      have "lt y z" using that Cons.prems by simp
      moreover have "x \<in> A" "y \<in> A" "z \<in> A" using that Cons.prems by auto
      ultimately show ?thesis using xy assms(1) unfolding strict_total_def by blast
    qed
    with False xy Cons show ?thesis by auto
  qed
qed

lemma sorted_sort_by:
  "strict_total (set xs) lt \<Longrightarrow> distinct xs \<Longrightarrow> sorted_wrt lt (sort_by lt xs)"
proof (induction xs)
  case Nil
  then show ?case by (simp add: sort_by_def)
next
  case (Cons x xs)
  have "sorted_wrt lt (sort_by lt xs)"
    using Cons strict_total_subset [of "set (x # xs)" lt "set xs"] by auto
  then have "sorted_wrt lt (insort_by lt x (sort_by lt xs))"
    using Cons.prems by (intro sorted_insort_by [of "set (x # xs)"]) auto
  then show ?case by (simp add: sort_by_def)
qed

lemma sorted_unique:
  assumes "strict_total A lt" "set xs \<subseteq> A"
  shows "sorted_wrt lt xs \<Longrightarrow> sorted_wrt lt ys \<Longrightarrow> set xs = set ys \<Longrightarrow> xs = ys"
  using assms(2)
proof (induction xs arbitrary: ys)
  case Nil
  then show ?case by simp
next
  case (Cons x xs)
  then obtain y ys' where ys: "ys = y # ys'" by (cases ys) auto
  have irr: "\<not> lt z z" if "z \<in> A" for z using that assms(1) by (auto simp: strict_total_def)
  have asym: "lt u v \<Longrightarrow> lt v u \<Longrightarrow> False" if "u \<in> A" "v \<in> A" for u v
    using that assms(1) unfolding strict_total_def by blast
  have A: "x \<in> A" "y \<in> A" using Cons.prems ys by auto
  have "x = y"
  proof (rule ccontr)
    assume "x \<noteq> y"
    then have "lt y x" "lt x y" using Cons.prems ys by auto
    with asym A show False by blast
  qed
  moreover have "x \<notin> set xs" "y \<notin> set ys'" using Cons.prems ys irr A by auto
  ultimately have "set xs = set ys'" using Cons.prems ys by auto
  with Cons ys \<open>x = y\<close> show ?case by auto
qed

lemma select_nth_prefix:
  assumes tot: "strict_total (set xs) lt" and d: "distinct xs" and k: "k < length xs"
  shows "sort_by lt (take k (select_nth_by lt k xs)) = take k (sort_by lt xs)"
proof -
  let ?S = "sort_by lt xs"
  let ?p = "?S ! k"
  have sorted: "sorted_wrt lt ?S" by (rule sorted_sort_by [OF tot d])
  have asym: "lt u v \<Longrightarrow> \<not> lt v u" if "u \<in> set xs" "v \<in> set xs" for u v
    using that tot unfolding strict_total_def by blast
  have irr: "\<not> lt u u" if "u \<in> set xs" for u
    using that tot unfolding strict_total_def by blast
  have mem: "j < length xs \<Longrightarrow> ?S ! j \<in> set xs" for j by (metis length_sort_by nth_mem set_sort_by)
  have below: "j < length xs \<Longrightarrow> lt (?S ! j) ?p \<longleftrightarrow> j < k" for j
  proof (cases j k rule: linorder_cases)
    case less
    then show ?thesis using sorted_wrt_nth_less [OF sorted, of j k] k by simp
  next
    case equal
    then show ?thesis using irr mem k by simp
  next
    case greater
    assume j: "j < length xs"
    have "lt ?p (?S ! j)" using greater sorted_wrt_nth_less [OF sorted, of k j] j by simp
    with asym [OF mem [OF k] mem [OF j]] greater show ?thesis by simp
  qed
  have sets: "set (take k ?S) = {x \<in> set xs. lt x ?p}"
  proof -
    have "x \<in> set (take k ?S) \<longleftrightarrow> (\<exists>j < length xs. x = ?S ! j \<and> j < k)" for x
    proof -
      have "x \<in> set (take k ?S) \<longleftrightarrow> (\<exists>j < k. x = ?S ! j)"
        using k by (auto simp: in_set_conv_nth)
      then show ?thesis using k less_trans [of _ k "length xs"] by blast
    qed
    moreover have "(\<exists>j < length xs. x = ?S ! j \<and> j < k) \<longleftrightarrow> (\<exists>j < length xs. x = ?S ! j \<and> lt (?S ! j) ?p)" for x
      using below by (intro ex_cong1) auto
    moreover have "(\<exists>j < length xs. x = ?S ! j \<and> lt (?S ! j) ?p) \<longleftrightarrow> x \<in> set ?S \<and> lt x ?p" for x
      unfolding in_set_conv_nth length_sort_by by blast
    ultimately show ?thesis by auto
  qed
  have "length (filter (\<lambda>x. lt x ?p) xs) = card {x \<in> set xs. lt x ?p}"
    unfolding distinct_length_filter [OF d] by (rule arg_cong [of _ _ card]) blast
  also have "\<dots> = k"
    using sets d k distinct_card [of "take k ?S"] by simp
  finally have "take k (select_nth_by lt k xs) = filter (\<lambda>x. lt x ?p) xs"
    by (simp add: select_nth_by_def Let_def)
  moreover have "sort_by lt (filter (\<lambda>x. lt x ?p) xs) = take k ?S"
  proof (rule sorted_unique [OF tot])
    show "sorted_wrt lt (sort_by lt (filter (\<lambda>x. lt x ?p) xs))"
      using d by (intro sorted_sort_by strict_total_subset [OF tot]) auto
    show "sorted_wrt lt (take k ?S)" by (rule sorted_wrt_take [OF sorted])
  qed (auto simp: sets)
  ultimately show ?thesis by simp
qed


section \<open>Positions in order\<close>

lemma map_res_each: "map_res f xs = Inr ys \<Longrightarrow> x \<in> set xs \<Longrightarrow> \<exists>y. f x = Inr y"
  by (induction xs arbitrary: ys) (auto simp: and_then_Inr simp del: map_res_Inr)

lemma compare_pairs_ok:
  assumes "compare_pairs ks idx = Inr u" "a \<in> set idx" "b \<in> set idx" "a \<noteq> b"
  obtains c where "cmp_rows ks a b = Inr c"
proof -
  from assms(1) obtain out where out:
    "map_res (compare_pair ks) (List.product idx idx) = Inr out"
    by (auto simp: compare_pairs_def res_simps simp del: map_res.simps)
  have "(a, b) \<in> set (List.product idx idx)" using assms by simp
  from map_res_each [OF out this] assms(4) that show thesis by (auto simp: compare_pair_def)
qed

lemma cmp_rows_differ: "cmp_rows ks a b = Inr Equal \<Longrightarrow> a = b"
  by (induction ks) (auto simp: res_simps cmp_nat_def cmp_int_def split: if_splits)

lemma row_less_irrefl: "\<not> row_less ks a a"
proof
  assume "row_less ks a a"
  then have "cmp_rows ks a a = Inr ordering.Less" by (simp add: row_less_def)
  from cmp_rows_swap [OF this] this show False by (simp add: reverse_def)
qed

lemma row_less_total:
  assumes ok: "compare_pairs ks idx = Inr u"
  shows "strict_total (set idx) (row_less ks)"
  unfolding strict_total_def
proof (intro conjI ballI impI)
  fix x assume "x \<in> set idx"
  show "\<not> row_less ks x x" by (rule row_less_irrefl)
next
  fix x y z assume m: "x \<in> set idx" "y \<in> set idx" "z \<in> set idx" and l: "row_less ks x y" "row_less ks y z"
  have "x \<noteq> z"
  proof
    assume "x = z"
    with l have "cmp_rows ks x y = Inr ordering.Less" "cmp_rows ks y x = Inr ordering.Less" by (auto simp: row_less_def)
    with cmp_rows_swap [of ks x y] show False by (auto simp: reverse_def)
  qed
  with ok m obtain c where c: "cmp_rows ks x z = Inr c" by (blast elim: compare_pairs_ok)
  from cmp_rows_steps [OF _ _ c] l have "chain ordering.Less ordering.Less c" by (simp add: row_less_def)
  with c show "row_less ks x z" by (simp add: chain_def row_less_def)
next
  fix x y assume m: "x \<in> set idx" "y \<in> set idx" "x \<noteq> y"
  with ok obtain c where c: "cmp_rows ks x y = Inr c" by (blast elim: compare_pairs_ok)
  with m(3) have "c \<noteq> Equal" using cmp_rows_differ by blast
  with c cmp_rows_swap [OF c] show "row_less ks x y \<or> row_less ks y x"
    by (cases c) (auto simp: row_less_def reverse_def)
qed

text \<open>The rows that \<open>LIMIT\<close> and \<open>OFFSET\<close> leave of a list.\<close>

definition cut :: "nat option \<Rightarrow> nat \<Rightarrow> 'a list \<Rightarrow> 'a list" where
  "cut lim off xs = (case lim of None \<Rightarrow> drop off xs | Some l \<Rightarrow> take l (drop off xs))"

definition small_cut :: "nat option \<Rightarrow> nat \<Rightarrow> bool" where
  "small_cut lim off \<longleftrightarrow> (case lim of None \<Rightarrow> True | Some l \<Rightarrow> off + l < 2 ^ 64)"

lemma cut_map: "cut lim off (map f xs) = map f (cut lim off xs)"
  by (simp add: cut_def drop_map take_map split: option.split)

lemma slice_cut:
  assumes "small_cut lim off"
  shows "slice xs (min off (length xs)) (cut_end lim (min off (length xs)) (length xs)) = Inr (cut lim off xs)"
proof -
  have "min off (length xs) + l < 2 ^ 64" if "lim = Some l" for l
    using assms that by (simp add: small_cut_def min_def)
  then have "cut_end lim (min off (length xs)) (length xs) =
      (case lim of None \<Rightarrow> length xs | Some l \<Rightarrow> min (min off (length xs) + l) (length xs))"
    by (simp add: cut_end_def usize_add_def split: option.split)
  then show ?thesis
    by (cases lim; cases "off \<le> length xs")
      (simp_all add: slice_def cut_def min_def)
qed

definition in_order :: "(arr \<times> bool) list \<Rightarrow> nat \<Rightarrow> nat list \<Rightarrow> bool" where
  "in_order ks n p \<longleftrightarrow> distinct p \<and> set p = {..<n} \<and> sorted_wrt (row_less ks) p"

lemma sorted_positions_cut:
  assumes ok: "compare_pairs ks [0..<n] = Inr u" and n: "n < 2 ^ 32" and c: "small_cut lim off"
  shows "\<exists>p. in_order ks n p \<and> (\<exists>k. sorted_positions ks lim off n = take k p \<and>
    cut lim off (take k p) = cut lim off p)"
proof -
  let ?p = "sort_by (row_less ks) [0..<n]"
  have tot: "strict_total (set [0..<n]) (row_less ks)" by (rule row_less_total [OF ok])
  have p: "in_order ks n ?p"
    using sorted_sort_by [OF tot] by (auto simp: in_order_def)
  have u: "as_u32 n = n" using n by (simp add: as_u32_def)
  show ?thesis
  proof (cases "\<exists>l. lim = Some l \<and> min (usize_add off l) n * 4 < n")
    case True
    then obtain l where l: "lim = Some l" and small: "min (usize_add off l) n * 4 < n" by blast
    then have k: "off + l < n" "min (usize_add off l) n = off + l"
      using c by (auto simp: small_cut_def usize_add_def min_def split: if_splits)
    have sp: "sorted_positions ks lim off n = take (off + l) ?p"
      using l small k select_nth_prefix [OF tot, of "off + l"] u
      by (simp add: sorted_positions_def Let_def)
    moreover have "cut lim off (take (off + l) ?p) = cut lim off ?p"
      using l by (simp add: cut_def take_drop min_def)
    ultimately show ?thesis using p by blast
  next
    case False
    then have "sorted_positions ks lim off n = ?p"
      using u by (auto simp: sorted_positions_def Let_def split: option.split)
    then have "sorted_positions ks lim off n = take n ?p" by simp
    with p show ?thesis by (metis length_sort_by length_upt minus_nat.diff_0 order_refl take_all)
  qed
qed


section \<open>Selected rows\<close>

definition selected :: "sel \<Rightarrow> nat list" where
  "selected s = (case s of All n \<Rightarrow> [0..<n] | Ids ids \<Rightarrow> map unat ids)"

lemma length_selected [simp]: "length (selected s) = sel_len s"
  by (cases s) (simp_all add: selected_def sel_len_def)

lemma selected_nth: "i < sel_len s \<Longrightarrow> sel_row s i = Inr (selected s ! i)"
  by (cases s) (simp_all add: selected_def sel_len_def sel_row_def)

lemma selected_bound: "sel_in N s \<Longrightarrow> r \<in> set (selected s) \<Longrightarrow> r < N"
  by (cases s) (auto simp: sel_in_def selected_def)

lemma unat_u32: "r < 2 ^ 32 \<Longrightarrow> unat (word_of_nat r :: u32) = r"
  by (simp add: unat_of_nat)

lemma permute_selected:
  assumes "permute s p = Inr s'" "sel_in N s" "N \<le> 2 ^ 32" "\<forall>i \<in> set p. i < sel_len s"
  shows "selected s' = map (\<lambda>i. selected s ! i) p" and "sel_in N s'"
proof -
  from assms(1) obtain ids where ids: "map_res (\<lambda>i. and_then (sel_row s i) (\<lambda>r. Inr (word_of_nat r))) p = Inr ids"
    and s': "s' = Ids ids"
    by (auto simp: permute_def res_simps simp del: map_res.simps)
  have "map_res (\<lambda>i. and_then (sel_row s i) (\<lambda>r. Inr (word_of_nat r))) p =
      Inr (map (\<lambda>i. word_of_nat (selected s ! i) :: u32) p)"
    using assms(4) by (intro map_res_total) (auto simp: selected_nth)
  with ids have "ids = map (\<lambda>i. word_of_nat (selected s ! i)) p" by simp
  moreover have "selected s ! i < N" if "i \<in> set p" for i
    using that assms(2,4) selected_bound by (metis length_selected nth_mem)
  moreover have "r < N \<Longrightarrow> unat (word_of_nat r :: u32) = r" for r
    using assms(3) unat_u32 by simp
  ultimately show "selected s' = map (\<lambda>i. selected s ! i) p" "sel_in N s'"
    using s' by (auto simp: selected_def sel_in_def)
qed

text \<open>\<open>WHERE\<close> and \<open>HAVING\<close> keep the rows whose condition is true, in their order.\<close>

definition holds ::
  "(rstr \<Rightarrow> rstr) \<Rightarrow> (rstr \<Rightarrow> rstr) \<Rightarrow> column list \<Rightarrow> expr option \<Rightarrow> nat \<Rightarrow> bool" where
  "holds lower upper f cond r =
     (case cond of None \<Rightarrow> True | Some e \<Rightarrow> row_value lower upper f r e = Inr (V_Bool True))"

lemma mask_row:
  assumes "frame_ok N f" "sel_in N s" "row_local e" "eval lower upper f s e = Inr (Arr_Bool bs)"
    and "i < sel_len s"
  shows "holds lower upper f (Some e) (selected s ! i) \<longleftrightarrow> val bs i \<noteq> 0"
proof -
  have "arr_value (Arr_Bool bs) i = row_value lower upper f (selected s ! i) e"
    by (rule arr_value_row [OF assms(1-4,5) selected_nth [OF assms(5)]])
  moreover have "fit (sel_len s) (length bs)" using eval_fit [OF assms(4)] by simp
  moreover have "at (length bs) i < length bs" by (rule at_less [OF calculation(2) assms(5)])
  ultimately have "row_value lower upper f (selected s ! i) e = Inr (V_Bool (val bs i \<noteq> 0))"
    by (simp add: arr_value_def val_def Let_def)
  then show ?thesis by (simp add: holds_def)
qed

lemma filter_nth: "filter P xs = map (\<lambda>i. xs ! i) (filter (\<lambda>i. P (xs ! i)) [0..<length xs])"
  by (metis (no_types, lifting) filter_map map_nth o_def filter_cong)

lemma enumerate_map: "enumerate 0 bs = map (\<lambda>i. (i, bs ! i)) [0..<length bs]"
  by (rule nth_equalityI) (simp_all add: nth_enumerate_eq)

lemma where_rows_selected:
  assumes w: "where_rows lower upper f N flt = Inr s" and f: "frame_ok N f"
    and loc: "\<And>e. flt = Some e \<Longrightarrow> row_local e"
  shows "selected s = filter (holds lower upper f flt) [0..<N]" and "sel_in N s"
proof -
  have "selected s = filter (holds lower upper f flt) [0..<N] \<and> sel_in N s"
  proof (cases flt)
    case None
    with w show ?thesis by (auto simp: where_rows_def holds_def selected_def sel_in_def)
  next
    case (Some e)
    with w obtain bs where e: "eval lower upper f (All N) e = Inr (Arr_Bool bs)"
      and s: "s = (if length bs = 1 then (if bs ! 0 \<noteq> 0 then All N else Ids [])
        else Ids (map (\<lambda>(i, _). word_of_nat i) (filter (\<lambda>(_, b). b \<noteq> 0) (enumerate 0 bs))))"
      by (auto simp: where_rows_def res_simps split: if_splits)
    have sN: "sel_in N (All N)" "sel_len (All N) = N" "selected (All N) = [0..<N]"
      by (simp_all add: sel_in_def sel_len_def selected_def)
    have row: "i < N \<Longrightarrow> holds lower upper f flt i \<longleftrightarrow> val bs i \<noteq> 0" for i
      using mask_row [OF f sN(1) loc [OF Some] e] Some sN by simp
    have fit: "fit N (length bs)" using eval_fit [OF e] sN by simp
    show ?thesis
    proof (cases "length bs = 1")
      case True
      then have "val bs i = bs ! 0" for i by (simp add: val_def at_def)
      with row have "filter (holds lower upper f flt) [0..<N] = (if bs ! 0 \<noteq> 0 then [0..<N] else [])"
        by (auto simp: filter_empty_conv intro!: filter_True)
      with True s sN show ?thesis by (auto simp: selected_def sel_in_def)
    next
      case False
      with fit have len: "length bs = N" by (auto simp: fit_def)
      have hits: "filter (holds lower upper f flt) [0..<N] = filter (\<lambda>i. bs ! i \<noteq> 0) [0..<N]"
        by (rule filter_cong) (use row len in \<open>auto simp: val_index\<close>)
      have ids: "map (\<lambda>(i, _). word_of_nat i) (filter (\<lambda>(_, b). b \<noteq> 0) (enumerate 0 bs)) =
          (map word_of_nat (filter (\<lambda>i. bs ! i \<noteq> 0) [0..<N]) :: u32 list)"
        using len by (simp add: enumerate_map filter_map o_def)
      have "i < N \<Longrightarrow> unat (word_of_nat i :: u32) = i" for i
        using f unat_u32 by (simp add: frame_ok_def)
      moreover have "s = Ids (map word_of_nat (filter (\<lambda>i. bs ! i \<noteq> 0) [0..<N]))"
        using s False ids by simp
      ultimately show ?thesis using hits by (auto simp: selected_def sel_in_def intro!: map_idI)
    qed
  qed
  then show "selected s = filter (holds lower upper f flt) [0..<N]" "sel_in N s" by blast+
qed


lemma having_rows_selected:
  assumes h: "having_rows lower upper f s hav = Inr s'" and f: "frame_ok N f" and sN: "sel_in N s"
    and loc: "\<And>e. hav = Some e \<Longrightarrow> row_local e"
  shows "selected s' = filter (holds lower upper f hav) (selected s)" and "sel_in N s'"
proof -
  have "selected s' = filter (holds lower upper f hav) (selected s) \<and> sel_in N s'"
  proof (cases hav)
    case None
    with h sN show ?thesis by (auto simp: having_rows_def holds_def)
  next
    case (Some e)
    with h obtain bs where e: "eval lower upper f s e = Inr (Arr_Bool bs)"
      and s': "apply_mask s bs = Inr s'"
      by (auto simp: having_rows_def res_simps)
    have row: "i < sel_len s \<Longrightarrow> holds lower upper f hav (selected s ! i) \<longleftrightarrow> val bs i \<noteq> 0" for i
      using mask_row [OF f sN loc [OF Some] e] Some by simp
    have fit: "fit (sel_len s) (length bs)" using eval_fit [OF e] by simp
    show ?thesis
    proof (cases "length bs = 1")
      case True
      then have "val bs i = bs ! 0" for i by (simp add: val_def at_def)
      with row have "filter (holds lower upper f hav) (selected s) = (if bs ! 0 \<noteq> 0 then selected s else [])"
        by (auto simp: filter_empty_conv in_set_conv_nth intro!: filter_True)
      with True s' sN show ?thesis by (auto simp: apply_mask_def selected_def sel_in_def)
    next
      case False
      with fit have len: "length bs = sel_len s" by (auto simp: fit_def)
      let ?hits = "filter (\<lambda>i. bs ! i \<noteq> 0) [0..<sel_len s]"
      have "map_res (\<lambda>i. and_then (index_at bs i) (\<lambda>b. Inr (i, b \<noteq> 0))) [0..<sel_len s] =
          (Inr (map (\<lambda>i. (i, bs ! i \<noteq> 0)) [0..<sel_len s]) :: (nat \<times> bool) list res)"
        using len by (intro map_res_total) auto
      moreover have "filter snd (map (\<lambda>i. (i, bs ! i \<noteq> 0)) [0..<sel_len s]) = map (\<lambda>i. (i, True)) ?hits"
        by (induction "[0..<sel_len s]") (auto simp: filter_map o_def intro: filter_cong)
      moreover have "map_res (\<lambda>(i, _). and_then (sel_row s i) (\<lambda>r. Inr (word_of_nat r))) (map (\<lambda>i. (i, True)) ?hits) =
          (Inr (map (\<lambda>(i, _). word_of_nat (selected s ! i)) (map (\<lambda>i. (i, True)) ?hits)) :: u32 list res)"
        by (intro map_res_total) (auto simp: selected_nth)
      ultimately have ids: "s' = Ids (map (\<lambda>i. word_of_nat (selected s ! i)) ?hits)"
        using s' False by (simp add: apply_mask_def o_def)
      have hits: "filter (holds lower upper f hav) (selected s) = map (\<lambda>i. selected s ! i) ?hits"
        unfolding filter_nth [of _ "selected s"] length_selected
        by (rule arg_cong [of _ _ "map _"], rule filter_cong) (use row len in \<open>auto simp: val_index\<close>)
      have b: "i < sel_len s \<Longrightarrow> unat (word_of_nat (selected s ! i) :: u32) = selected s ! i" 
        "i < sel_len s \<Longrightarrow> selected s ! i < N" for i
        using f sN selected_bound [of N s "selected s ! i"] unat_u32 [of "selected s ! i"]
        by (auto simp: frame_ok_def)
      show ?thesis unfolding hits using b by (auto simp: ids selected_def sel_in_def)
    qed
  qed
  then show "selected s' = filter (holds lower upper f hav) (selected s)" "sel_in N s'" by blast+
qed


section \<open>Rows in the order of the query\<close>

text \<open>
  The order of a query, stated on row numbers: the first key on which the two rows differ decides,
  rows with equal keys keep the order of the table.
\<close>

definition cmp_cells :: "arr \<Rightarrow> arr \<Rightarrow> ordering" where
  "cmp_cells a b =
     (case (a, b) of
        (Arr_I64 x, Arr_I64 y) \<Rightarrow> cmp_i64 (hd x) (hd y)
      | (Arr_F64 x, Arr_F64 y) \<Rightarrow> f64_total_cmp (hd x) (hd y)
      | (Arr_Bool x, Arr_Bool y) \<Rightarrow> cmp_u8 (hd x) (hd y)
      | (Arr_Str x, Arr_Str y) \<Rightarrow> cmp_str (hd x) (hd y)
      | _ \<Rightarrow> Equal)"

fun row_cmp ::
  "(rstr \<Rightarrow> rstr) \<Rightarrow> (rstr \<Rightarrow> rstr) \<Rightarrow> column list \<Rightarrow> order_key list \<Rightarrow> nat \<Rightarrow> nat \<Rightarrow> ordering" where
  "row_cmp lower upper f [] r1 r2 = cmp_nat r1 r2"
| "row_cmp lower upper f (k # ks) r1 r2 =
     (case (eval lower upper f (one_row r1) (key_expr k), eval lower upper f (one_row r2) (key_expr k)) of
        (Inr a, Inr b) \<Rightarrow>
          (let c = cmp_cells a b in
           if c \<noteq> Equal then (if asc k then c else reverse c) else row_cmp lower upper f ks r1 r2)
      | _ \<Rightarrow> Equal)"

definition row_before ::
  "(rstr \<Rightarrow> rstr) \<Rightarrow> (rstr \<Rightarrow> rstr) \<Rightarrow> column list \<Rightarrow> order_key list \<Rightarrow> nat \<Rightarrow> nat \<Rightarrow> bool" where
  "row_before lower upper f keys r1 r2 \<longleftrightarrow> row_cmp lower upper f keys r1 r2 = ordering.Less"

lemma cmp_arr_cells: "cmp_arr a i j = Inr c \<Longrightarrow> cmp_cells (cell a i) (cell a j) = c"
  by (cases a) (auto simp: cmp_arr_def cmp_at_def cmp_cells_def res_simps val_index)

lemma cmp_nat_mono:
  assumes "sorted_wrt (<) rs" "i < length rs" "j < length rs"
  shows "cmp_nat (rs ! i) (rs ! j) = cmp_nat i j"
  using assms sorted_wrt_nth_less [OF assms(1), of i j] sorted_wrt_nth_less [OF assms(1), of j i]
  by (cases i j rule: linorder_cases) (auto simp: cmp_nat_def cmp_int_def)

lemma cmp_rows_row_cmp:
  assumes f: "frame_ok N f" and s: "sel_in N s" and inc: "sorted_wrt (<) (selected s)"
    and i: "i < sel_len s" "j < sel_len s"
  shows "list_all2 (\<lambda>k a. eval lower upper f s (key_expr k) = Inr a) keys arrays \<Longrightarrow>
    \<forall>k \<in> set keys. row_local (key_expr k) \<Longrightarrow>
    cmp_rows (zip arrays (map asc keys)) i j = Inr c \<Longrightarrow>
    row_cmp lower upper f keys (selected s ! i) (selected s ! j) = c"
proof (induction keys arbitrary: arrays)
  case Nil
  then show ?case using cmp_nat_mono [OF inc] i by simp
next
  case (Cons k keys)
  then obtain a as where arrays: "arrays = a # as" and a: "eval lower upper f s (key_expr k) = Inr a"
    and as: "list_all2 (\<lambda>k a. eval lower upper f s (key_expr k) = Inr a) keys as"
    by (auto simp: list_all2_Cons1)
  from Cons.prems(3) arrays obtain d where d: "cmp_arr a i j = Inr d"
    and rest: "(if d \<noteq> Equal then Inr (if asc k then d else reverse d)
       else cmp_rows (zip as (map asc keys)) i j) = Inr c"
    by (auto simp: res_simps)
  have "eval lower upper f (one_row (selected s ! i)) (key_expr k) = Inr (cell a i)"
    "eval lower upper f (one_row (selected s ! j)) (key_expr k) = Inr (cell a j)"
    using eval_cell [OF f s _ selected_nth _ a] i Cons.prems(2) by simp_all
  then show ?case
    using cmp_arr_cells [OF d] rest Cons.IH [OF as] Cons.prems(2) by (auto simp: Let_def split: if_splits)
qed

lemma cut_nth_map: "cut lim off (map (\<lambda>i. xs ! i) p) = map (\<lambda>i. xs ! i) (cut lim off p)"
  by (rule cut_map)

lemma set_cut: "set (cut lim off xs) \<subseteq> set xs"
  by (auto simp: cut_def split: option.splits dest: in_set_takeD in_set_dropD)

lemma in_order_rows:
  assumes p: "in_order (zip arrays (map asc keys)) (sel_len s) p"
    and f: "frame_ok N f" and s: "sel_in N s" and inc: "sorted_wrt (<) (selected s)"
    and e: "list_all2 (\<lambda>k a. eval lower upper f s (key_expr k) = Inr a) keys arrays"
    and loc: "\<forall>k \<in> set keys. row_local (key_expr k)"
  shows "mset (map (\<lambda>i. selected s ! i) p) = mset (selected s)"
    and "sorted_wrt (row_before lower upper f keys) (map (\<lambda>i. selected s ! i) p)"
proof -
  have "mset p = mset [0..<sel_len s]"
    using p set_eq_iff_mset_eq_distinct [of p "[0..<sel_len s]"] unfolding in_order_def
    by (simp add: atLeast0LessThan)
  then have "mset (map (\<lambda>i. selected s ! i) p) = mset (map (\<lambda>i. selected s ! i) [0..<sel_len s])"
    by simp
  also have "map (\<lambda>i. selected s ! i) [0..<sel_len s] = selected s"
    by (metis length_selected map_nth)
  finally show "mset (map (\<lambda>i. selected s ! i) p) = mset (selected s)" .
  have mem: "i \<in> set p \<Longrightarrow> i < sel_len s" for i using p by (simp add: in_order_def)
  have "sorted_wrt (\<lambda>i j. row_before lower upper f keys (selected s ! i) (selected s ! j)) p"
  proof (rule sorted_wrt_mono_rel [of p "row_less (zip arrays (map asc keys))"])
    show "sorted_wrt (row_less (zip arrays (map asc keys))) p" using p by (simp add: in_order_def)
  next
    fix i j assume "i \<in> set p" "j \<in> set p" "row_less (zip arrays (map asc keys)) i j"
    then show "row_before lower upper f keys (selected s ! i) (selected s ! j)"
      unfolding row_less_def row_before_def by (intro cmp_rows_row_cmp [OF f s inc mem mem e loc])
  qed
  then show "sorted_wrt (row_before lower upper f keys) (map (\<lambda>i. selected s ! i) p)"
    by (simp add: sorted_wrt_map)
qed

lemma order_and_limit_rows:
  assumes ok: "order_and_limit lower upper f s keys lim off = Inr s'"
    and f: "frame_ok N f" "N < 2 ^ 32" and s: "sel_in N s" and inc: "sorted_wrt (<) (selected s)"
    and loc: "\<forall>k \<in> set keys. row_local (key_expr k)" and small: "small_cut lim off"
    and len: "sel_len s < 2 ^ 32"
  shows "\<exists>rows. mset rows = mset (selected s) \<and> sorted_wrt (row_before lower upper f keys) rows \<and>
    selected s' = cut lim off rows \<and> sel_in N s'"
proof (cases "keys = []")
  case True
  have sorted: "sorted_wrt (row_before lower upper f keys) (selected s)"
    using inc True by (auto simp: row_before_def cmp_nat_def cmp_int_def elim: sorted_wrt_mono_rel [rotated])
  let ?n = "sel_len s"
  let ?a = "min off ?n" and ?b = "cut_end lim (min off ?n) ?n"
  have c: "slice (selected s) ?a ?b = Inr (cut lim off (selected s))"
    using slice_cut [OF small, of "selected s"] by simp
  then have ab: "?a \<le> ?b" "?b \<le> ?n" and cut: "cut lim off (selected s) = take (?b - ?a) (drop ?a (selected s))"
    by (auto simp: slice_def split: if_splits)
  show ?thesis
  proof (cases "?a = 0 \<and> ?b = ?n")
    case whole: True
    then have "cut_end lim 0 ?n = ?n" by metis
    with whole cut have "cut lim off (selected s) = selected s" by simp
    moreover have "s' = s" using ok True whole by (auto simp: order_and_limit_def Let_def split: if_splits)
    ultimately show ?thesis using sorted s by auto
  next
    case False
    have "as_u32 ?a = ?a" "as_u32 ?b = ?b" using ab len by (auto simp: as_u32_def)
    with ok True False have p: "permute s [?a..<?b] = Inr s'"
      by (auto simp: order_and_limit_def Let_def split: if_splits)
    note ps = permute_selected [OF p s]
    have "map (\<lambda>i. selected s ! i) [?a..<?b] = take (?b - ?a) (drop ?a (selected s))"
      using ab by (intro nth_equalityI) auto
    with ps f ab cut sorted show ?thesis by (intro exI [of _ "selected s"]) auto
  qed
next
  case False
  let ?n = "sel_len s"
  from ok False obtain arrays u where arrays: "map_res (\<lambda>k. eval lower upper f s (key_expr k)) keys = Inr arrays"
    and pairs: "compare_pairs (zip arrays (map asc keys)) [0 ..< as_u32 ?n] = Inr u"
    and rest: "(let idx = sorted_positions (zip arrays (map asc keys)) lim off ?n;
              start = min off (length idx);
              fin = cut_end lim start (length idx)
          in and_then (slice idx start fin) (permute s)) = Inr s'"
    by (auto simp: order_and_limit_def Let_def res_simps simp del: map_res.simps)
  have n: "as_u32 ?n = ?n" using len by (simp add: as_u32_def)
  from sorted_positions_cut [OF pairs [unfolded n] len small] obtain p k
    where p: "in_order (zip arrays (map asc keys)) ?n p"
      and sp: "sorted_positions (zip arrays (map asc keys)) lim off ?n = take k p"
      and cut: "cut lim off (take k p) = cut lim off p" by blast
  from rest sp cut slice_cut [OF small, of "take k p"]
  have perm: "permute s (cut lim off p) = Inr s'" by (simp add: Let_def)
  have e: "list_all2 (\<lambda>k a. eval lower upper f s (key_expr k) = Inr a) keys arrays"
    using arrays by (simp add: map_res_Inr)
  have "\<forall>i \<in> set (cut lim off p). i < ?n"
    using p set_cut [of lim off p] by (auto simp: in_order_def)
  note ps = permute_selected [OF perm s _ this]
  show ?thesis
    using in_order_rows [OF p f(1) s inc e loc] ps f(2) cut_nth_map [of lim off "selected s" p]
    by (intro exI [of _ "map (\<lambda>i. selected s ! i) p"]) auto
qed


section \<open>The result of a query\<close>

definition row_out ::
  "(rstr \<Rightarrow> rstr) \<Rightarrow> (rstr \<Rightarrow> rstr) \<Rightarrow> column list \<Rightarrow> projection list \<Rightarrow> nat \<Rightarrow> rvalue list res" where
  "row_out lower upper f ps r = map_res (\<lambda>p. row_value lower upper f r (proj_expr p)) ps"

lemma result_row:
  assumes "list_all2 (\<lambda>p a. eval lower upper f s (proj_expr p) = Inr a) ps arrays"
    and "frame_ok N f" "sel_in N s" "i < sel_len s" "\<forall>p \<in> set ps. row_local (proj_expr p)"
  shows "map_res (\<lambda>a. arr_value a i) arrays = row_out lower upper f ps (selected s ! i)"
  using assms(1,5)
proof (induction rule: list_all2_induct)
  case Nil
  then show ?case by (simp add: row_out_def)
next
  case (Cons p ps a arrays)
  then show ?case
    using arr_value_row [OF assms(2,3) _ Cons(1) assms(4) selected_nth [OF assms(4)]]
    by (simp add: row_out_def)
qed

lemma result_rows_out:
  assumes "list_all2 (\<lambda>p a. eval lower upper f s (proj_expr p) = Inr a) ps arrays"
    and "frame_ok N f" "sel_in N s" "\<forall>p \<in> set ps. row_local (proj_expr p)"
    and "result_rows arrays (sel_len s) = Inr rows"
  shows "map_res (row_out lower upper f ps) (selected s) = Inr rows"
proof -
  have "map_res (\<lambda>i. row_out lower upper f ps (selected s ! i)) [0..<sel_len s] = Inr rows"
    unfolding assms(5) [symmetric] result_rows_def
    by (rule map_res_cong) (use result_row [OF assms(1-3) _ assms(4)] in auto)
  then have "list_all2 (\<lambda>i y. row_out lower upper f ps (selected s ! i) = Inr y) [0..<sel_len s] rows"
    by (simp add: map_res_Inr)
  then show ?thesis by (simp add: map_res_Inr list_all2_conv_all_nth)
qed

text \<open>The second half of \<open>run_select\<close>, over the table or over the groups.\<close>

lemma finish_rows:
  assumes h: "having_rows lower upper f s1 hav = Inr s2"
    and o': "order_and_limit lower upper f s2 keys lim off = Inr s3"
    and a: "map_res (\<lambda>p. eval lower upper f s3 (proj_expr p)) ps = Inr arrays"
    and r: "result_rows arrays (sel_len s3) = Inr rows0"
    and f: "frame_ok N f" "N < 2 ^ 32" and s1: "sel_in N s1" and inc: "sorted_wrt (<) (selected s1)"
    and len: "sel_len s1 < 2 ^ 32" and small: "small_cut lim off"
    and loc: "\<And>e. hav = Some e \<Longrightarrow> row_local e" "\<forall>k \<in> set keys. row_local (key_expr k)"
      "\<forall>p \<in> set ps. row_local (proj_expr p)"
  shows "\<exists>rows. mset rows = mset (filter (holds lower upper f hav) (selected s1)) \<and>
    sorted_wrt (row_before lower upper f keys) rows \<and>
    map_res (row_out lower upper f ps) (cut lim off rows) = Inr rows0"
proof -
  have s2: "selected s2 = filter (holds lower upper f hav) (selected s1)" "sel_in N s2"
    using having_rows_selected [OF h f(1) s1] loc(1) by blast+
  have inc2: "sorted_wrt (<) (selected s2)"
    unfolding s2(1) by (intro sorted_wrt_filter inc)
  have "sel_len s2 \<le> sel_len s1"
    unfolding length_selected [symmetric] s2(1) by (rule length_filter_le)
  then have len2: "sel_len s2 < 2 ^ 32" using len by simp
  from order_and_limit_rows [OF o' f s2(2) inc2 loc(2) small len2] obtain rows where
    rows: "mset rows = mset (selected s2)" "sorted_wrt (row_before lower upper f keys) rows"
      "selected s3 = cut lim off rows" and s3: "sel_in N s3" by blast
  have "map_res (row_out lower upper f ps) (selected s3) = Inr rows0"
    using a r loc(3) by (intro result_rows_out [OF _ f(1) s3]) (auto simp: map_res_Inr)
  with rows s2(1) show ?thesis by metis
qed

text \<open>A plan whose expressions are decided by the row.\<close>

definition local_plan :: "select \<Rightarrow> bool" where
  "local_plan plan \<longleftrightarrow>
     (case sel_filter plan of None \<Rightarrow> True | Some e \<Rightarrow> row_local e) \<and>
     (\<forall>p \<in> set (projections plan). row_local (proj_expr p)) \<and>
     (\<forall>k \<in> set (order_by plan). row_local (key_expr k)) \<and>
     small_cut (limit plan) (offset plan)"

definition source_cols :: "table option \<Rightarrow> column list" where
  "source_cols tab = (case tab of None \<Rightarrow> [] | Some t \<Rightarrow> columns t)"

definition source_rows :: "table option \<Rightarrow> nat" where
  "source_rows tab = (case tab of None \<Rightarrow> 1 | Some t \<Rightarrow> nrows t)"

lemma run_select_rows:
  assumes run: "run_select lower upper hash plan tab = Inr res" and plain: "\<not> is_aggregate plan"
    and f: "frame_ok (source_rows tab) (source_cols tab)" and N: "source_rows tab < 2 ^ 32"
    and loc: "local_plan plan"
  shows "\<exists>rows. mset rows = mset (filter (holds lower upper (source_cols tab) (sel_filter plan)) [0..<source_rows tab]) \<and>
    sorted_wrt (row_before lower upper (source_cols tab) (order_by plan)) rows \<and>
    map_res (row_out lower upper (source_cols tab) (projections plan)) (cut (limit plan) (offset plan) rows) = Inr (qrows res)"
proof -
  let ?f = "source_cols tab" and ?N = "source_rows tab"
  from run plain obtain s1 s2 s3 arrays rows0 where
    w: "where_rows lower upper ?f ?N (sel_filter plan) = Inr s1"
    and h: "having_rows lower upper ?f s1 None = Inr s2"
    and o': "order_and_limit lower upper ?f s2 (order_by plan) (limit plan) (offset plan) = Inr s3"
    and a: "map_res (\<lambda>p. eval lower upper ?f s3 (proj_expr p)) (projections plan) = Inr arrays"
    and r: "result_rows arrays (sel_len s3) = Inr rows0" and res: "qrows res = rows0"
    by (auto simp: run_select_def Let_def and_then_Inr source_cols_def source_rows_def)
  have sel: "selected s1 = filter (holds lower upper ?f (sel_filter plan)) [0..<?N]" and s1: "sel_in ?N s1"
    using where_rows_selected [OF w f] loc by (auto simp: local_plan_def split: option.splits)
  have inc: "sorted_wrt (<) (selected s1)"
    unfolding sel by (intro sorted_wrt_filter) simp
  have "sel_len s1 \<le> ?N" unfolding length_selected [symmetric] sel by (metis length_filter_le length_upt minus_nat.diff_0)
  then have len: "sel_len s1 < 2 ^ 32" using N by simp
  have l: "small_cut (limit plan) (offset plan)" "\<forall>k \<in> set (order_by plan). row_local (key_expr k)"
    "\<forall>p \<in> set (projections plan). row_local (proj_expr p)"
    using loc by (simp_all add: local_plan_def)
  from finish_rows [OF h o' a r f N s1 inc len l(1) _ l(2,3)]
  show ?thesis by (simp add: sel res holds_def)
qed

section \<open>Properties of queries\<close>

text \<open>
  C18: a query without grouping computes what \<open>SELECT\<close> means, if its condition, keys and projections are
  decided by the row (\<open>local_plan\<close>): wherever they apply \<open>date_trunc\<close> or \<open>round\<close>, the unit or the number of digits
  is a literal, since the source takes it from the first row for all rows; and the table has less than
  \<open>2 ^ 32\<close> rows, and \<open>OFFSET\<close> plus \<open>LIMIT\<close> do not overflow. If \<open>run_select\<close> succeeds, there is an
  arrangement of exactly the rows that satisfy \<open>WHERE\<close>, in the order of the keys with ties in the
  order of the table, such that the result holds, for the rows that \<open>OFFSET\<close> and \<open>LIMIT\<close> leave of
  it, the projected expressions evaluated in that row alone.
\<close>
theorem select_refines:
  assumes "run_select lower upper hash plan tab = Inr res" and "\<not> is_aggregate plan"
    and "frame_ok (source_rows tab) (source_cols tab)" and "source_rows tab < 2 ^ 32"
    and "local_plan plan"
  shows "\<exists>rows.
    mset rows = mset (filter (holds lower upper (source_cols tab) (sel_filter plan)) [0..<source_rows tab]) \<and>
    sorted_wrt (row_before lower upper (source_cols tab) (order_by plan)) rows \<and>
    map_res (row_out lower upper (source_cols tab) (projections plan))
      (cut (limit plan) (offset plan) rows) = Inr (qrows res)"
  by (rule run_select_rows [OF assms])

definition demo_table :: table where
  "demo_table =
     \<lparr>tname = str ''t'', tschema = \<lparr>sfields = []\<rparr>,
      columns = [C_I64 [3, 5, 8, 5], C_I64 [1, 2, 3, 4]], nrows = 4\<rparr>"

text \<open>\<open>SELECT c1 + 10 AS x FROM t WHERE c0 > 3 ORDER BY c0, c1 DESC LIMIT 2\<close>\<close>

definition demo_select :: select where
  "demo_select =
     \<lparr>sel_table = Some (str ''t''),
      sel_filter = Some (E_Binary B_Gt (E_Col 0) (E_Lit (V_I64 3))), group_by = [], having = None,
      projections = [\<lparr>proj_expr = E_Binary B_Add (E_Col 1) (E_Lit (V_I64 10)), proj_alias = str ''x''\<rparr>],
      order_by = [\<lparr>key_expr = E_Col 0, asc = True\<rparr>, \<lparr>key_expr = E_Col 1, asc = False\<rparr>],
      limit = Some 2, offset = 0\<rparr>"

theorem select_refines_witness:
  "\<exists>rows.
    mset rows = mset (filter (holds id id (source_cols (Some demo_table)) (sel_filter demo_select))
      [0..<source_rows (Some demo_table)]) \<and>
    sorted_wrt (row_before id id (source_cols (Some demo_table)) (order_by demo_select)) rows \<and>
    map_res (row_out id id (source_cols (Some demo_table)) (projections demo_select))
      (cut (limit demo_select) (offset demo_select) rows) = Inr [[V_I64 14], [V_I64 12]]"
proof -
  let ?res = "\<lparr>qcolumns = [str ''x''], qtypes = [DT_I64], qrows = [[V_I64 14], [V_I64 12]]\<rparr>"
  have "run_select id id (\<lambda>_. 0) demo_select (Some demo_table) = Inr ?res" by code_simp
  moreover have "\<not> is_aggregate demo_select" by code_simp
  moreover have "frame_ok (source_rows (Some demo_table)) (source_cols (Some demo_table))" by code_simp
  moreover have "source_rows (Some demo_table) < 2 ^ 32" by code_simp
  moreover have "local_plan demo_select" by code_simp
  ultimately show ?thesis
    using select_refines [of id id "\<lambda>_. 0" demo_select "Some demo_table" ?res] by simp
qed

text \<open>
  C23: the partial selection that \<open>LIMIT\<close> switches on gives the rows of a full sort: cutting the
  positions that \<open>select_nth_unstable_by\<close>, truncation and a sort of the rest produce is the same as
  cutting all the positions sorted.
\<close>
theorem top_k_is_full_sort:
  assumes "compare_pairs ks [0..<n] = Inr u" and "n < 2 ^ 32" and "off + l < 2 ^ 64"
  shows "take l (drop off (sorted_positions ks (Some l) off n)) =
    take l (drop off (sort_by (row_less ks) [0..<n]))"
proof -
  have small: "small_cut (Some l) off" using assms(3) by (simp add: small_cut_def)
  obtain p k where p: "in_order ks n p" "sorted_positions ks (Some l) off n = take k p"
    "cut (Some l) off (take k p) = cut (Some l) off p"
    using sorted_positions_cut [OF assms(1,2) small] by blast
  have tot: "strict_total (set [0..<n]) (row_less ks)" by (rule row_less_total [OF assms(1)])
  have "p = sort_by (row_less ks) [0..<n]"
  proof (rule sorted_unique [OF tot])
    show "sorted_wrt (row_less ks) p" using p(1) by (simp add: in_order_def)
    show "sorted_wrt (row_less ks) (sort_by (row_less ks) [0..<n])"
      by (rule sorted_sort_by [OF tot]) simp
    show "set p \<subseteq> set [0..<n]" and "set p = set (sort_by (row_less ks) [0..<n])"
      using p(1) by (simp_all add: in_order_def lessThan_atLeast0)
  qed
  with p show ?thesis by (simp add: cut_def)
qed

theorem top_k_is_full_sort_witness:
  "take 1 (drop 0 (sorted_positions [(Arr_I64 [9, 2, 7, 1, 5], True)] (Some 1) 0 5)) =
   take 1 (drop 0 (sort_by (row_less [(Arr_I64 [9, 2, 7, 1, 5], True)]) [0..<5]))"
proof (rule top_k_is_full_sort)
  show "compare_pairs [(Arr_I64 [9, 2, 7, 1, 5], True)] [0..<5] = Inr ()" by code_simp
qed simp_all

text \<open>
  ordering by a constant stops the query with a panic. An expression without columns evaluates to
  one value, and the comparison of two rows reads the key arrays without broadcasting; with two
  selected rows the second index is out of bounds.
\<close>
theorem order_by_constant_panics:
  assumes "eval_lit v = Inr a" and "2 \<le> n" and "n < 2 ^ 32"
  shows "order_and_limit lower upper f (All n) [\<lparr>key_expr = E_Lit v, asc = up\<rparr>] lim off =
    Inl (Panic ''index out of bounds'')"
proof -
  have n: "as_u32 (sel_len (All n)) = n" using assms(3) by (simp add: as_u32_def sel_len_def)
  have ev: "eval lower upper f (All n) (E_Lit v) = Inr a"
    using eval_lit_len [OF assms(1)] assms(1) by (simp add: checked_def)
  have cmp: "compare_pair [(a, up)] (0, 1) = Inl (Panic ''index out of bounds'')"
    using assms(1) by (cases v)
      (auto simp: eval_lit_def compare_pair_def cmp_arr_def cmp_at_def index_at_def)
  obtain rest where "List.product [0..<n] [0..<n] = (0, 0) # (0, 1) # rest"
  proof -
    have "[0..<n] = 0 # 1 # [2..<n]" using assms(2) by (simp add: upt_conv_Cons numeral_2_eq_2)
    then show thesis using that by simp
  qed
  with cmp have "compare_pairs [(a, up)] [0..<n] = Inl (Panic ''index out of bounds'')"
    by (simp add: compare_pairs_def compare_pair_def)
  with ev n show ?thesis by (simp add: order_and_limit_def)
qed

theorem order_by_constant_panics_witness:
  "order_and_limit id id (columns demo_table) (All 4) [\<lparr>key_expr = E_Lit (V_Str (str ''x'')), asc = True\<rparr>] None 0 =
    Inl (Panic ''index out of bounds'')"
  by (rule order_by_constant_panics [where a = "Arr_Str [str ''x'']"])
    (simp_all add: eval_lit_def)

end
