(* ===== verification/Grouping.thy ===== *)
theory Grouping
  imports Selection
begin

text \<open>
  Groups and aggregates: the byte strings of the group keys, the assignment of group numbers, the
  aggregates of one group as functions of the values of its rows, and the intermediate frame over
  which a grouped query goes on.
\<close>

section \<open>Keys of rows\<close>

text \<open>
  The byte string of a row determines the key values of the row: numbers have a fixed length and a
  string is preceded by its own.
\<close>

definition small_strings :: "arr \<Rightarrow> bool" where
  "small_strings a = (case a of Arr_Str v \<Rightarrow> \<forall>s \<in> set v. str_bytes_len s < 2 ^ 32 | _ \<Rightarrow> True)"

lemma pick_at_mem: "pick_at xs i = Inr x \<longleftrightarrow> at (length xs) i < length xs \<and> x = val xs i"
  by (auto simp: pick_at_def val_def index_at_Inr)

lemma nat_to_le_prefix:
  assumes "a < 256 ^ k" "b < 256 ^ k"
  shows "nat_to_le k a @ xs = nat_to_le k b @ ys \<longleftrightarrow> a = b \<and> xs = ys"
proof -
  have "nat_to_le k a = nat_to_le k b \<Longrightarrow> a = b"
    using nat_of_to_le [of k a] nat_of_to_le [of k b] assms by (metis mod_less)
  then show ?thesis by (auto simp: append_eq_append_conv)
qed

lemma key_bytes_prefix:
  assumes "key_bytes k i = Inr a" "key_bytes k j = Inr b" "small_strings k"
  shows "a @ xs = b @ ys \<longleftrightarrow> cell k i = cell k j \<and> xs = ys"
proof (cases k)
  case (Arr_Str v)
  with assms have a: "a = nat_to_le 4 (str_bytes_len (val v i)) @ utf8 (val v i)"
    and b: "b = nat_to_le 4 (str_bytes_len (val v j)) @ utf8 (val v j)"
    and small: "str_bytes_len (val v i) < 2 ^ 32" "str_bytes_len (val v j) < 2 ^ 32"
    by (auto simp: key_bytes_def res_simps pick_at_mem small_strings_def val_def)
  then have "a @ xs = b @ ys \<longleftrightarrow> str_bytes_len (val v i) = str_bytes_len (val v j) \<and>
      utf8 (val v i) @ xs = utf8 (val v j) @ ys"
    using nat_to_le_prefix [of "str_bytes_len (val v i)" 4 "str_bytes_len (val v j)"] pow256_4 by simp
  also have "\<dots> \<longleftrightarrow> utf8 (val v i) = utf8 (val v j) \<and> xs = ys"
    by (auto simp: str_bytes_len_def append_eq_append_conv)
  finally show ?thesis using Arr_Str by (simp add: utf8_inject)
next
  case (Arr_I64 v)
  with assms show ?thesis
    using nat_to_le_prefix [of "unat (val v i)" 8 "unat (val v j)"] unat_u64_less pow256_8
    by (auto simp: key_bytes_def res_simps pick_at_mem word_unat_eq_iff)
next
  case (Arr_F64 v)
  with assms show ?thesis
    using nat_to_le_prefix [of "unat (val v i)" 8 "unat (val v j)"] unat_u64_less pow256_8
    by (auto simp: key_bytes_def res_simps pick_at_mem word_unat_eq_iff)
next
  case (Arr_Bool v)
  with assms show ?thesis by (auto simp: key_bytes_def res_simps pick_at_mem)
next
  case (Arr_Vector dim rows)
  with assms show ?thesis by (simp add: key_bytes_def)
qed

lemma row_key_inject:
  assumes "row_key keys i = Inr a" "row_key keys j = Inr b" "\<forall>k \<in> set keys. small_strings k"
  shows "a = b \<longleftrightarrow> (\<forall>k \<in> set keys. cell k i = cell k j)"
  using assms
proof (induction keys arbitrary: a b)
  case Nil
  then show ?case by (simp add: row_key_def)
next
  case (Cons k keys)
  from Cons.prems obtain x y a' b' where x: "key_bytes k i = Inr x" "key_bytes k j = Inr y"
    and r: "row_key keys i = Inr a'" "row_key keys j = Inr b'" and ab: "a = x @ a'" "b = y @ b'"
    by (auto simp: row_key_def and_then_Inr)
  have "a = b \<longleftrightarrow> cell k i = cell k j \<and> a' = b'"
    unfolding ab by (rule key_bytes_prefix [OF x]) (use Cons.prems(3) in simp)
  also have "a' = b' \<longleftrightarrow> (\<forall>k \<in> set keys. cell k i = cell k j)"
    by (rule Cons.IH [OF r]) (use Cons.prems(3) in simp)
  finally show ?case by (simp only: list.set ball_simps)
qed

section \<open>Assignment of groups\<close>

lemma group_loop_spec:
  assumes "group_loop keys is seen cnt acc = Inr (out, k)"
    and "cnt + length is < 2 ^ 32"
    and "\<forall>b g. seen b = Some g \<longrightarrow> unat g < cnt"
    and "\<forall>b b' g. seen b = Some g \<longrightarrow> seen b' = Some g \<longrightarrow> b = b'"
    and "unat ` ran seen = {..<cnt}"
  shows "\<exists>bs seen' gs. out = acc @ gs \<and> list_all2 (\<lambda>i b. row_key keys i = Inr b) is bs \<and>
    list_all2 (\<lambda>b g. seen' b = Some g) bs gs \<and> seen \<subseteq>\<^sub>m seen' \<and>
    (\<forall>b b' g. seen' b = Some g \<longrightarrow> seen' b' = Some g \<longrightarrow> b = b') \<and>
    unat ` ran seen' = {..<k} \<and> dom seen' = dom seen \<union> set bs"
  using assms
proof (induction "is" arbitrary: seen cnt acc)
  case Nil
  then show ?case by (intro exI [of _ "[]"] exI [of _ seen]) auto
next
  case (Cons i "is")
  from Cons.prems(1) obtain b where b: "row_key keys i = Inr b"
    and step: "(case seen b of
       Some g \<Rightarrow> group_loop keys is seen cnt (acc @ [g])
     | None \<Rightarrow> group_loop keys is (seen(b \<mapsto> word_of_nat cnt)) (cnt + 1) (acc @ [word_of_nat cnt])) = Inr (out, k)"
    by (auto simp: and_then_Inr)
  show ?case
  proof (cases "seen b")
    case (Some g)
    with step Cons.IH [of seen cnt "acc @ [g]"] Cons.prems(2-) obtain bs seen' gs where
      *: "out = acc @ [g] @ gs" "list_all2 (\<lambda>i b. row_key keys i = Inr b) is bs"
        "list_all2 (\<lambda>b g. seen' b = Some g) bs gs" "seen \<subseteq>\<^sub>m seen'"
        "\<forall>b b' g. seen' b = Some g \<longrightarrow> seen' b' = Some g \<longrightarrow> b = b'"
        "unat ` ran seen' = {..<k}" "dom seen' = dom seen \<union> set bs" by auto
    have "seen' b = Some g" using *(4) Some by (auto simp: map_le_def dom_def)
    with * b Some show ?thesis
      by (intro exI [of _ "b # bs"] exI [of _ seen'] exI [of _ "g # gs"]) auto
  next
    case None
    let ?g = "word_of_nat cnt :: u32" and ?seen = "seen(b \<mapsto> word_of_nat cnt)"
    have u: "unat ?g = cnt" using Cons.prems(2) by (simp add: unat_of_nat)
    have new: "seen b' \<noteq> Some ?g" for b' using Cons.prems(3) u by (metis less_irrefl)
    have g1: "group_loop keys is ?seen (cnt + 1) (acc @ [?g]) = Inr (out, k)" using step None by simp
    have g2: "cnt + 1 + length is < 2 ^ 32" using Cons.prems(2) by simp
    have g3: "\<forall>b' g. ?seen b' = Some g \<longrightarrow> unat g < cnt + 1"
      using Cons.prems(3) u by (auto simp: less_Suc_eq)
    have g4: "\<forall>b' b'' g. ?seen b' = Some g \<longrightarrow> ?seen b'' = Some g \<longrightarrow> b' = b''"
      using Cons.prems(4) new by auto
    have g5: "unat ` ran ?seen = {..<cnt + 1}"
      using Cons.prems(5) None u by (auto simp: lessThan_Suc)
    from Cons.IH [OF g1 g2 g3 g4 g5] obtain bs seen' gs where
      *: "out = (acc @ [?g]) @ gs" "list_all2 (\<lambda>i b. row_key keys i = Inr b) is bs"
        "list_all2 (\<lambda>b g. seen' b = Some g) bs gs" "?seen \<subseteq>\<^sub>m seen'"
        "\<forall>b b' g. seen' b = Some g \<longrightarrow> seen' b' = Some g \<longrightarrow> b = b'"
        "unat ` ran seen' = {..<k}" "dom seen' = dom ?seen \<union> set bs"
      by (elim exE conjE) (rule that)
    have "seen' b = Some ?g" using *(4) by (auto simp: map_le_def dom_def)
    moreover have "seen \<subseteq>\<^sub>m seen'" using *(4) None by (auto simp: map_le_def dom_def split: if_splits)
    moreover have "dom seen' = dom seen \<union> set (b # bs)" using *(7) by auto
    moreover have "out = acc @ (?g # gs)" using *(1) by simp
    ultimately show ?thesis using *(2,3,5,6) b
      by (intro exI [of _ "b # bs"] exI [of _ seen'] exI [of _ "?g # gs"] conjI list.rel_intros) simp_all
  qed
qed

lemma assign_groups_spec:
  assumes "assign_groups keys n = Inr (gs, k)" and n: "n < 2 ^ 32" and "\<forall>a \<in> set keys. small_strings a"
  shows "length gs = n"
    and "keys \<noteq> [] \<Longrightarrow> unat ` set gs = {..<k}"
    and "g \<in> set gs \<Longrightarrow> unat g < k"
    and "i < n \<Longrightarrow> j < n \<Longrightarrow> gs ! i = gs ! j \<longleftrightarrow> (\<forall>a \<in> set keys. cell a i = cell a j)"
proof -
  have "length gs = n \<and> (keys \<noteq> [] \<longrightarrow> unat ` set gs = {..<k}) \<and> (\<forall>g \<in> set gs. unat g < k) \<and>
    (\<forall>i < n. \<forall>j < n. gs ! i = gs ! j \<longleftrightarrow> (\<forall>a \<in> set keys. cell a i = cell a j))"
  proof (cases "keys = []")
    case True
    with assms(1) show ?thesis by (auto simp: assign_groups_def)
  next
    case False
    with assms(1) have "group_loop keys [0..<n] (\<lambda>_. None) 0 [] = Inr (gs, k)"
      by (simp add: assign_groups_def)
    from group_loop_spec [OF this] n obtain bs seen where
      bs: "list_all2 (\<lambda>i b. row_key keys i = Inr b) [0..<n] bs"
      and gs: "list_all2 (\<lambda>b g. seen b = Some g) bs gs"
      and inj: "\<forall>b b' g. seen b = Some g \<longrightarrow> seen b' = Some g \<longrightarrow> b = b'"
      and ran: "unat ` ran seen = {..<k}" and dom: "dom seen = set bs" by auto
    have len: "length bs = n" "length gs = n"
      using list_all2_lengthD [OF bs] list_all2_lengthD [OF gs] by simp_all
    have key: "i < n \<Longrightarrow> row_key keys i = Inr (bs ! i) \<and> seen (bs ! i) = Some (gs ! i)" for i
      using bs gs len by (auto simp: list_all2_conv_all_nth)
    have "gs ! i = gs ! j \<longleftrightarrow> (\<forall>a \<in> set keys. cell a i = cell a j)" if "i < n" "j < n" for i j
    proof -
      have "gs ! i = gs ! j \<longleftrightarrow> bs ! i = bs ! j"
        using key [OF that(1)] key [OF that(2)] inj by (metis option.inject)
      then show ?thesis
        using row_key_inject [of keys i "bs ! i" j "bs ! j"] key that assms(3) by simp
    qed
    moreover have "set gs = ran seen"
    proof
      show "set gs \<subseteq> ran seen" using key len by (metis (no_types, lifting) in_set_conv_nth ranI subsetI)
      show "ran seen \<subseteq> set gs"
      proof
        fix g assume "g \<in> ran seen"
        then obtain b where b: "seen b = Some g" by (auto simp: ran_def)
        then have "b \<in> set bs" using dom by auto
        then obtain i where "i < n" "bs ! i = b" using len by (auto simp: in_set_conv_nth)
        with key [of i] b len show "g \<in> set gs" by (metis nth_mem option.inject)
      qed
    qed
    ultimately show ?thesis using ran len by auto
  qed
  then show "length gs = n" "keys \<noteq> [] \<Longrightarrow> unat ` set gs = {..<k}" "g \<in> set gs \<Longrightarrow> unat g < k"
    "i < n \<Longrightarrow> j < n \<Longrightarrow> gs ! i = gs ! j \<longleftrightarrow> (\<forall>a \<in> set keys. cell a i = cell a j)"
    by auto
qed


section \<open>Aggregates of a group\<close>

fun fold_res :: "(nat \<Rightarrow> 'a \<Rightarrow> 'a res) \<Rightarrow> nat list \<Rightarrow> 'a \<Rightarrow> 'a res" where
  "fold_res f [] a = Inr a"
| "fold_res f (i # is) a = and_then (f i a) (fold_res f is)"

text \<open>The rows of group \<open>g\<close>, in order.\<close>

definition rows_of :: "u32 list \<Rightarrow> nat \<Rightarrow> nat \<Rightarrow> nat list" where
  "rows_of gs n g = filter (\<lambda>i. unat (gs ! i) = g) [0..<n]"

lemma accumulate_group:
  "accumulate f gs is acc = Inr out \<Longrightarrow>
   length out = length acc \<and>
   (\<forall>g < length acc. fold_res f (filter (\<lambda>i. unat (gs ! i) = g) is) (acc ! g) = Inr (out ! g))"
proof (induction "is" arbitrary: acc)
  case Nil
  then show ?case by simp
next
  case (Cons i "is")
  from Cons.prems obtain a' where i: "i < length gs" "unat (gs ! i) < length acc"
    and a': "f i (acc ! unat (gs ! i)) = Inr a'"
    and rest: "accumulate f gs is (acc[unat (gs ! i) := a']) = Inr out"
    by (auto simp: res_simps)
  show ?case using Cons.IH [OF rest] i a' by (auto simp: nth_list_update)
qed

lemma accumulate_rows:
  assumes "accumulate f gs [0..<n] (replicate G z) = Inr out"
  shows "length out = G" and "g < G \<Longrightarrow> fold_res f (rows_of gs n g) z = Inr (out ! g)"
  using accumulate_group [OF assms] by (auto simp: rows_of_def)

lemma fold_res_fun:
  "(\<And>i a. i \<in> set is \<Longrightarrow> f i a = Inr (h i a)) \<Longrightarrow> fold_res f is a = Inr (fold h is a)"
  by (induction "is" arbitrary: a) auto

lemma fold_map_list: "fold (\<lambda>i. h (f i)) is = fold h (map f is)"
  by (simp add: fold_map o_def)

lemma rows_of_less: "i \<in> set (rows_of gs n g) \<Longrightarrow> i < n"
  by (simp add: rows_of_def)

lemma fold_incr: "fold (\<lambda>_ c. c + 1) is (a :: i64) = a + word_of_nat (length is)"
  by (induction "is" arbitrary: a) (auto simp: algebra_simps)

lemma count_rows_group:
  assumes "count_rows n gs G = Inr col" "length gs = n"
  shows "\<exists>cs. col = C_I64 cs \<and> length cs = G \<and>
    (\<forall>g < G. cs ! g = word_of_nat (length (rows_of gs n g)))"
proof -
  from assms obtain cs where a: "accumulate (\<lambda>_ c. Inr (c + 1)) gs [0..<n] (replicate G (0 :: i64)) = Inr cs"
    and col: "col = C_I64 cs"
    by (auto simp: count_rows_def res_simps)
  have "cs ! g = word_of_nat (length (rows_of gs n g))" if "g < G" for g
    using accumulate_rows(2) [OF a that] fold_res_fun [of "rows_of gs n g" "\<lambda>_ c. Inr (c + 1)" "\<lambda>_ c. c + 1" "0 :: i64"]
    by (simp add: fold_incr)
  with accumulate_rows(1) [OF a] col show ?thesis by blast
qed

text \<open>The reference: what an aggregate of integers is, as a function of the values of the group.\<close>

definition agg_i64 :: "agg_func \<Rightarrow> i64 list \<Rightarrow> i64" where
  "agg_i64 fn vs =
     (case fn of
        A_Count \<Rightarrow> word_of_nat (length vs)
      | A_Sum \<Rightarrow> fold (\<lambda>v a. sat_add a v) vs 0
      | A_Min \<Rightarrow> (if vs = [] then 0 else word_of_int (Min (sint ` set vs)))
      | A_Max \<Rightarrow> (if vs = [] then 0 else word_of_int (Max (sint ` set vs)))
      | A_Avg \<Rightarrow> 0)"

lemma fold_keep: "fold (keep better) (x # xs) None = Some (foldl better x xs)"
proof -
  have "fold (keep better) xs (Some a) = Some (foldl better a xs)" for a
    by (induction xs arbitrary: a) (simp_all add: keep_def)
  then show ?thesis by (simp add: keep_def)
qed

lemma foldl_min: "sint (foldl (better_i64 True) x xs) = Min (sint ` set (x # xs))"
proof (induction xs arbitrary: x)
  case (Cons y ys)
  have "Min (sint ` set (x # y # ys)) = min (min (sint x) (sint y)) (Min (sint ` set (y # ys)))"
    by (cases "ys = []") (auto simp: min_def)
  also have "\<dots> = Min (sint ` set (better_i64 True x y # ys))"
    by (cases "ys = []") (auto simp: better_i64_def min_def)
  finally show ?case using Cons by simp
qed simp

lemma foldl_max: "sint (foldl (better_i64 False) x xs) = Max (sint ` set (x # xs))"
proof (induction xs arbitrary: x)
  case (Cons y ys)
  have "Max (sint ` set (x # y # ys)) = max (max (sint x) (sint y)) (Max (sint ` set (y # ys)))"
    by (cases "ys = []") (auto simp: max_def)
  also have "\<dots> = Max (sint ` set (better_i64 False x y # ys))"
    by (cases "ys = []") (auto simp: better_i64_def max_def)
  finally show ?case using Cons by simp
qed simp

lemma extremum_group:
  assumes "extremum (better_i64 m) x n gs G = Inr acc" "fit n (length x)"
  shows "length acc = G"
    and "g < G \<Longrightarrow> or_default 0 (acc ! g) =
      agg_i64 (if m then A_Min else A_Max) (map (val x) (rows_of gs n g))"
proof -
  from assms(1) have a: "accumulate (\<lambda>i cur. and_then (pick_at x i) (\<lambda>v. Inr (keep (better_i64 m) v cur))) gs [0..<n] (replicate G None) = Inr acc"
    by (simp add: extremum_def)
  show "length acc = G" by (rule accumulate_rows(1) [OF a])
  assume g: "g < G"
  let ?vs = "map (val x) (rows_of gs n g)"
  have "fold_res (\<lambda>i cur. and_then (pick_at x i) (\<lambda>v. Inr (keep (better_i64 m) v cur))) (rows_of gs n g) None =
      Inr (fold (\<lambda>i. keep (better_i64 m) (val x i)) (rows_of gs n g) None)"
    by (rule fold_res_fun) (simp add: pick_at_val [OF assms(2) rows_of_less])
  with accumulate_rows(2) [OF a g] have acc: "acc ! g = fold (keep (better_i64 m)) ?vs None"
    by (simp add: fold_map_list)
  show "or_default 0 (acc ! g) = agg_i64 (if m then A_Min else A_Max) ?vs"
  proof (cases ?vs)
    case Nil
    then show ?thesis using acc by (simp add: or_default_def agg_i64_def)
  next
    case (Cons v vs)
    have "acc ! g = Some (foldl (better_i64 m) v vs)"
      using acc unfolding Cons fold_keep .
    moreover have "foldl (better_i64 m) v vs = word_of_int (sint (foldl (better_i64 m) v vs))" by simp
    ultimately show ?thesis
      unfolding Cons using foldl_min [of v vs] foldl_max [of v vs]
      by (cases m) (simp_all add: or_default_def agg_i64_def)
  qed
qed

lemma run_agg_group:
  assumes run: "run_agg lower upper hash (E_Agg fn (Some e) False) base s gs G = Inr col"
    and e: "eval lower upper base s e = Inr (Arr_I64 x)" and len: "length gs = sel_len s"
    and fn: "fn \<noteq> A_Avg"
  shows "\<exists>cs. col = C_I64 cs \<and> length cs = G \<and>
    (\<forall>g < G. cs ! g = agg_i64 fn (map (val x) (rows_of gs (sel_len s) g)))"
proof -
  have fit: "fit (sel_len s) (length x)" using eval_fit [OF e] by simp
  show ?thesis
  proof (cases fn)
    case A_Count
    with run e count_rows_group [OF _ len] show ?thesis by (simp add: run_agg_def agg_i64_def)
  next
    case A_Sum
    with run e obtain cs where a: "accumulate (\<lambda>i a. and_then (pick_at x i) (\<lambda>y. Inr (sat_add a y)))
             gs [0..<sel_len s] (replicate G 0) = Inr cs" and col: "col = C_I64 cs"
      by (auto simp: run_agg_def agg_sum_def res_simps)
    have "cs ! g = agg_i64 fn (map (val x) (rows_of gs (sel_len s) g))" if "g < G" for g
    proof -
      have "fold_res (\<lambda>i a. and_then (pick_at x i) (\<lambda>y. Inr (sat_add a y))) (rows_of gs (sel_len s) g) 0 =
          Inr (fold (\<lambda>i a. sat_add a (val x i)) (rows_of gs (sel_len s) g) 0)"
        by (rule fold_res_fun) (simp add: pick_at_val [OF fit rows_of_less])
      with accumulate_rows(2) [OF a that] show ?thesis
        using A_Sum by (simp add: agg_i64_def fold_map o_def)
    qed
    with accumulate_rows(1) [OF a] col show ?thesis by blast
  next
    case A_Min
    with run e obtain acc where a: "extremum (better_i64 True) x (sel_len s) gs G = Inr acc"
      and col: "col = C_I64 (map (or_default 0) acc)"
      by (auto simp: run_agg_def agg_min_max_def res_simps)
    with extremum_group [OF a fit] A_Min show ?thesis by auto
  next
    case A_Max
    with run e obtain acc where a: "extremum (better_i64 False) x (sel_len s) gs G = Inr acc"
      and col: "col = C_I64 (map (or_default 0) acc)"
      by (auto simp: run_agg_def agg_min_max_def res_simps)
    with extremum_group [OF a fit] A_Max show ?thesis by auto
  next
    case A_Avg
    with fn show ?thesis by simp
  qed
qed

lemma fold_insert_set: "set (fold List.insert xs ys) = set xs \<union> set ys"
  by (induction xs arbitrary: ys) auto

lemma fold_insert_distinct: "distinct ys \<Longrightarrow> distinct (fold List.insert xs ys)"
  by (induction xs arbitrary: ys) auto

lemma run_agg_distinct:
  assumes run: "run_agg lower upper hash (E_Agg fn (Some e) True) base s gs G = Inr col"
    and e: "eval lower upper base s e = Inr (Arr_I64 x)"
  shows "\<exists>cs. col = C_I64 cs \<and> length cs = G \<and>
    (\<forall>g < G. cs ! g = word_of_nat (card (set (map (val x) (rows_of gs (sel_len s) g)))))"
proof -
  have fit: "fit (sel_len s) (length x)" using eval_fit [OF e] by simp
  from run e obtain sets where
    a: "accumulate (\<lambda>i set'. and_then (value_key hash (Arr_I64 x) (at (length x) i)) (\<lambda>k. Inr (List.insert k set')))
          gs [0..<sel_len s] (replicate G []) = Inr sets"
    and col: "col = C_I64 (map (\<lambda>s. word_of_nat (length s)) sets)"
    by (auto simp: run_agg_def count_distinct_def res_simps)
  have "length (sets ! g) = card (set (map (val x) (rows_of gs (sel_len s) g)))" if "g < G" for g
  proof -
    have "fold_res (\<lambda>i set'. and_then (value_key hash (Arr_I64 x) (at (length x) i)) (\<lambda>k. Inr (List.insert k set')))
        (rows_of gs (sel_len s) g) [] = Inr (fold (\<lambda>i. List.insert (val x i)) (rows_of gs (sel_len s) g) [])"
      by (rule fold_res_fun) (simp add: value_key_def val_def at_less [OF fit rows_of_less])
    with accumulate_rows(2) [OF a that]
    have "sets ! g = fold List.insert (map (val x) (rows_of gs (sel_len s) g)) []"
      by (simp add: fold_map_list)
    then show ?thesis
      using fold_insert_set [of "map (val x) (rows_of gs (sel_len s) g)" "[]"]
        fold_insert_distinct [of "[]" "map (val x) (rows_of gs (sel_len s) g)"] distinct_card
      by (metis distinct.simps(1) list.set(1) sup_bot.right_neutral)
  qed
  with accumulate_rows(1) [OF a] col show ?thesis by auto
qed

section \<open>The intermediate frame\<close>

lemma offsets_foldl_push: "length (offsets (foldl str_push c xs)) = length (offsets c) + length xs"
  by (induction xs arbitrary: c) (simp_all add: str_push_def)

lemma str_len_foldl_push: "str_len (foldl str_push str_new xs) = length xs"
  by (simp add: str_len_def offsets_foldl_push) (simp add: str_new_def)

lemma str_len_new [simp]: "str_len str_new = 0"
  by (simp add: str_len_def str_new_def)

lemma first_loop_length: "first_loop len row gs src = Inr out \<Longrightarrow> length out = length src"
proof (induction gs arbitrary: row src)
  case (Cons g gs)
  then have "index_at src (unat g) \<noteq> Inl e'" for e' by auto
  then obtain s where "index_at src (unat g) = Inr s" by (cases "index_at src (unat g)") auto
  with Cons.prems have "first_loop len (row + 1) gs (if s = None then src[unat g := Some (at len row)] else src) = Inr out"
    by simp
  with Cons.IH [OF this] show ?case by (auto split: if_splits)
qed simp

lemma pick_first_column:
  assumes "pick_first_per_group a gs k = Inr x" "k \<noteq> 0 \<Longrightarrow> \<exists>i b. key_bytes a i = Inr b"
  shows "column_len (into_column x) = k"
proof -
  from assms obtain src where src: "first_loop (arr_len a) 0 gs (replicate k None) = Inr src"
    by (auto simp: pick_first_per_group_def res_simps)
  then have "length src = k" using first_loop_length by fastforce
  with src assms show ?thesis
    by (cases a; cases "k = 0") (auto simp: pick_first_per_group_def pick_rows_def res_simps key_bytes_def into_column_def
      column_len_def str_len_foldl_push simp del: map_res_Inr dest!: map_res_length)
qed

lemma run_agg_column:
  assumes "run_agg lower upper hash e base s gs k = Inr col"
  shows "column_len col = k"
proof -
  have counts: "column_len c = k" if "count_rows n gs k = Inr c" for n c
    using that by (auto simp: count_rows_def res_simps column_len_def dest: accumulate_rows(1))
  obtain fn arg d where e: "e = E_Agg fn arg d"
    using assms by (cases e) (auto simp: run_agg_def)
  show ?thesis
  proof (cases arg)
    case None
    with assms e counts show ?thesis by (auto simp: run_agg_def)
  next
    case (Some e')
    with assms e obtain v where v: "eval lower upper base s e' = Inr v"
      and c: "(if d then count_distinct hash v (sel_len s) gs k
               else
                 case fn of
                   A_Count \<Rightarrow> count_rows (sel_len s) gs k
                 | A_Sum \<Rightarrow> agg_sum v (sel_len s) gs k
                 | A_Avg \<Rightarrow> agg_avg v (sel_len s) gs k
                 | A_Min \<Rightarrow> agg_min_max True v (sel_len s) gs k
                 | A_Max \<Rightarrow> agg_min_max False v (sel_len s) gs k) = Inr col"
      by (auto simp: run_agg_def Let_def and_then_Inr)
    have mm: "column_len c = k" if "agg_min_max m v n gs k = Inr c" for m n c
      using that
      by (cases v) (auto simp: agg_min_max_def extremum_def res_simps column_len_def str_len_foldl_push
        dest: accumulate_rows(1))
    have su: "column_len c = k" if "agg_sum v n gs k = Inr c" for n c
      using that by (cases v) (auto simp: agg_sum_def res_simps column_len_def dest: accumulate_rows(1))
    have av: "column_len c = k" if "agg_avg v n gs k = Inr c" for n c
      using that by (auto simp: agg_avg_def res_simps column_len_def dest: accumulate_rows(1))
    have di: "column_len c = k" if "count_distinct hash v n gs k = Inr c" for n c
      using that by (auto simp: count_distinct_def res_simps column_len_def dest: accumulate_rows(1))
    show ?thesis using c counts mm su av di by (cases fn) (auto split: if_splits)
  qed
qed


lemma group_loop_bound: "group_loop keys is seen cnt acc = Inr (out, k) \<Longrightarrow> k \<le> cnt + length is"
proof (induction "is" arbitrary: seen cnt acc)
  case (Cons i "is")
  from Cons.prems obtain b where
    "(case seen b of
       Some g \<Rightarrow> group_loop keys is seen cnt (acc @ [g])
     | None \<Rightarrow> group_loop keys is (seen(b \<mapsto> word_of_nat cnt)) (cnt + 1) (acc @ [word_of_nat cnt])) = Inr (out, k)"
    by (auto simp: and_then_Inr)
  then consider (old) g where "group_loop keys is seen cnt (acc @ [g]) = Inr (out, k)"
    | (new) "group_loop keys is (seen(b \<mapsto> word_of_nat cnt)) (cnt + 1) (acc @ [word_of_nat cnt]) = Inr (out, k)"
    by (auto split: option.splits)
  then show ?case
  proof cases
    case old
    from Cons.IH [OF this] show ?thesis by simp
  next
    case new
    from Cons.IH [OF this] show ?thesis by simp
  qed
qed simp

lemma row_key_each: "row_key keys i = Inr b \<Longrightarrow> a \<in> set keys \<Longrightarrow> \<exists>b. key_bytes a i = Inr b"
  by (auto simp: row_key_def and_then_Inr simp del: map_res_Inr dest: map_res_each)

lemma assign_groups_keys:
  assumes "assign_groups keys n = Inr (gs, k)"
  shows "k \<le> max 1 n" and "k \<noteq> 0 \<Longrightarrow> a \<in> set keys \<Longrightarrow> \<exists>i b. key_bytes a i = Inr b"
proof -
  show "k \<le> max 1 n"
    using assms group_loop_bound [of keys "[0..<n]" "\<lambda>_. None" 0 "[]" gs k]
    by (auto simp: assign_groups_def split: if_splits)
  assume k: "k \<noteq> 0" and a: "a \<in> set keys"
  then have "keys \<noteq> []" by auto
  with assms have loop: "group_loop keys [0..<n] (\<lambda>_. None) 0 [] = Inr (gs, k)"
    by (simp add: assign_groups_def)
  with k have "n \<noteq> 0" by (cases n) auto
  with loop have "\<exists>b. row_key keys 0 = Inr b"
    by (auto simp: upt_conv_Cons and_then_Inr)
  then show "\<exists>i b. key_bytes a i = Inr b" using row_key_each a by blast
qed

lemma aggregate_frame:
  assumes ok: "aggregate lower upper hash plan base s = Inr g" and len: "sel_len s < 2 ^ 32"
  shows "frame_ok (ngroups g) (gcolumns g)" and "ngroups g < 2 ^ 32"
proof -
  from ok obtain keys gs k where keys: "map_res (eval lower upper base s) (group_by plan) = Inr keys"
    and gs: "assign_groups keys (sel_len s) = Inr (gs, k)"
    by (auto simp: aggregate_def and_then_Inr simp del: map_res_Inr)
  with ok obtain kcols acols where
    kc: "map_res (\<lambda>a. and_then (pick_first_per_group a gs k) (\<lambda>x. Inr (into_column x))) keys = Inr kcols"
    and ac: "map_res (\<lambda>a. run_agg lower upper hash a base s gs k) (collect_aggs plan) = Inr acols"
    and g: "gcolumns g = kcols @ acols" "ngroups g = k"
    by (auto simp: aggregate_def and_then_Inr Let_def simp del: map_res_Inr)
  have "k \<le> max 1 (sel_len s)" by (rule assign_groups_keys(1) [OF gs])
  with len have k: "k < 2 ^ 32" by simp
  have "column_len c = k" if c: "c \<in> set kcols" for c
  proof -
    obtain j where j: "j < length kcols" "c = kcols ! j" using c by (auto simp: in_set_conv_nth)
    with kc have lj: "j < length keys" by (simp add: map_res_length [OF kc, symmetric])
    with kc j have "and_then (pick_first_per_group (keys ! j) gs k) (\<lambda>x. Inr (into_column x)) = Inr c"
      by (simp add: map_res_Inr list_all2_conv_all_nth)
    then obtain x where "pick_first_per_group (keys ! j) gs k = Inr x" "c = into_column x"
      by (auto simp: and_then_Inr)
    moreover have "keys ! j \<in> set keys" using lj by simp
    ultimately show ?thesis using pick_first_column assign_groups_keys(2) [OF gs] by blast
  qed
  moreover have "column_len c = k" if c: "c \<in> set acols" for c
  proof -
    obtain j where j: "j < length acols" "c = acols ! j" using c by (auto simp: in_set_conv_nth)
    with ac have "run_agg lower upper hash (collect_aggs plan ! j) base s gs k = Inr c"
      by (simp add: map_res_Inr list_all2_conv_all_nth)
    then show ?thesis by (rule run_agg_column)
  qed
  ultimately show "frame_ok (ngroups g) (gcolumns g)" "ngroups g < 2 ^ 32"
    using g k by (auto simp: frame_ok_def)
qed

section \<open>Properties of grouping\<close>

definition local_groups :: "grouped \<Rightarrow> bool" where
  "local_groups g \<longleftrightarrow>
     (case ghaving g of None \<Rightarrow> True | Some e \<Rightarrow> row_local e) \<and>
     (\<forall>p \<in> set (gprojections g). row_local (proj_expr p)) \<and>
     (\<forall>k \<in> set (gorder_by g). row_local (key_expr k))"

lemma run_select_groups:
  assumes run: "run_select lower upper hash plan tab = Inr res" and agg: "is_aggregate plan"
    and f: "frame_ok (source_rows tab) (source_cols tab)" and N: "source_rows tab < 2 ^ 32"
    and w: "\<And>e. sel_filter plan = Some e \<Longrightarrow> row_local e"
    and small: "small_cut (limit plan) (offset plan)"
  shows "\<exists>s g. selected s = filter (holds lower upper (source_cols tab) (sel_filter plan)) [0..<source_rows tab] \<and>
    aggregate lower upper hash plan (source_cols tab) s = Inr g \<and>
    (local_groups g \<longrightarrow> (\<exists>rows.
      mset rows = mset (filter (holds lower upper (gcolumns g) (ghaving g)) [0..<ngroups g]) \<and>
      sorted_wrt (row_before lower upper (gcolumns g) (gorder_by g)) rows \<and>
      map_res (row_out lower upper (gcolumns g) (gprojections g))
        (cut (limit plan) (offset plan) rows) = Inr (qrows res)))"
proof -
  let ?f = "source_cols tab" and ?N = "source_rows tab"
  from run agg obtain s g s2 s3 arrays rows0 where
    w': "where_rows lower upper ?f ?N (sel_filter plan) = Inr s"
    and g: "aggregate lower upper hash plan ?f s = Inr g"
    and h: "having_rows lower upper (gcolumns g) (All (ngroups g)) (ghaving g) = Inr s2"
    and o': "order_and_limit lower upper (gcolumns g) s2 (gorder_by g) (limit plan) (offset plan) = Inr s3"
    and a: "map_res (\<lambda>p. eval lower upper (gcolumns g) s3 (proj_expr p)) (gprojections g) = Inr arrays"
    and r: "result_rows arrays (sel_len s3) = Inr rows0" and res: "qrows res = rows0"
    by (auto simp: run_select_def Let_def and_then_Inr source_cols_def source_rows_def simp del: map_res_Inr)
  have sel: "selected s = filter (holds lower upper ?f (sel_filter plan)) [0..<?N]"
    using where_rows_selected [OF w' f w] by blast
  have "sel_len s \<le> ?N"
    unfolding length_selected [symmetric] sel by (metis length_filter_le length_upt minus_nat.diff_0)
  then have len: "sel_len s < 2 ^ 32" using N by simp
  note gf = aggregate_frame [OF g len]
  have all: "sel_in (ngroups g) (All (ngroups g))" "selected (All (ngroups g)) = [0..<ngroups g]"
    "sel_len (All (ngroups g)) = ngroups g"
    by (simp_all add: sel_in_def selected_def sel_len_def)
  have "\<exists>rows. mset rows = mset (filter (holds lower upper (gcolumns g) (ghaving g)) [0..<ngroups g]) \<and>
      sorted_wrt (row_before lower upper (gcolumns g) (gorder_by g)) rows \<and>
      map_res (row_out lower upper (gcolumns g) (gprojections g))
        (cut (limit plan) (offset plan) rows) = Inr (qrows res)" if l: "local_groups g"
  proof -
    have "\<And>e. ghaving g = Some e \<Longrightarrow> row_local e" "\<forall>k \<in> set (gorder_by g). row_local (key_expr k)"
      "\<forall>p \<in> set (gprojections g). row_local (proj_expr p)"
      using l by (auto simp: local_groups_def)
    from finish_rows [OF h o' a r gf all(1) _ _ small this] gf(2) show ?thesis by (simp add: all res)
  qed
  with sel g show ?thesis by blast
qed

text \<open>
  C20: a grouped query is a query over its groups. The condition and the keys of the plan are decided by the row
  (\<open>local_plan\<close>: literal units and digits), and the table has less than \<open>2 ^ 32\<close> rows. If \<open>run_select\<close> succeeds on a plan with aggregates or
  keys, the rows that satisfy \<open>WHERE\<close> were aggregated into a frame with one row for each group, and
  the result holds the projections over that frame of the groups that satisfy \<open>HAVING\<close>, in the order
  of the keys, cut by \<open>OFFSET\<close> and \<open>LIMIT\<close>, where these expressions are decided by the group.
\<close>
theorem grouped_select_refines:
  assumes "run_select lower upper hash plan tab = Inr res" and "is_aggregate plan"
    and "frame_ok (source_rows tab) (source_cols tab)" and "source_rows tab < 2 ^ 32"
    and "local_plan plan"
  shows "\<exists>s g. selected s = filter (holds lower upper (source_cols tab) (sel_filter plan)) [0..<source_rows tab] \<and>
    aggregate lower upper hash plan (source_cols tab) s = Inr g \<and>
    frame_ok (ngroups g) (gcolumns g) \<and>
    (local_groups g \<longrightarrow> (\<exists>rows.
      mset rows = mset (filter (holds lower upper (gcolumns g) (ghaving g)) [0..<ngroups g]) \<and>
      sorted_wrt (row_before lower upper (gcolumns g) (gorder_by g)) rows \<and>
      map_res (row_out lower upper (gcolumns g) (gprojections g))
        (cut (limit plan) (offset plan) rows) = Inr (qrows res)))"
proof -
  have loc: "sel_filter plan = Some e \<Longrightarrow> row_local e" for e
    using assms(5) by (simp add: local_plan_def)
  have small: "small_cut (limit plan) (offset plan)" using assms(5) by (simp add: local_plan_def)
  from run_select_groups [OF assms(1-4) loc small] obtain s g where
    s: "selected s = filter (holds lower upper (source_cols tab) (sel_filter plan)) [0..<source_rows tab]"
    and g: "aggregate lower upper hash plan (source_cols tab) s = Inr g" and rest: "local_groups g \<longrightarrow> (\<exists>rows.
      mset rows = mset (filter (holds lower upper (gcolumns g) (ghaving g)) [0..<ngroups g]) \<and>
      sorted_wrt (row_before lower upper (gcolumns g) (gorder_by g)) rows \<and>
      map_res (row_out lower upper (gcolumns g) (gprojections g))
        (cut (limit plan) (offset plan) rows) = Inr (qrows res))" by blast
  have "sel_len s \<le> source_rows tab"
    unfolding length_selected [symmetric] s by (metis length_filter_le length_upt minus_nat.diff_0)
  with aggregate_frame(1) [OF g] assms(4) have "frame_ok (ngroups g) (gcolumns g)" by simp
  with s g rest show ?thesis by blast
qed

text \<open>\<open>SELECT c0, count(*) FROM t GROUP BY c0 HAVING count(*) > 1\<close>\<close>

definition demo_grouped :: select where
  "demo_grouped =
     \<lparr>sel_table = Some (str ''t''), sel_filter = None, group_by = [E_Col 0],
      having = Some (E_Binary B_Gt (E_Agg A_Count None False) (E_Lit (V_I64 1))),
      projections = [\<lparr>proj_expr = E_Col 0, proj_alias = str ''c0''\<rparr>,
        \<lparr>proj_expr = E_Agg A_Count None False, proj_alias = str ''n''\<rparr>],
      order_by = [], limit = None, offset = 0\<rparr>"

lemma demo_grouped_result:
  "run_select id id (\<lambda>_. 0) demo_grouped (Some demo_table) =
   Inr \<lparr>qcolumns = [str ''c0'', str ''n''], qtypes = [DT_I64, DT_I64], qrows = [[V_I64 5, V_I64 2]]\<rparr>"
  by code_simp

theorem grouped_select_refines_witness:
  "\<exists>s g. selected s = filter (holds id id (source_cols (Some demo_table)) (sel_filter demo_grouped)) [0..<source_rows (Some demo_table)] \<and>
    aggregate id id (\<lambda>_. 0) demo_grouped (source_cols (Some demo_table)) s = Inr g \<and>
    frame_ok (ngroups g) (gcolumns g) \<and>
    (local_groups g \<longrightarrow> (\<exists>rows.
      mset rows = mset (filter (holds id id (gcolumns g) (ghaving g)) [0..<ngroups g]) \<and>
      sorted_wrt (row_before id id (gcolumns g) (gorder_by g)) rows \<and>
      map_res (row_out id id (gcolumns g) (gprojections g))
        (cut (limit demo_grouped) (offset demo_grouped) rows) = Inr [[V_I64 5, V_I64 2]]))"
proof -
  have "is_aggregate demo_grouped" by code_simp
  moreover have "frame_ok (source_rows (Some demo_table)) (source_cols (Some demo_table))" by code_simp
  moreover have "source_rows (Some demo_table) < 2 ^ 32" by code_simp
  moreover have "local_plan demo_grouped" by code_simp
  ultimately show ?thesis
    using grouped_select_refines [OF demo_grouped_result] by simp
qed

text \<open>
  C21: two rows are in the same group if and only if all their key values are equal, every group
  number below the number of groups is used, and no row is left out. The byte strings under which the
  groups are looked up never confuse two different keys.
\<close>
theorem groups_are_key_classes:
  assumes "assign_groups keys n = Inr (gs, k)" and "n < 2 ^ 32" and "\<forall>a \<in> set keys. small_strings a"
    and "keys \<noteq> []" and "i < n" and "j < n"
  shows "length gs = n \<and> unat ` set gs = {..<k} \<and>
    (gs ! i = gs ! j \<longleftrightarrow> (\<forall>a \<in> set keys. cell a i = cell a j))"
  using assign_groups_spec [OF assms(1-3)] assms(4-6) by simp

text \<open>The keys \<open>("a", "bc")\<close> and \<open>("ab", "c")\<close> are different.\<close>

theorem groups_are_key_classes_witness:
  "let keys = [Arr_Str [str ''a'', str ''ab''], Arr_Str [str ''bc'', str ''c'']] in
   length [0, 1 :: u32] = 2 \<and> unat ` set [0, 1 :: u32] = {..<2} \<and>
   ([0, 1 :: u32] ! 0 = [0, 1] ! 1 \<longleftrightarrow> (\<forall>a \<in> set keys. cell a 0 = cell a 1))"
  unfolding Let_def
proof (rule groups_are_key_classes)
  show "assign_groups [Arr_Str [str ''a'', str ''ab''], Arr_Str [str ''bc'', str ''c'']] 2 = Inr ([0, 1], 2)"
    by code_simp
  show "\<forall>a \<in> set [Arr_Str [str ''a'', str ''ab''], Arr_Str [str ''bc'', str ''c'']]. small_strings a"
    by code_simp
qed simp_all

text \<open>
  C22: \<open>COUNT\<close>, \<open>SUM\<close>, \<open>MIN\<close> and \<open>MAX\<close> of an integer expression give every group the aggregate of the
  values of its own rows: the number of rows, the saturating sum in row order, the least and the
  greatest value.
\<close>
theorem aggregate_of_each_group:
  assumes "run_agg lower upper hash (E_Agg fn (Some e) False) base s gs k = Inr col"
    and "eval lower upper base s e = Inr (Arr_I64 x)" and "length gs = sel_len s" and "fn \<noteq> A_Avg"
  shows "\<exists>cs. col = C_I64 cs \<and> length cs = k \<and>
    (\<forall>g < k. cs ! g = agg_i64 fn (map (val x) (rows_of gs (sel_len s) g)))"
  by (rule run_agg_group [OF assms])

theorem aggregate_of_each_group_witness:
  "\<exists>cs. C_I64 [3, 5] = C_I64 cs \<and> length cs = 2 \<and>
    (\<forall>g < 2. cs ! g = agg_i64 A_Min (map (val [3, 5, 8, 5]) (rows_of [0, 1, 0, 1] (sel_len (All 4)) g)))"
proof (rule aggregate_of_each_group)
  show "run_agg id id (\<lambda>_. 0) (E_Agg A_Min (Some (E_Col 0)) False) (columns demo_table) (All 4) [0, 1, 0, 1] 2 =
      Inr (C_I64 [3, 5])" by code_simp
  show "eval id id (columns demo_table) (All 4) (E_Col 0) = Inr (Arr_I64 [3, 5, 8, 5])" by code_simp
qed (simp_all add: sel_len_def)

text \<open>
  with \<open>DISTINCT\<close> the function of an aggregate is not looked at: \<open>SUM\<close>, \<open>AVG\<close>, \<open>MIN\<close> and \<open>MAX\<close>
  of distinct integers all give the number of distinct values, which is right for \<open>COUNT\<close> only.
\<close>
theorem distinct_always_counts:
  assumes "run_agg lower upper hash (E_Agg fn (Some e) True) base s gs k = Inr col"
    and "eval lower upper base s e = Inr (Arr_I64 x)"
  shows "\<exists>cs. col = C_I64 cs \<and> length cs = k \<and>
    (\<forall>g < k. cs ! g = word_of_nat (card (set (map (val x) (rows_of gs (sel_len s) g)))))"
  by (rule run_agg_distinct [OF assms])

text \<open>\<open>SELECT sum(DISTINCT c0)\<close> over 3, 5, 8, 5 is 3 and not 16.\<close>

theorem distinct_always_counts_witness:
  "\<exists>cs. C_I64 [3] = C_I64 cs \<and> length cs = 1 \<and>
    (\<forall>g < 1. cs ! g = word_of_nat (card (set (map (val [3, 5, 8, 5 :: i64]) (rows_of [0, 0, 0, 0] (sel_len (All 4)) g)))))"
proof (rule distinct_always_counts)
  show "run_agg id id (\<lambda>_. 0) (E_Agg A_Sum (Some (E_Col 0)) True) (columns demo_table) (All 4) [0, 0, 0, 0] 1 =
      Inr (C_I64 [3])" by code_simp
  show "eval id id (columns demo_table) (All 4) (E_Col 0) = Inr (Arr_I64 [3, 5, 8, 5])" by code_simp
qed

section \<open>Columns that are not grouped\<close>

lemma visit_invariant:
  assumes "P (fst (f e s))" "\<And>s. P s \<Longrightarrow> P (sub s)"
  shows "P (visit f e sub s)"
  using assms by (cases "f e s") (simp add: visit_def)

lemma walk_invariant:
  assumes f: "\<And>e s. P s \<Longrightarrow> P (fst (f e s))"
  shows "P s \<Longrightarrow> P (walk f e s)"
proof (induction e arbitrary: s)
  case (E_Func g args)
  have "P (foldl (\<lambda>s w. w s) s (map (walk f) args))" if "P s" for s
    using that E_Func.IH by (induction args arbitrary: s) auto
  then show ?case using visit_invariant [of P, OF f] E_Func.prems by simp
next
  case (E_Agg g arg d)
  then show ?case using visit_invariant [of P, OF f] by (cases arg) simp_all
qed (simp_all add: visit_invariant [of P, OF f])

lemma collect_aggs_are_aggs:
  assumes "a \<in> set (collect_aggs plan)"
  shows "is_agg a"
proof -
  have w: "list_all is_agg aggs \<Longrightarrow> list_all is_agg (walk collect_visitor e aggs)" for e aggs
    by (rule walk_invariant [of "list_all is_agg"]) (simp_all add: collect_visitor_def)
  have "list_all is_agg aggs \<Longrightarrow> list_all is_agg (foldl (\<lambda>aggs e. walk collect_visitor e aggs) aggs es)" for aggs es
    by (induction es arbitrary: aggs) (simp_all add: w)
  then have "list_all is_agg (collect_aggs plan)" by (simp only: collect_aggs_def Let_def list.pred_inject)
  with assms show ?thesis by (simp add: list_all_iff)
qed

lemma find_aggs_none:
  "(\<And>a. a \<in> set aggs \<Longrightarrow> is_agg a) \<Longrightarrow>
   find (\<lambda>(from, _). expr_eq (E_Col i) from) (zip aggs es @ ps) = find (\<lambda>(from, _). expr_eq (E_Col i) from) ps"
proof (induction aggs arbitrary: es)
  case (Cons a aggs)
  from Cons.prems [of a] have "\<not> expr_eq (E_Col i) a" by (cases a) simp_all
  with Cons show ?case by (cases es) auto
qed simp

definition one_column :: "select \<Rightarrow> nat \<Rightarrow> rstr \<Rightarrow> select" where
  "one_column plan i name =
     plan\<lparr>group_by := [E_Col 1], projections := [\<lparr>proj_expr = E_Col i, proj_alias = name\<rparr>]\<rparr>"

lemma aggregate_one_column:
  "aggregate lower upper hash (one_column plan 0 name) base s = aggregate lower upper hash (one_column plan 1 name) base s"
proof -
  have aggs: "collect_aggs (one_column plan 0 name) = collect_aggs (one_column plan 1 name)"
    by (simp add: collect_aggs_def one_column_def visit_def collect_visitor_def)
  have none: "find (\<lambda>(from, _). expr_eq (E_Col i) from) (group_pats (collect_aggs (one_column plan 1 name)) [E_Col 1]) =
      find (\<lambda>(from, _). expr_eq (E_Col i) from) [(E_Col 1, E_Col 0)]" for i
  proof -
    have "group_pats aggs [E_Col 1] = zip aggs (map (\<lambda>i. E_Col (1 + i)) [0..<length aggs]) @ [(E_Col 1, E_Col 0)]" for aggs
      by (simp add: group_pats_def)
    then show ?thesis by (simp only:) (rule find_aggs_none, rule collect_aggs_are_aggs)
  qed
  have sub: "substitute (group_pats (collect_aggs (one_column plan 1 name)) [E_Col 1]) (E_Col 0) = E_Col 0"
    "substitute (group_pats (collect_aggs (one_column plan 1 name)) [E_Col 1]) (E_Col 1) = E_Col 0"
    by (simp_all only: substitute.simps replace_or_def none) simp_all
  have gb: "group_by (one_column plan i name) = [E_Col 1]"
    "projections (one_column plan i name) = [\<lparr>proj_expr = E_Col i, proj_alias = name\<rparr>]"
    "order_by (one_column plan i name) = order_by plan" "having (one_column plan i name) = having plan" for i
    by (simp_all add: one_column_def)
  show ?thesis unfolding aggregate_def gb aggs using sub by (simp add: Let_def)
qed

text \<open>
  a column that is neither grouped nor aggregated is not always refused. The check only looks for
  column numbers beyond the intermediate frame, so \<open>SELECT c0 FROM t GROUP BY c1\<close> is accepted and
  returns the key \<open>c1\<close> under the name of the first column, on every table.
\<close>
theorem ungrouped_column_reads_key:
  "run_select lower upper hash (one_column plan 0 name) tab = run_select lower upper hash (one_column plan 1 name) tab"
proof -
  have "is_aggregate (one_column plan i name)" for i
    by (simp add: is_aggregate_def one_column_def)
  moreover have "sel_filter (one_column plan i name) = sel_filter plan" "limit (one_column plan i name) = limit plan"
    "offset (one_column plan i name) = offset plan" for i
    by (simp_all add: one_column_def)
  ultimately show ?thesis
    by (simp add: run_select_def aggregate_one_column)
qed

end
