(* ===== verification/Binding.thy ===== *)
theory Binding
  imports Engine Grouping
begin

text \<open>
  What planning promises the executor. A bound expression fits the schema it was bound against
  (\<open>bind_well\<close>), so does every plan (\<open>plan_query_fits\<close>), and an expression that fits never panics over a
  non-empty selection of a well-formed table (\<open>calm_eval\<close>, one lemma per operator). The rows of an
  \<open>INSERT\<close> keep their values under the names they were written for. Two places where \<open>sql.rs\<close> does
  something else than its comments say are stated as theorems.
\<close>

section \<open>Expressions that fit a schema\<close>

text \<open>
  What \<open>bind\<close> promises: columns exist, a distance is between a \<open>VECTOR\<close> column and a query of its
  dimension, functions have the number of arguments they need, no literal is a vector.
\<close>

definition plain_value :: "rvalue \<Rightarrow> bool" where
  "plain_value v = (case v of V_Vector _ \<Rightarrow> False | _ \<Rightarrow> True)"

primrec well_bound :: "schema \<Rightarrow> expr \<Rightarrow> bool" where
  "well_bound s (E_Col i) = (i < length (sfields s))"
| "well_bound s (E_Lit v) = plain_value v"
| "well_bound s (E_Binary op l r) = (well_bound s l \<and> well_bound s r)"
| "well_bound s (E_Unary op e) = well_bound s e"
| "well_bound s (E_Like e p n c) = well_bound s e"
| "well_bound s (E_InList e vs n) = (well_bound s e \<and> list_all plain_value vs)"
| "well_bound s (E_Between e lo hi n) = (well_bound s e \<and> well_bound s lo \<and> well_bound s hi)"
| "well_bound s (E_Func fn args) = (arity_ok fn (length args) \<and> list_all (\<lambda>b. b) (map (well_bound s) args))"
| "well_bound s (E_Distance m c q) =
     (c < length (sfields s) \<and>
      (case fty (sfields s ! c) of DT_Vector dim \<Rightarrow> unat dim = length q | _ \<Rightarrow> False))"
| "well_bound s (E_Agg fn arg d) = (case map_option (well_bound s) arg of None \<Rightarrow> True | Some b \<Rightarrow> b)"
| "well_bound s (E_Cast e ty) = well_bound s e"

lemma literal_any_plain: "literal_any e = Inr v \<Longrightarrow> plain_value v"
proof (induction e arbitrary: v rule: literal_any.induct)
  case (1 w)
  then show ?case
    by (auto simp: plain_value_def number_literal_def split: sql_value.splits option.splits)
next
  case (2 e)
  then obtain x where "(case x of V_I64 i \<Rightarrow> Inr (V_I64 (- i)) | V_F64 d \<Rightarrow> Inr (V_F64 (f64_neg d))
     | _ \<Rightarrow> Inl (Sql (Minus_type (type_of x)))) = Inr v" by (auto simp: and_then_Inr)
  then show ?case by (cases x) (auto simp: plain_value_def)
qed auto

lemma map_res_literal_plain: "map_res literal_any vs = Inr lits \<Longrightarrow> list_all plain_value lits"
  by (auto simp: map_res_Inr list_all_length list_all2_conv_all_nth dest!: literal_any_plain)

lemma index_of_less: "index_of s n = Some i \<Longrightarrow> i < length (sfields s)"
  by (simp add: index_of_def position_Some)

lemma bind_column_well: "bind_column s n = Inr x \<Longrightarrow> well_bound s x"
  by (auto simp: bind_column_def res_simps dest: index_of_less)

lemma bind_minus_well: "well_bound s x \<Longrightarrow> well_bound s (bind_minus x)"
  by (auto simp: bind_minus_def plain_value_def split: expr.splits rvalue.splits)

lemma bind_whens_well:
  assumes "bind_whens b operand ws out = Inr x" "well_bound s out"
    and "\<And>op y. operand = Some op \<Longrightarrow> b op = Inr y \<Longrightarrow> well_bound s y"
    and "\<And>w y. w \<in> set ws \<Longrightarrow> b (fst w) = Inr y \<Longrightarrow> well_bound s y"
    and "\<And>w y. w \<in> set ws \<Longrightarrow> b (snd w) = Inr y \<Longrightarrow> well_bound s y"
  shows "well_bound s x"
  using assms
proof (induction ws arbitrary: out)
  case (Cons w ws)
  from Cons.prems(1) obtain out' where w: "bind_when b operand w out = Inr out'"
    and rest: "bind_whens b operand ws out' = Inr x" by (auto simp: and_then_Inr)
  have fst: "b (fst w) = Inr y \<Longrightarrow> well_bound s y" for y by (rule Cons.prems(4) [of w]) simp_all
  have snd: "b (snd w) = Inr y \<Longrightarrow> well_bound s y" for y by (rule Cons.prems(5) [of w]) simp_all
  have "well_bound s out'"
    using w Cons.prems(2,3) fst snd
    by (cases operand) (auto simp: bind_when_def and_then_Inr arity_ok_def simp del: split_paired_All)
  show ?case
  proof (rule Cons.IH [OF rest \<open>well_bound s out'\<close> Cons.prems(3)])
    fix v y assume v: "v \<in> set ws"
    show "b (fst v) = Inr y \<Longrightarrow> well_bound s y" by (rule Cons.prems(4) [of v]) (use v in simp_all)
    show "b (snd v) = Inr y \<Longrightarrow> well_bound s y" by (rule Cons.prems(5) [of v]) (use v in simp_all)
  qed
qed simp

lemma bind_function_well:
  assumes "bind_function s n over args bound = Inr x"
    and "\<And>y. Inr y \<in> set bound \<Longrightarrow> well_bound s y"
  shows "well_bound s x"
proof -
  from assms(1) obtain name where name: "ident_of n = Inr name"
    and x: "(case agg_from_name (to_ascii_lowercase name) of
          Some fn \<Rightarrow>
            bind_agg name fn (is_distinct args \<or> to_ascii_lowercase name = str ''uniq'' \<or> to_ascii_lowercase name = str ''count_distinct'')
              (has_wildcard args) bound
        | None \<Rightarrow>
            (case metric_from_name (to_ascii_lowercase name) of
               Some m \<Rightarrow> bind_metric s name m (plain_args args) bound
             | None \<Rightarrow> bind_scalar name (to_ascii_lowercase name) bound)) = Inr x"
    by (auto simp: bind_function_def and_then_Inr Let_def split: if_splits)
  have agg: "bind_agg name fn d w bound = Inr x \<Longrightarrow> well_bound s x" for fn d w
    using assms(2) by (auto simp: bind_agg_def and_then_Inr split: if_splits list.splits)
  have metric: "well_bound s x" if m: "bind_metric s name m plain bound = Inr x" for m plain
  proof -
    obtain b b' p q where l: "bound = [b, b']" "plain = [p, q]"
      using m by (auto simp: bind_metric_def split: list.splits)
    with m obtain e where b: "b = Inr e" and e: "(case e of
            E_Col col \<Rightarrow>
              and_then (index_at (sfields s) col) (\<lambda>f.
              case fty f of
                DT_Vector dim \<Rightarrow>
                  and_then (vector_literal q) (\<lambda>query.
                  if length query \<noteq> unat dim then Inl (Sql (Metric_dim (length query) dim))
                  else Inr (E_Distance m col query))
              | ty \<Rightarrow> Inl (Sql (Metric_type (fname f) ty)))
          | _ \<Rightarrow> Inl (Sql (Metric_column name))) = Inr x"
      by (auto simp: bind_metric_def and_then_Inr)
    then obtain col where col: "e = E_Col col" by (cases e) auto
    with e obtain dim query where "col < length (sfields s)" "fty (sfields s ! col) = DT_Vector dim"
      "length query = unat dim" "x = E_Distance m col query"
      by (auto simp: and_then_Inr index_at_Inr split: data_type.splits if_splits)
    then show ?thesis by simp
  qed
  have scalar: "well_bound s x" if sc: "bind_scalar name l bound = Inr x" for l
  proof -
    from sc obtain fn args where args: "map_res (\<lambda>b. b) bound = Inr args" and ar: "arity_ok fn (length args)"
      and x: "x = E_Func fn args"
      by (auto simp: bind_scalar_def and_then_Inr simp del: map_res_Inr split: if_splits)
    have "well_bound s a" if "a \<in> set args" for a
    proof -
      from that obtain i where i: "i < length args" "a = args ! i" by (auto simp: in_set_conv_nth)
      from args have "list_all2 (\<lambda>x y. x = Inr y) bound args" by (simp add: map_res_Inr)
      then have "bound ! i = Inr a" "i < length bound" using i by (auto simp: list_all2_conv_all_nth)
      then have "Inr a \<in> set bound" using nth_mem [of i bound] by simp
      then show ?thesis by (rule assms(2))
    qed
    with ar x show ?thesis by (simp add: list_all_iff)
  qed
  show ?thesis using x agg metric scalar by (auto split: option.splits)
qed

lemma bind_well: "bind s e = Inr x \<Longrightarrow> well_bound s x"
proof (induction s e arbitrary: x rule: bind.induct)
  case (16 s operand whens otherwise)
  from 16(5) obtain out where out: "opt_res (bind s) otherwise = Inr out"
    and x: "bind_whens (bind s) operand (rev whens) (case out of None \<Rightarrow> E_Lit (V_Str []) | Some e \<Rightarrow> e) = Inr x"
    by (auto simp: and_then_Inr)
  have "well_bound s (case out of None \<Rightarrow> E_Lit (V_Str []) | Some e \<Rightarrow> e)"
    using out 16(1) by (cases otherwise) (auto simp: opt_res_def and_then_Inr plain_value_def)
  then show ?case
    using 16(2-4) out by (intro bind_whens_well [OF x]) auto
next
  case (17 s n over args)
  show ?case
  proof (rule bind_function_well [OF 17(2) [unfolded bind.simps]])
    fix y assume "Inr y \<in> set (map (bind s) (plain_args args))"
    then obtain e where "e \<in> set (plain_args args)" "bind s e = Inr y" by auto
    then show "well_bound s y" by (rule 17(1))
  qed
next
  case (3 s v)
  from 3 obtain w where "literal_any (SE_Value v) = Inr w" "x = E_Lit w"
    by (auto simp: and_then_Inr simp del: literal_any.simps)
  then show ?case by (simp add: literal_any_plain del: literal_any.simps)
next
  case (5 s op e)
  then show ?case by (cases op) (auto simp: and_then_Inr bind_minus_well)
qed (auto simp: and_then_Inr bind_column_well literal_any_plain map_res_literal_plain arity_ok_def opt_res_def
  plain_value_def lit_i_def bind_field_def simp del: map_res_Inr split: if_splits option.splits sql_field.splits)

section \<open>Plans that fit a schema\<close>

definition opt_well :: "schema \<Rightarrow> expr option \<Rightarrow> bool" where
  "opt_well s e = (case e of None \<Rightarrow> True | Some x \<Rightarrow> well_bound s x)"

definition plan_fits :: "schema \<Rightarrow> select \<Rightarrow> bool" where
  "plan_fits s p \<longleftrightarrow>
     opt_well s (sel_filter p) \<and> opt_well s (having p) \<and> list_all (well_bound s) (group_by p) \<and>
     projections p \<noteq> [] \<and> list_all (\<lambda>x. well_bound s (proj_expr x)) (projections p) \<and>
     list_all (\<lambda>k. well_bound s (key_expr k)) (order_by p)"

definition source_schema :: "(rstr \<Rightarrow> schema option) \<Rightarrow> rstr option \<Rightarrow> schema option" where
  "source_schema schemas tab = (case tab of None \<Rightarrow> Some \<lparr>sfields = []\<rparr> | Some n \<Rightarrow> schemas n)"

lemma map_res_all:
  assumes "map_res f xs = Inr ys" "\<And>x y. f x = Inr y \<Longrightarrow> P y"
  shows "list_all P ys"
  using assms by (auto simp: map_res_Inr list_all_length list_all2_conv_all_nth)

lemma opt_bind_well: "opt_res (bind s) x = Inr y \<Longrightarrow> opt_well s y"
  by (auto simp: opt_res_def opt_well_def and_then_Inr split: option.splits dest: bind_well)

lemma bind_projection_well:
  assumes "bind_projection shown s items = Inr ps"
  shows "ps \<noteq> [] \<and> list_all (\<lambda>p. well_bound s (proj_expr p)) ps"
proof -
  from assms obtain pss where pss: "map_res (bind_item shown s) items = Inr pss"
    and ps: "ps = concat pss" "ps \<noteq> []"
    by (auto simp: bind_projection_def and_then_Inr simp del: map_res_Inr split: if_splits)
  have "list_all (list_all (\<lambda>p. well_bound s (proj_expr p))) pss"
    by (rule map_res_all [OF pss])
      (auto simp: bind_item_def and_then_Inr list_all_iff in_set_enumerate_eq split: sql_item.splits dest!: bind_well)
  with ps show ?thesis by (auto simp: list_all_iff)
qed

lemma bind_by_text_well:
  assumes "bind_by_text shown e s raw bound = Inr x" "list_all (\<lambda>p. well_bound s (proj_expr p)) bound"
  shows "well_bound s x"
proof (cases "find (same_text shown (shown e)) (zip raw bound)")
  case None
  with assms(1) show ?thesis by (simp add: bind_by_text_def bind_well)
next
  case (Some r)
  then obtain i p where "r = (i, p)" "r \<in> set (zip raw bound)"
    by (cases r) (metis find_Some_iff nth_mem)
  then have "p \<in> set bound" by (auto dest: set_zip_rightD)
  with assms Some \<open>r = (i, p)\<close> show ?thesis by (auto simp: bind_by_text_def list_all_iff)
qed

lemma bind_output_ref_well:
  assumes "bind_output_ref shown s raw bound e = Inr x" "list_all (\<lambda>p. well_bound s (proj_expr p)) bound"
  shows "well_bound s x"
proof -
  have tx: "bind_by_text shown e s raw bound = Inr x \<Longrightarrow> ?thesis" using bind_by_text_well assms(2) by blast
  have ord: "bind_ordinal n bound = Inr x \<Longrightarrow> ?thesis" for n
  proof -
    assume o': "bind_ordinal n bound = Inr x"
    then obtain i where i: "parse_usize n = Some i"
      by (cases "parse_usize n") (simp_all add: bind_ordinal_def)
    with o' have i: "i \<noteq> 0" "unat i \<le> length bound" "x = proj_expr (bound ! (unat i - 1))"
      by (simp_all add: bind_ordinal_def not_less split: if_splits)
    then have "unat i - 1 < length bound" by (metis One_nat_def Suc_pred le_less_trans less_Suc_eq_le not_less_eq unat_gt_0)
    with i assms(2) show ?thesis by (simp add: list_all_length)
  qed
  have al: "find P bound = Some p \<Longrightarrow> well_bound s (proj_expr p)" for P p
    using assms(2) by (metis find_Some_iff list_all_length)
  show ?thesis
    using assms(1) tx ord al
    by (auto simp: bind_output_ref_def split: sql_expr.splits sql_value.splits option.splits if_splits)
qed

lemma plan_query_fits:
  assumes ok: "plan_query shown schemas q = Inr p"
  shows "\<exists>s. source_schema schemas (sel_table p) = Some s \<and> plan_fits s p"
proof -
  from ok obtain sel where sel: "q_body q = SX_Select sel" and "\<not> q_with q"
    by (auto simp: plan_query_def split: if_splits sql_body.splits)
  with ok obtain tab s flt ps gs hav ks lim off where
    f: "bind_from schemas (s_from sel) = Inr (tab, s)"
    and w: "with_context ''WHERE'' (opt_res (bind s) (s_selection sel)) = Inr flt"
    and pr: "bind_projection shown s (s_projection sel) = Inr ps"
    and g: "bind_groups shown s (s_projection sel) ps (s_group_by sel) = Inr gs"
    and h: "with_context ''HAVING'' (opt_res (bind s) (s_having sel)) = Inr hav"
    and o': "bind_order shown s (s_projection sel) ps (q_order q) = Inr ks"
    and p: "p = \<lparr>sel_table = tab, sel_filter = flt, group_by = gs, having = hav,
                       projections = ps, order_by = ks, limit = lim, offset = off\<rparr>"
    by (auto simp: plan_query_def and_then_Inr split: if_splits)
  note ps = bind_projection_well [OF pr]
  have s: "source_schema schemas tab = Some s"
    using f by (auto simp: bind_from_def source_schema_def and_then_Inr ok_or_Inr split: list.splits option.splits)
  have "list_all (well_bound s) gs"
    using g ps map_res_all [of "bind_output_ref shown s (s_projection sel) ps" _ gs "well_bound s",
        OF _ bind_output_ref_well]
    by (auto simp: bind_groups_def with_context_Inr simp del: map_res_Inr split: sql_group.splits)
  moreover have "list_all (\<lambda>k. well_bound s (key_expr k)) ks"
  proof -
    have "bind_key shown s (s_projection sel) ps k = Inr y \<Longrightarrow> well_bound s (key_expr y)" for k y
      using ps bind_output_ref_well by (auto simp: bind_key_def and_then_Inr)
    then show ?thesis
      using o' map_res_all [of "bind_key shown s (s_projection sel) ps" _ ks "\<lambda>k. well_bound s (key_expr k)"]
      by (auto simp: bind_order_def with_context_Inr simp del: map_res_Inr split: option.splits sql_order.splits)
  qed
  ultimately show ?thesis
    using s p ps opt_bind_well w h by (auto simp: plan_fits_def with_context_Inr)
qed

section \<open>Rows of an \<open>INSERT\<close>\<close>

lemma literal_vector_dim:
  "literal e (Some (DT_Vector dim)) = Inr v \<Longrightarrow> \<exists>xs. v = V_Vector xs \<and> length xs = unat dim"
  by (auto simp: literal_def and_then_Inr split: if_splits)

definition row_shape :: "data_type list \<Rightarrow> rvalue list \<Rightarrow> bool" where
  "row_shape tys row \<longleftrightarrow>
     list_all2 (\<lambda>ty v. \<forall>dim. ty = DT_Vector dim \<longrightarrow> (\<exists>xs. v = V_Vector xs \<and> length xs = unat dim)) tys row"

lemma insert_row_shape:
  assumes "insert_row tys row = Inr vs"
  shows "row_shape tys vs"
proof -
  from assms have len: "length row = length tys"
    and m: "list_all2 (\<lambda>p v. literal (fst p) (Some (snd p)) = Inr v) (zip row tys) vs"
    by (auto simp: insert_row_def map_res_Inr case_prod_beta split: if_splits)
  then show ?thesis
    by (auto simp: row_shape_def list_all2_conv_all_nth dest!: literal_vector_dim)
qed

lemma plan_insert_shape:
  assumes "plan_insert schemas ins = Inr st"
  shows "\<exists>tab cols rows s tys. st = St_Insert tab cols rows \<and> schemas tab = Some s \<and>
    insert_types s tab cols = Inr tys \<and> (\<forall>r \<in> set rows. row_shape tys r)"
proof -
  from assms obtain n where n: "ins_table ins = Some n" by (auto simp: plan_insert_def split: option.splits)
  with assms obtain tab s cols tys and src :: sql_query where t: "schemas tab = Some s" "insert_types s tab cols = Inr tys"
    and body: "(case q_body src of
            SX_Values rows \<Rightarrow> and_then (map_res (insert_row tys) rows) (\<lambda>vs. Inr (St_Insert tab cols vs))
          | _ \<Rightarrow> Inl (Sql (Unsupported ''INSERT ... SELECT''))) = Inr st"
    unfolding plan_insert_def n option.case and_then_Inr ok_or_Inr by (elim exE conjE) (rule that)
  then obtain rows vs where vs: "map_res (insert_row tys) rows = Inr vs" and st: "st = St_Insert tab cols vs"
    by (auto simp: and_then_Inr simp del: map_res_Inr split: sql_body.splits)
  have "list_all (row_shape tys) vs" by (rule map_res_all [OF vs insert_row_shape])
  with t st show ?thesis by (auto simp: list_all_iff)
qed

section \<open>Evaluation without panics\<close>

definition calm :: "'a res \<Rightarrow> bool" where
  "calm r \<longleftrightarrow> (\<forall>m. r \<noteq> Inl (Panic m))"

lemma calm_Inr [simp, intro]: "calm (Inr x)"
  by (simp add: calm_def)

lemma calm_errors [simp]: "calm (Inl (Query q))" "calm (Inl (Context c e))" "\<not> calm (Inl (Panic m))"
  by (simp_all add: calm_def)

lemma calm_and_then: "calm m \<Longrightarrow> (\<And>x. m = Inr x \<Longrightarrow> calm (f x)) \<Longrightarrow> calm (and_then m f)"
  by (cases m) (auto simp: calm_def)

lemma calm_map_res: "(\<And>x. x \<in> set xs \<Longrightarrow> calm (f x)) \<Longrightarrow> calm (map_res f xs)"
  by (induction xs) (auto intro!: calm_and_then)

lemma calm_index_at [simp]: "calm (index_at xs i) \<longleftrightarrow> i < length xs"
  by (simp add: index_at_def)

lemma calm_to_f64 [simp]: "calm (to_f64 a)"
  by (cases a) (simp_all add: to_f64_def)

lemma calm_as_bool [simp]: "calm (as_bool a)"
  by (cases a) (simp_all add: as_bool_def)

lemma calm_strings_of [simp]: "calm (strings_of a (Query q))"
  by (cases a) (simp_all add: strings_of_def)

lemma calm_map_sum [simp]: "calm (map_sum id f r) \<longleftrightarrow> calm r"
  by (cases r) (simp_all add: calm_def)

lemma calm_pair_len [simp]: "calm (pair_len l r)"
  by (simp add: pair_len_def)

lemma calm_eval_floats [simp]: "calm (eval_floats op n l r)"
  by (simp add: eval_floats_def calm_and_then)

lemma calm_eval_binary [simp]: "calm (eval_binary op l r)"
  unfolding eval_binary_def by (rule calm_and_then) (auto intro!: calm_and_then split: arr.splits)

lemma calm_eval_unary [simp]: "calm (eval_unary op v)"
  by (auto simp: eval_unary_def intro!: calm_and_then split: un_op.splits arr.splits)

lemma calm_eval_lit [simp]: "calm (eval_lit v)"
  by (cases v) (simp_all add: eval_lit_def)

lemma calm_in_list [simp]: "calm (in_list_loop v lits hits)"
  by (induction lits arbitrary: hits) (auto intro!: calm_and_then)

lemma calm_cast [simp]: "calm (cast v ty)"
proof (cases ty)
  case DT_Str
  have "calm (arr_value v i)" if "i < arr_len v" for i
    using that by (cases v) (auto simp: arr_value_def at_def Let_def intro!: calm_and_then)
  then show ?thesis using DT_Str by (auto simp: cast_def intro!: calm_and_then calm_map_res)
qed (auto simp: cast_def intro!: calm_and_then split: arr.splits)

lemma calm_pick_at: "fit k (length xs) \<Longrightarrow> i < k \<Longrightarrow> calm (pick_at xs i)"
  by (simp add: pick_at_val)

lemma pick_at_calm: "fit k (length xs) \<Longrightarrow> i < k \<Longrightarrow> calm (pick_at xs i)"
  by (simp add: pick_at_val)

lemma calm_substring:
  assumes l: "length args = 2 \<or> length args = 3" and f: "\<forall>v \<in> set args. fit k (arr_len v)"
  shows "calm (func_substring k args)"
proof -
  have f': "fit k (arr_len (args ! j))" if "j < length args" for j using f that by simp
  have t: "to_f64 (args ! j) = Inr xs \<Longrightarrow> j < length args \<Longrightarrow> i < k \<Longrightarrow> calm (pick_at xs i)" for j xs i
    using f' [of j] to_f64_len by (metis pick_at_calm)
  have s: "args ! 0 = Arr_Str xs \<Longrightarrow> i < k \<Longrightarrow> calm (pick_at xs i)" for xs i
    using f' [of 0] l by (cases args) (auto intro: pick_at_calm)
  show ?thesis
    unfolding func_substring_def
    by (intro calm_and_then calm_map_res)
      (use l t s in \<open>auto simp: index_at_Inr strings_of_Inr map_sum_Inr split: if_splits option.split\<close>)
qed

lemma calm_if:
  assumes l: "length args = 3" and f: "\<forall>v \<in> set args. fit k (arr_len v)"
  shows "calm (func_if k args)"
proof -
  have f': "fit k (arr_len (args ! j))" if "j < 3" for j using f that l by simp
  have rows: "calm (map_res (\<lambda>i. and_then (pick_at cond i) (\<lambda>c. if c \<noteq> 0 then pick_at xs i else pick_at ys i)) [0..<k])"
    if "fit k (length cond)" "fit k (length xs)" "fit k (length ys)" for cond :: "u8 list" and xs ys :: "'b list"
    using that by (auto intro!: calm_map_res calm_and_then intro: pick_at_calm)
  note rows_str = rows [of _ "_ :: rstr list"] and rows_f = rows [of _ "_ :: f64 list"]
  obtain a b c where args: "args = [a, b, c]" using l by (auto simp: length_Suc_conv eval_nat_numeral)
  have fs: "fit k (arr_len a)" "fit k (arr_len b)" "fit k (arr_len c)"
    using f' [of 0] f' [of 1] f' [of 2] args by simp_all
  have strs: "calm (and_then (map_res (\<lambda>i. and_then (pick_at cond i) (\<lambda>c. if c \<noteq> 0 then pick_at xs i else pick_at ys i)) [0..<k])
         (\<lambda>out. Inr (Arr_Str out)))" if "a = Arr_Bool cond" "b = Arr_Str xs" "c = Arr_Str ys" for cond xs ys
    using fs that by (intro calm_and_then rows_str) auto
  have floats: "calm (and_then (to_f64 b) (\<lambda>xs. and_then (to_f64 c) (\<lambda>ys.
         and_then (map_res (\<lambda>i. and_then (pick_at cond i) (\<lambda>c. if c \<noteq> 0 then pick_at xs i else pick_at ys i)) [0..<k])
         (\<lambda>out. Inr (Arr_F64 out)))))" if "a = Arr_Bool cond" for cond
    using fs that by (intro calm_and_then rows_f) (auto simp: to_f64_len)
  show ?thesis
  proof (cases a)
    case (Arr_Bool cond)
    note s = strs [OF Arr_Bool] and fl = floats [OF Arr_Bool]
    show ?thesis
    proof (cases "\<exists>xs ys. b = Arr_Str xs \<and> c = Arr_Str ys")
      case True
      then obtain xs ys where "b = Arr_Str xs" "c = Arr_Str ys" by blast
      with s [OF this] show ?thesis by (simp add: func_if_def args Arr_Bool)
    next
      case False
      then have "func_if k args = and_then (to_f64 b) (\<lambda>xs. and_then (to_f64 c) (\<lambda>ys.
         and_then (map_res (\<lambda>i. and_then (pick_at cond i) (\<lambda>c. if c \<noteq> 0 then pick_at xs i else pick_at ys i)) [0..<k])
         (\<lambda>out. Inr (Arr_F64 out))))"
        by (cases b; cases c) (simp_all add: func_if_def args Arr_Bool)
      with fl show ?thesis by simp
    qed
  qed (simp_all add: func_if_def args as_bool_def)
qed

lemma calm_round: "Suc 0 \<le> length args \<Longrightarrow> calm (func_round args)"
  by (auto simp: func_round_def Let_def intro!: calm_and_then)

lemma calm_date_trunc:
  assumes "length args = 2" and "arr_len (args ! 0) \<noteq> 0"
  shows "calm (func_date_trunc lower args)"
  using assms
  by (auto simp: func_date_trunc_def index_at_Inr strings_of_Inr intro!: calm_and_then)
    (simp add: ok_or_def split: option.splits)

lemma calm_scalar:
  assumes l: "arity_ok fn (length args)" and f: "\<forall>v \<in> set args. fit n (arr_len v)" and n: "0 < n"
  shows "calm (scalar_func lower upper fn args)"
proof -
  have k: "\<forall>v \<in> set args. fit (args_len args) (arr_len v)"
  proof
    fix v assume v: "v \<in> set args"
    have "fit n (args_len args)" using f by (intro args_len_fit) simp
    with f v args_len_one [of args v] show "fit (args_len args) (arr_len v)" by (auto simp: fit_def)
  qed
  have c: "arr_len v \<noteq> 0" if "v \<in> set args" for v using f n that by (auto simp: fit_def)
  show ?thesis
    using l
    by (cases fn)
      (auto simp: scalar_func_def arity_ok_def Let_def calm_round intro!: calm_and_then calm_substring calm_if calm_date_trunc k c split: arr.splits)
qed

lemma sel_row_in: "sel_in N s \<Longrightarrow> i < sel_len s \<Longrightarrow> \<exists>r. sel_row s i = Inr r \<and> r < N"
  using sel_row_bound by blast

lemma vector_at_rep:
  assumes "column_rep (C_Vector dim data) vs" "r < length vs"
  shows "\<exists>v. vector_at (C_Vector dim data) r = Inr (Some v) \<and> length v = unat dim"
proof -
  from assms(1) obtain rows where rows: "\<forall>r \<in> set rows. length r = unat dim" "data = concat rows"
    "vs = map V_Vector rows" by (auto elim: column_rep_vectorE)
  with assms(2) have "slice data (r * unat dim) ((r + 1) * unat dim) = Inr (rows ! r)"
    using concat_rows_slice by auto
  with rows assms(2) show ?thesis by (auto simp: vector_at_def)
qed

lemma calm_gather:
  assumes rep: "column_rep c vs" and s: "sel_in (length vs) s"
  shows "calm (gather c s)"
proof (cases c)
  case (C_Str sc)
  then obtain ss where "strcol_rep sc ss" "vs = map V_Str ss" using rep by (auto simp: column_rep_def)
  then have "calm (and_then (sel_row s i) (str_get sc))" if "i < sel_len s" for i
    using sel_row_in [OF s that] strcol_rep_get by auto
  then have "calm (map_res (\<lambda>i. and_then (sel_row s i) (str_get sc)) [0..<sel_len s])"
    by (intro calm_map_res) simp
  with C_Str show ?thesis by (auto simp: gather_def intro!: calm_and_then)
next
  case (C_Vector dim data)
  have "calm (and_then (sel_row s i) (\<lambda>r. and_then (vector_at c r) (\<lambda>v. ok_or v (Panic ''unwrap''))))"
    if "i < sel_len s" for i
    using sel_row_in [OF s that] vector_at_rep rep C_Vector by fastforce
  then have "calm (map_res (\<lambda>i. and_then (sel_row s i) (\<lambda>r. and_then (vector_at c r) (\<lambda>v. ok_or v (Panic ''unwrap'')))) [0..<sel_len s])"
    by (intro calm_map_res) simp
  with C_Vector show ?thesis by (auto simp: gather_def intro!: calm_and_then)
qed (use rep s in \<open>auto simp: gather_def column_rep_def sel_in_def split: sel.splits intro!: calm_and_then calm_map_res\<close>)

lemma cosine_loop_ok: "i + length a \<le> length b \<Longrightarrow> \<exists>x. cosine_loop a b i d na nb = Inr x"
proof (induction a b i d na nb rule: cosine_loop.induct)
  case (2 x xs b i d na nb)
  then have "index_at b i = Inr (b ! i)" by simp
  with 2 show ?case by simp
qed simp

lemma metric_value_ok: "length v = length q \<Longrightarrow> \<exists>d. metric_value m v q = Inr d"
  using cosine_loop_ok [of 0 v q 0 0 0]
  by (auto simp: metric_value_def cosine_distance_def Let_def split: metric.splits)

lemma calm_distances:
  assumes rep: "column_rep c vs" and s: "sel_in (length vs) s"
  shows "calm (distances c s m q)"
proof (cases c)
  case (C_Vector dim data)
  show ?thesis
  proof (cases "unat dim = length q")
    case True
    have "calm (and_then (sel_row s i) (\<lambda>r. and_then (vector_at c r) (\<lambda>v.
            and_then (ok_or v (Panic ''unwrap'')) (\<lambda>v. metric_value m v q))))" if i: "i < sel_len s" for i
    proof -
      obtain r v where "sel_row s i = Inr r" "vector_at c r = Inr (Some v)" "length v = length q"
        using sel_row_in [OF s i] vector_at_rep rep C_Vector True by fastforce
      with metric_value_ok [of v q m] show ?thesis by auto
    qed
    with C_Vector True show ?thesis by (auto simp: distances_def intro!: calm_map_res)
  qed (simp add: C_Vector distances_def)
qed (simp_all add: distances_def)

lemma calm_checked: "calm r \<Longrightarrow> calm (checked n r)"
  by (auto simp: checked_def intro!: calm_and_then)

lemma calm_eval:
  assumes rep: "table_rep t rows" and s: "sel_in (length rows) s" and n: "0 < sel_len s"
  shows "well_bound (tschema t) e \<Longrightarrow> calm (eval lower upper (columns t) s e)"
proof (induction e)
  case (E_Col i)
  then have "i < length (columns t)" using rep by (simp add: table_rep_def)
  then have "column_rep (columns t ! i) (map (\<lambda>r. r ! i) rows)" using rep by (simp add: table_rep_def)
  with s show ?case by (auto intro!: calm_checked calm_gather)
next
  case (E_Func fn args)
  have args: "calm (map_res (\<lambda>r. r) (map (eval lower upper (columns t) s) args))"
    by (rule calm_map_res) (use E_Func in \<open>auto simp: list_all_iff\<close>)
  have fits: "\<forall>v \<in> set vals. fit (sel_len s) (arr_len v)" "length vals = length args"
    if "map_res (\<lambda>r. r) (map (eval lower upper (columns t) s) args) = Inr vals" for vals
    using that eval_fit by (auto simp: map_res_Inr list_all2_conv_all_nth in_set_conv_nth) (metis eval_fit)
  have ok: "arity_ok fn (length args)" using E_Func.prems by simp
  have "calm (scalar_func lower upper fn vals)"
    if "map_res (\<lambda>r. r) (map (eval lower upper (columns t) s) args) = Inr vals" for vals
    using calm_scalar [OF _ fits(1) [OF that] n] fits(2) [OF that] ok by simp
  with args show ?case by (simp del: map_res.simps, intro calm_checked calm_and_then)
next
  case (E_Distance m c q)
  then have "c < length (columns t)" using rep by (simp add: table_rep_def)
  then have "column_rep (columns t ! c) (map (\<lambda>r. r ! c) rows)" using rep by (simp add: table_rep_def)
  with s show ?case by (auto intro!: calm_checked calm_and_then calm_distances)
qed (auto simp: eval_like_def eval_in_list_def eval_between_def Let_def intro!: calm_checked calm_and_then split: arr.splits)

section \<open>The columns of an \<open>INSERT\<close>\<close>

lemma reorder_positions_targets:
  assumes "reorder_positions s i ns pos = Inr pos'" and "length pos = length (sfields s)"
  obtains ts where "list_all2 (\<lambda>n t. index_of s n = Some t) ns ts" "distinct ts" "length pos' = length pos"
    "\<forall>k < length ts. pos' ! (ts ! k) = Some (i + k)" "\<forall>t < length pos. t \<notin> set ts \<longrightarrow> pos' ! t = pos ! t"
    "\<forall>t \<in> set ts. pos ! t = None"
proof -
  have "\<exists>ts. list_all2 (\<lambda>n t. index_of s n = Some t) ns ts \<and> distinct ts \<and> length pos' = length pos \<and>
    (\<forall>k < length ts. pos' ! (ts ! k) = Some (i + k)) \<and> (\<forall>t < length pos. t \<notin> set ts \<longrightarrow> pos' ! t = pos ! t) \<and>
    (\<forall>t \<in> set ts. pos ! t = None)"
    using assms
  proof (induction ns arbitrary: i pos)
    case Nil
    then show ?case by simp
  next
    case (Cons n ns)
    from Cons.prems(1) obtain t where t: "index_of s n = Some t" "pos ! t = None"
      and rest: "reorder_positions s (i + 1) ns (pos[t := Some i]) = Inr pos'"
      by (auto simp: and_then_Inr ok_or_Inr split: if_splits)
    have tl: "t < length pos" using index_of_less [OF t(1)] Cons.prems(2) by simp
    obtain ts where ts: "list_all2 (\<lambda>n t. index_of s n = Some t) ns ts" "distinct ts" "length pos' = length pos"
      "\<forall>k < length ts. pos' ! (ts ! k) = Some (i + 1 + k)"
      "\<forall>u < length pos. u \<notin> set ts \<longrightarrow> pos' ! u = pos[t := Some i] ! u" "\<forall>u \<in> set ts. pos[t := Some i] ! u = None"
      using Cons.IH [OF rest] Cons.prems(2) by auto
    have fresh: "t \<notin> set ts" using ts(6) tl by auto
    then have "pos' ! t = Some i" using ts(5) tl by simp
    have one: "\<forall>k < length (t # ts). pos' ! ((t # ts) ! k) = Some (i + k)"
      using ts(4) \<open>pos' ! t = Some i\<close> by (auto simp: less_Suc_eq_0_disj)
    have two: "\<forall>u < length pos. u \<notin> set (t # ts) \<longrightarrow> pos' ! u = pos ! u"
      using ts(5) by (auto simp: nth_list_update)
    have three: "\<forall>u \<in> set (t # ts). pos ! u = None"
      using ts(6) t(2) fresh by (metis nth_list_update_neq set_ConsD)
    show ?case
      by (rule exI [of _ "t # ts"]) (use t(1) ts(1,2,3) fresh one two three in simp)
  qed
  then show thesis using that by blast
qed

lemma reorder_positions_bijection:
  assumes "reorder_positions s 0 ns (replicate (length (sfields s)) None) = Inr pos"
    and "length ns = length (sfields s)"
  shows "length pos = length ns \<and>
    (\<forall>i < length ns. \<exists>t < length pos. index_of s (ns ! i) = Some t \<and> pos ! t = Some i) \<and>
    (\<forall>t < length pos. \<exists>i < length ns. pos ! t = Some i)"
proof -
  obtain ts where ts: "list_all2 (\<lambda>n t. index_of s n = Some t) ns ts" "distinct ts" "length pos = length (sfields s)"
    "\<forall>k < length ts. pos ! (ts ! k) = Some (0 + k)"
    by (rule reorder_positions_targets [OF assms(1)]) auto
  have len: "length ts = length ns" using ts(1) by (simp add: list_all2_lengthD)
  have sub: "set ts \<subseteq> {..<length pos}"
    using ts(1,3) by (auto simp: list_all2_conv_all_nth in_set_conv_nth dest!: index_of_less)
  have "card (set ts) = length pos" using ts(2,3) len assms(2) by (simp add: distinct_card)
  then have "set ts = {..<length pos}" using sub by (intro card_subset_eq) auto
  then have "\<exists>i < length ns. pos ! t = Some i" if "t < length pos" for t
    using that ts(4) len by (metis add_0 in_set_conv_nth lessThan_iff)
  moreover have "\<exists>t < length pos. index_of s (ns ! i) = Some t \<and> pos ! t = Some i" if "i < length ns" for i
    using that ts(1,4) len subsetD [OF sub nth_mem, of i]
    by (intro exI [of _ "ts ! i"]) (auto simp: list_all2_conv_all_nth)
  ultimately show ?thesis using ts(3) assms(2) by simp
qed

lemma reorder_positions_error:
  "reorder_positions s i ns pos = Inl e \<Longrightarrow> \<exists>n. e = No_column n \<or> e = Column_twice n"
  by (induction s i ns pos rule: reorder_positions.induct)
    (auto simp: and_then_Inl ok_or_def split: option.splits if_splits)

lemma reorder_row_ok:
  assumes "reorder_positions s 0 ns (replicate (length (sfields s)) None) = Inr pos"
    and "length ns = length (sfields s)" and "length row = length ns"
  shows "\<exists>row'. reorder_row pos row = Inr row' \<and> length row' = length row \<and>
    (\<forall>i < length ns. \<exists>t < length row'. index_of s (ns ! i) = Some t \<and> row' ! t = row ! i)"
proof -
  note b = reorder_positions_bijection [OF assms(1,2)]
  have "reorder_row pos row = Inr (map (\<lambda>p. row ! the p) pos)"
    unfolding reorder_row_def
  proof (rule map_res_total)
    fix p assume "p \<in> set pos"
    then obtain t where "t < length pos" "p = pos ! t" by (auto simp: in_set_conv_nth)
    with b obtain i where "i < length ns" "p = Some i" by auto
    with assms(3) show "(case p of None \<Rightarrow> Inl (Panic ''index out of bounds'') | Some i \<Rightarrow> index_at row i) = Inr (row ! the p)"
      by simp
  qed
  with b assms(3) show ?thesis by fastforce
qed

section \<open>Properties of planning\<close>

text \<open>
  C26: every planned \<open>SELECT\<close> fits the schema of its table: columns are in range, a distance is between
  a vector column and a query vector of its dimension, functions have the arguments they need.
\<close>

theorem planned_query_fits:
  assumes "plan_query shown schemas q = Inr p"
  shows "\<exists>s. source_schema schemas (sel_table p) = Some s \<and> plan_fits s p"
  using assms by (rule plan_query_fits)

definition sample_schema :: schema where
  "sample_schema = \<lparr>sfields =
     [\<lparr>fname = str ''a'', fty = DT_I64\<rparr>, \<lparr>fname = str ''b'', fty = DT_Str\<rparr>, \<lparr>fname = str ''v'', fty = DT_Vector 2\<rparr>]\<rparr>"

definition sample_query :: sql_query where
  "sample_query =
     \<lparr>q_with = False,
      q_body = SX_Select
        \<lparr>s_distinct = False, s_from = [\<lparr>relation = Some [Some (str ''t'')], joins = False\<rparr>],
         s_selection = Some (SE_Binary (SE_Identifier (str ''A'')) SB_Gt (SE_Value (SV_Number (str ''1'')))),
         s_projection = [SI_Wildcard, SI_Unnamed (SE_Identifier (str ''a''))],
         s_group_by = SGroup_Exprs [], s_having = None\<rparr>,
      q_order = Some (SOrder_Exprs [(SE_Identifier (str ''a''), Some False)]),
      q_limit = Some (SL_LimitOffset (Some (SE_Value (SV_Number (str ''10'')))) None False)\<rparr>"

definition show_ident :: "sql_expr \<Rightarrow> rstr" where
  "show_ident e = (case e of SE_Identifier n \<Rightarrow> n | _ \<Rightarrow> [])"

definition sample_schemas :: "rstr \<Rightarrow> schema option" where
  "sample_schemas n = (if n = str ''t'' then Some sample_schema else None)"

lemma sample_plan_ok: "is_ok (plan_query show_ident sample_schemas sample_query)"
  by code_simp

theorem planned_query_fits_witness:
  "\<exists>p s. plan_query show_ident sample_schemas sample_query = Inr p \<and>
     source_schema sample_schemas (sel_table p) = Some s \<and> plan_fits s p"
  using sample_plan_ok planned_query_fits [of show_ident sample_schemas sample_query] by (auto simp: is_ok_iff)

text \<open>
  C25: an expression bound against the schema of a table evaluates over any non-empty selection of its
  rows without a panic: whatever is wrong with it is an error value.
\<close>

theorem bound_expression_never_panics:
  assumes "bind (tschema t) e = Inr x" and "table_rep t rows"
    and "sel_in (length rows) s" and "0 < sel_len s"
  shows "eval lower upper (columns t) s x \<noteq> Inl (Panic m)"
  using calm_eval [OF assms(2,3,4) bind_well [OF assms(1)], of lower upper] by (simp add: calm_def)

definition sample_rows :: table where
  "sample_rows = \<lparr>tname = str ''t'', tschema = sample_schema,
     columns = [C_I64 [5, 7], C_Str (str_push (str_push str_new (str ''x'')) (str ''yz'')), C_Vector 2 [0, 0, 0, 0]],
     nrows = 2\<rparr>"

lemma sample_rows_rep:
  "table_rep sample_rows
     [[V_I64 5, V_Str (str ''x''), V_Vector [0, 0]], [V_I64 7, V_Str (str ''yz''), V_Vector [0, 0]]]"
proof -
  have s: "column_rep (C_Str (str_push (str_push str_new (str ''x'')) (str ''yz'')))
      [V_Str (str ''x''), V_Str (str ''yz'')]"
    unfolding column_rep_def column.case
    by (rule exI [of _ "[str ''x'', str ''yz'']"]) (simp add: strcol_rep_def, code_simp)
  have v: "column_rep (C_Vector 2 [0, 0, 0, 0]) [V_Vector [0, 0], V_Vector [0, 0]]"
    unfolding column_rep_def column.case
    by (rule exI [of _ "[[0, 0], [0, 0]]"]) simp
  have ok: "schema_ok sample_schema" by (simp add: schema_ok_def sample_schema_def) code_simp
  show ?thesis
    using s v ok
    by (auto simp: table_rep_def sample_rows_def sample_schema_def less_Suc_eq column_type_def) (simp add: column_rep_def)
qed

lemma sample_bind:
  "is_ok (bind (tschema sample_rows) (SE_Binary (SE_Identifier (str ''b'')) SB_Plus (SE_Identifier (str ''a''))))"
  by code_simp

theorem bound_expression_never_panics_witness:
  "\<exists>x. bind (tschema sample_rows) (SE_Binary (SE_Identifier (str ''b'')) SB_Plus (SE_Identifier (str ''a''))) = Inr x \<and>
     (\<forall>m. eval (\<lambda>s. s) (\<lambda>s. s) (columns sample_rows) (All 2) x \<noteq> Inl (Panic m))"
  using sample_bind bound_expression_never_panics [OF _ sample_rows_rep, of _ _ "All 2" "\<lambda>s. s" "\<lambda>s. s"]
  by (auto simp: is_ok_iff sel_in_def sel_len_def simp del: bind.simps)

text \<open>
  C27: an \<open>INSERT\<close> that names its columns puts every value under its column: the names are a permutation
  of the schema, no position stays open and no row is read out of bounds.
\<close>

theorem insert_columns_permute:
  assumes sch: "schema_of lower (tables db) tab = Some s" and rows: "\<forall>r \<in> set rows. length r = length names"
  shows "(\<exists>rows'. reorder lower db tab names rows = Inr rows' \<and>
      list_all2 (\<lambda>r r'. length r' = length r \<and>
        (\<forall>i < length names. \<exists>t < length r'. index_of s (names ! i) = Some t \<and> r' ! t = r ! i)) rows rows') \<or>
    (\<exists>n. reorder lower db tab names rows \<in> {Inl (No_column n), Inl (Column_twice n), Inl (Insert_columns (length names) (schema_len s))})"
proof -
  consider (n) "length names \<noteq> schema_len s"
    | (e) e where "length names = schema_len s" "reorder_positions s 0 names (replicate (schema_len s) None) = Inl e"
    | (p) pos where "length names = schema_len s" "reorder_positions s 0 names (replicate (schema_len s) None) = Inr pos"
    by (cases "reorder_positions s 0 names (replicate (schema_len s) None)") auto
  then show ?thesis
  proof cases
    case n
    then show ?thesis using sch by (simp add: reorder_def)
  next
    case e
    then show ?thesis using sch reorder_positions_error [OF e(2)] by (auto simp: reorder_def)
  next
    case p
    have row: "\<exists>r'. reorder_row pos r = Inr r' \<and> length r' = length r \<and>
        (\<forall>i < length names. \<exists>t < length r'. index_of s (names ! i) = Some t \<and> r' ! t = r ! i)"
      if "r \<in> set rows" for r
      using reorder_row_ok [of s names pos r] p rows that by (simp add: schema_len_def)
    then obtain g where g: "\<And>r. r \<in> set rows \<Longrightarrow> reorder_row pos r = Inr (g r) \<and> length (g r) = length r \<and>
        (\<forall>i < length names. \<exists>t < length (g r). index_of s (names ! i) = Some t \<and> g r ! t = r ! i)"
      by metis
    then have "map_res (reorder_row pos) rows = Inr (map g rows)" by (intro map_res_total) simp
    with p sch have "reorder lower db tab names rows = Inr (map g rows)" by (simp add: reorder_def)
    moreover have "list_all2 (\<lambda>r r'. length r' = length r \<and>
        (\<forall>i < length names. \<exists>t < length r'. index_of s (names ! i) = Some t \<and> r' ! t = r ! i)) rows (map g rows)"
      unfolding list.rel_map by (rule list.rel_refl_strong) (use g in blast)
    ultimately show ?thesis by blast
  qed
qed

definition sample_database :: database where
  "sample_database = \<lparr>tables = [str ''t'' \<mapsto> sample_rows], store = None, read_only = False, memory_limit = 0\<rparr>"

lemma sample_schema_of: "schema_of (\<lambda>s. s) (tables sample_database) (str ''t'') = Some sample_schema"
  by (simp add: sample_database_def sample_rows_def schema_of_def table_of_def key_def)

lemma sample_reorder:
  "is_ok (reorder (\<lambda>s. s) sample_database (str ''t'') [str ''v'', str ''a'', str ''b''] [[V_Vector [0, 0], V_I64 1, V_Str (str ''x'')]])"
  by code_simp

theorem insert_columns_permute_witness:
  "\<exists>r'. reorder (\<lambda>s. s) sample_database (str ''t'') [str ''v'', str ''a'', str ''b''] [[V_Vector [0, 0], V_I64 1, V_Str (str ''x'')]] = Inr [r'] \<and>
     length r' = 3"
  using insert_columns_permute [OF sample_schema_of, of "[[V_Vector [0, 0], V_I64 1, V_Str (str ''x'')]]"
      "[str ''v'', str ''a'', str ''b'']"] sample_reorder
  by (auto simp: list_all2_Cons1 is_ok_iff)

text \<open>
  in a list that starts with \<open>*\<close> the textual references of \<open>ORDER BY\<close> are off: for \<open>SELECT *, a\<close>
  over a table whose first column is \<open>a\<close>, \<open>ORDER BY a\<close> is resolved to the second column, because the
  items as written are paired with the columns that the star was expanded to.
\<close>

theorem wildcard_shifts_order_key:
  assumes "index_of s a = Some 0" and "2 \<le> length (sfields s)"
  shows "\<exists>ps. bind_projection shown s [SI_Wildcard, SI_Unnamed (SE_Identifier a)] = Inr ps \<and>
    bind_order shown s [SI_Wildcard, SI_Unnamed (SE_Identifier a)] ps (Some (SOrder_Exprs [(SE_Identifier a, None)]))
      = Inr [\<lparr>key_expr = E_Col 1, asc = True\<rparr>]"
proof -
  obtain f g fs where s: "sfields s = f # g # fs"
    using assms(2) by (cases "sfields s" rule: remdups_adj.cases) auto
  let ?shown = "\<lambda>i f. \<lparr>proj_expr = E_Col i, proj_alias = fname f\<rparr>"
  define ps where "ps = ?shown 0 f # ?shown 1 g # map (\<lambda>(i, f). ?shown i f) (enumerate 2 fs)
    @ [\<lparr>proj_expr = E_Col 0, proj_alias = shown (SE_Identifier a)\<rparr>]"
  have "bind_projection shown s [SI_Wildcard, SI_Unnamed (SE_Identifier a)] = Inr ps"
    using assms(1) s by (simp add: bind_projection_def bind_item_def bind_column_def ps_def eval_nat_numeral)
  moreover have "bind_output_ref shown s [SI_Wildcard, SI_Unnamed (SE_Identifier a)] ps (SE_Identifier a) = Inr (E_Col 1)"
  proof -
    have "bind_by_text shown (SE_Identifier a) s [SI_Wildcard, SI_Unnamed (SE_Identifier a)] ps = Inr (E_Col 1)"
      by (simp add: bind_by_text_def ps_def same_text_def item_text_def eq_ignore_ascii_case_def)
    with assms(1) show ?thesis by (simp add: bind_output_ref_def split: option.split)
  qed
  ultimately show ?thesis by (simp add: bind_order_def bind_key_def with_context_Inr)
qed

theorem wildcard_shifts_order_key_witness:
  "\<exists>ps. bind_projection show_ident sample_schema [SI_Wildcard, SI_Unnamed (SE_Identifier (str ''a''))] = Inr ps \<and>
    bind_order show_ident sample_schema [SI_Wildcard, SI_Unnamed (SE_Identifier (str ''a''))] ps
      (Some (SOrder_Exprs [(SE_Identifier (str ''a''), None)])) = Inr [\<lparr>key_expr = E_Col 1, asc = True\<rparr>]"
proof -
  have "index_of sample_schema (str ''a'') = Some 0" by code_simp
  then show ?thesis by (rule wildcard_shifts_order_key) (simp add: sample_schema_def)
qed

text \<open>
  a \<open>CASE\<close> without \<open>ELSE\<close> whose branch is a number never has a value: the empty string put in the
  place of the missing branch does not take the type of the other one.
\<close>

theorem case_without_else_needs_text:
  assumes "bind s c = Inr cond" and "bind s e = Inr res"
    and "eval lower upper f rows cond = Inr (Arr_Bool bs)" and "eval lower upper f rows res = Inr a"
    and "\<not> is_str a"
  shows "\<exists>x q. bind s (SE_Case None [(c, e)] None) = Inr x \<and> eval lower upper f rows x = Inl (Query q)"
proof -
  have x: "bind s (SE_Case None [(c, e)] None) = Inr (E_Func S_If [cond, res, E_Lit (V_Str [])])"
    using assms(1,2) by (simp add: bind_when_def opt_res_def)
  have lit: "eval lower upper f rows (E_Lit (V_Str [])) = Inr (Arr_Str [[]])"
    by (simp add: eval_lit_def checked_def)
  have "\<exists>q. scalar_func lower upper S_If [Arr_Bool bs, a, Arr_Str [[]]] = Inl (Query q)"
    using assms(5) by (cases a) (simp_all add: scalar_func_def func_if_def to_f64_def is_str_def Let_def)
  with assms(3,4) lit have "\<exists>q. eval lower upper f rows (E_Func S_If [cond, res, E_Lit (V_Str [])]) = Inl (Query q)"
    by (auto simp: checked_def)
  with x show ?thesis by blast
qed

theorem case_without_else_needs_text_witness:
  "\<exists>x q. bind sample_schema (SE_Case None [(SE_Value (SV_Boolean True), SE_Identifier (str ''a''))] None) = Inr x \<and>
     eval (\<lambda>s. s) (\<lambda>s. s) [C_I64 [5, 7]] (All 2) x = Inl (Query q)"
proof (rule case_without_else_needs_text)
  show "bind sample_schema (SE_Value (SV_Boolean True)) = Inr (E_Lit (V_Bool True))" by code_simp
  show "bind sample_schema (SE_Identifier (str ''a'')) = Inr (E_Col 0)" by code_simp
  show "eval (\<lambda>s. s) (\<lambda>s. s) [C_I64 [5, 7]] (All 2) (E_Lit (V_Bool True)) = Inr (Arr_Bool [1])" by code_simp
  show "eval (\<lambda>s. s) (\<lambda>s. s) [C_I64 [5, 7]] (All 2) (E_Col 0) = Inr (Arr_I64 [5, 7])" by code_simp
  show "\<not> is_str (Arr_I64 [5, 7])" by (simp add: is_str_def)
qed

end
