(* ===== verification/Recovery.thy ===== *)
theory Recovery
  imports Database
begin

text \<open>
  What survives a restart. The operations a client can call on an open database are gathered in
  \<open>op\<close>; the theory shows that each of them keeps \<open>durable\<close>, states the contract of a
  recoverable store as a locale, and interprets it on the functions of \<open>db.rs\<close>: after any run,
  and after a crash in the middle of any operation, opening the data directory gives the tables
  of the run with or without the operation that was under way.
\<close>

section \<open>Operations\<close>

datatype op =
    Op_create rstr schema
  | Op_drop rstr
  | Op_insert rstr "rvalue list list"
  | Op_snapshot
  | Op_read_only bool
  | Op_memory_limit u64

fun run_op ::
  "(rstr \<Rightarrow> rstr) \<Rightarrow> (rstr set \<Rightarrow> rstr list) \<Rightarrow> database \<Rightarrow> op \<Rightarrow> database" where
  "run_op lower order db (Op_create n s) = fst (create_table lower db n s)"
| "run_op lower order db (Op_drop n) = fst (drop_table lower db n)"
| "run_op lower order db (Op_insert n rows) = fst (insert_rows lower order db n rows)"
| "run_op lower order db Op_snapshot = fst (db_snapshot order db)"
| "run_op lower order db (Op_read_only v) = set_read_only v db"
| "run_op lower order db (Op_memory_limit v) = set_memory_limit v db"

text \<open>
  The operations whose encoding is faithful: names and payloads fit the length fields of the
  formats, and the rows inserted have exactly the types of their columns and fit the offsets.
\<close>

definition payload_fits :: "(rstr \<Rightarrow> schema option) \<Rightarrow> wal_record \<Rightarrow> bool" where
  "payload_fits so rec \<longleftrightarrow>
     record_exact so rec \<and> (\<forall>p. wal_encode so rec = Inr p \<longrightarrow> payload_small p)"

fun op_fits :: "(rstr \<Rightarrow> rstr) \<Rightarrow> database \<Rightarrow> op \<Rightarrow> bool" where
  "op_fits lower db (Op_create n s) \<longleftrightarrow> payload_fits (schema_of lower (tables db)) (CreateTable n s)"
| "op_fits lower db (Op_drop n) \<longleftrightarrow> payload_fits (schema_of lower (tables db)) (DropTable n)"
| "op_fits lower db (Op_insert n rows) \<longleftrightarrow>
     (case table_of lower (tables db) n of
        None \<Rightarrow> True
      | Some t \<Rightarrow> batch_fits t rows \<and>
          payload_fits (schema_of lower (tables db)) (InsertRows n rows))"
| "op_fits lower db Op_snapshot \<longleftrightarrow> catalog_small (tables db)"
| "op_fits lower db _ \<longleftrightarrow> True"

definition lsn_left :: "database \<Rightarrow> bool" where
  "lsn_left db \<longleftrightarrow> unat (next_lsn db) < 2 ^ 64 - 1"

definition op_ok :: "(rstr \<Rightarrow> rstr) \<Rightarrow> database \<Rightarrow> op \<Rightarrow> bool" where
  "op_ok lower db oper \<longleftrightarrow> op_fits lower db oper \<and> lsn_left db"

section \<open>What one operation does to a durable database\<close>

lemma durable_settings [simp]:
  "durable lower (db\<lparr>read_only := r\<rparr>) = durable lower db"
  "durable lower (db\<lparr>memory_limit := l\<rparr>) = durable lower db"
  by (simp_all add: durable_def durable_as_def)

text \<open>
  The write path in general: new tables \<open>m'\<close>, and a record that replayed on the old tables
  gives \<open>m'\<close>. The log then holds one more frame and stays a faithful account.
\<close>

lemma logged_record:
  assumes dur: "durable lower db" and s: "store db = Some s"
    and so: "schema_of lower m' = schema_of lower (tables db) \<or> (\<forall>t rows. rec \<noteq> InsertRows t rows)"
    and fits: "payload_fits (schema_of lower (tables db)) rec"
    and app: "apply_record lower (tables db) rec = (m', Inr ())"
    and wf: "catalog_wf lower m'" and lsn: "lsn_left db"
  obtains p where "log_record lower (db\<lparr>tables := m'\<rparr>) rec =
      (db\<lparr>tables := m', store := Some (s\<lparr>store_wal := fst (wal_append (store_wal s) p)\<rparr>)\<rparr>, Inr ())"
    and "payload_small p"
    and "durable lower
      (db\<lparr>tables := m', store := Some (s\<lparr>store_wal := fst (wal_append (store_wal s) p)\<rparr>)\<rparr>)"
proof -
  have same: "wal_encode (schema_of lower m') rec = wal_encode (schema_of lower (tables db)) rec"
    using so by (cases rec) (auto simp: wal_encode_def)
  obtain p where p: "wal_encode (schema_of lower (tables db)) rec = Inr p"
    "wal_decode (schema_of lower (tables db)) p = Inr rec" "payload_small p"
    using fits record_roundtrip unfolding payload_fits_def by blast
  have "durable lower
      (db\<lparr>tables := m', store := Some (s\<lparr>store_wal := fst (wal_append (store_wal s) p)\<rparr>)\<rparr>)"
    using durable_logged [OF dur s p(3) _ wf lsn [unfolded lsn_left_def]] apply_payload_record [OF p(2) app] by simp
  moreover have "log_record lower (db\<lparr>tables := m'\<rparr>) rec =
      (db\<lparr>tables := m', store := Some (s\<lparr>store_wal := fst (wal_append (store_wal s) p)\<rparr>)\<rparr>, Inr ())"
    using s p(1) same by (simp add: log_record_def)
  ultimately show thesis using that p(3) by blast
qed

text \<open>
  \<open>one_frame db db'\<close>: \<open>db'\<close> has the same files as \<open>db\<close>, or one more frame in the WAL.
\<close>

definition one_frame :: "database \<Rightarrow> database \<Rightarrow> bool" where
  "one_frame db db' \<longleftrightarrow>
     store db' = store db \<or>
     (\<exists>s p. store db = Some s \<and> payload_small p \<and>
        store db' = Some (s\<lparr>store_wal := fst (wal_append (store_wal s) p)\<rparr>))"

lemma one_frameI:
  "store db = Some s \<Longrightarrow> payload_small p \<Longrightarrow>
   store db' = Some (s\<lparr>store_wal := fst (wal_append (store_wal s) p)\<rparr>) \<Longrightarrow> one_frame db db'"
  by (auto simp: one_frame_def)

lemma create_table_step:
  assumes dur: "durable lower db" and fits: "payload_fits (schema_of lower (tables db)) (CreateTable n sc)"
    and lsn: "lsn_left db"
    and res: "create_table lower db n sc = (db', r)"
  shows "durable lower db'" and "one_frame db db'"
    and "r = Inr () \<Longrightarrow> \<exists>t. table_new n sc = Inr t \<and> tables db' = (tables db)(key lower n \<mapsto> t)"
    and "r \<noteq> Inr () \<Longrightarrow> db' = db"
proof -
  obtain s where s: "store db = Some s" using durable_store [OF dur] by auto
  have "durable lower db' \<and> one_frame db db' \<and>
    (r = Inr () \<longrightarrow> (\<exists>t. table_new n sc = Inr t \<and> tables db' = (tables db)(key lower n \<mapsto> t))) \<and>
    (r \<noteq> Inr () \<longrightarrow> db' = db)"
  proof (cases "read_only db \<or> is_ok (table_new n sc) = False \<or> tables db (key lower n) \<noteq> None")
    case True
    then show ?thesis using res dur
      by (auto simp: create_table_def deny_if_read_only_def one_frame_def is_ok_def
          split: sum.splits if_splits)
  next
    case False
    then obtain t where t: "table_new n sc = Inr t" "\<not> read_only db" "tables db (key lower n) = None"
      by (auto simp: is_ok_def split: sum.splits)
    have nm: "tname t = n" using t(1) by (cases "validate sc") (auto simp: table_new_def)
    have wf: "catalog_wf lower ((tables db)(key lower n \<mapsto> t))"
      using catalog_wf_put [OF durable_wf [OF dur] table_wf_new [OF t(1)]] nm by (simp add: put_table_def)
    have app: "apply_record lower (tables db) (CreateTable n sc) =
        ((tables db)(key lower n \<mapsto> t), Inr ())"
      using t(1) nm by (simp add: apply_record_def put_table_def)
    from logged_record [OF dur s _ fits app wf lsn] obtain p where
      "log_record lower (db\<lparr>tables := (tables db)(key lower n \<mapsto> t)\<rparr>) (CreateTable n sc) =
        (db\<lparr>tables := (tables db)(key lower n \<mapsto> t),
            store := Some (s\<lparr>store_wal := fst (wal_append (store_wal s) p)\<rparr>)\<rparr>, Inr ())"
      "payload_small p"
      "durable lower (db\<lparr>tables := (tables db)(key lower n \<mapsto> t),
         store := Some (s\<lparr>store_wal := fst (wal_append (store_wal s) p)\<rparr>)\<rparr>)"
      by auto
    with t s res show ?thesis
      by (auto simp: create_table_def deny_if_read_only_def one_frame_def)
  qed
  then show "durable lower db'" "one_frame db db'"
    "r = Inr () \<Longrightarrow> \<exists>t. table_new n sc = Inr t \<and> tables db' = (tables db)(key lower n \<mapsto> t)"
    "r \<noteq> Inr () \<Longrightarrow> db' = db" by auto
qed

lemma drop_table_step:
  assumes dur: "durable lower db" and fits: "payload_fits (schema_of lower (tables db)) (DropTable n)"
    and lsn: "lsn_left db"
    and res: "drop_table lower db n = (db', r)"
  shows "durable lower db' \<and> one_frame db db' \<and>
     (if r = Inr True then table_of lower (tables db) n \<noteq> None \<and> tables db' = (tables db)(key lower n := None)
      else tables db' = tables db)"
proof -
  obtain s where s: "store db = Some s" using durable_store [OF dur] by auto
  have gone: "db\<lparr>tables := tables db\<rparr> = db" by simp
  let ?m = "(tables db)(key lower n := None)"
  show ?thesis
  proof (cases "read_only db \<or> tables db (key lower n) = None")
    case True
    then have "?m = tables db \<or> read_only db" by auto
    with True show ?thesis using res dur
      by (auto simp: drop_table_def drop_table_inner_def deny_if_read_only_def one_frame_def gone
          split: sum.splits if_splits)
  next
    case False
    have wf: "catalog_wf lower ?m" using durable_wf [OF dur] by (rule catalog_wf_delete)
    have app: "apply_record lower (tables db) (DropTable n) = (?m, Inr ())"
      by (simp add: apply_record_def drop_table_inner_def)
    from logged_record [OF dur s _ fits app wf lsn] obtain p where
      "log_record lower (db\<lparr>tables := ?m\<rparr>) (DropTable n) =
        (db\<lparr>tables := ?m, store := Some (s\<lparr>store_wal := fst (wal_append (store_wal s) p)\<rparr>)\<rparr>, Inr ())"
      "payload_small p"
      "durable lower (db\<lparr>tables := ?m,
         store := Some (s\<lparr>store_wal := fst (wal_append (store_wal s) p)\<rparr>)\<rparr>)"
      by auto
    with False s res show ?thesis
      by (auto simp: drop_table_def drop_table_inner_def deny_if_read_only_def one_frame_def table_of_def)
  qed
qed

lemma insert_rows_step:
  assumes dur: "durable lower db" and fits: "op_fits lower db (Op_insert n rows)"
    and lsn: "lsn_left db"
    and res: "insert_rows lower order db n rows = (db', r)"
  shows "durable lower db'" and "one_frame db db'"
    and "r = Inr k \<Longrightarrow> k = length rows \<and>
      (\<exists>t t'. table_of lower (tables db) n = Some t \<and> tables db' = (tables db)(key lower n \<mapsto> t') \<and>
         tname t' = tname t \<and> tschema t' = tschema t \<and>
         (\<forall>old. table_rep t old \<longrightarrow> table_rep t' (old @ rows)))"
    and "r = Inl e \<Longrightarrow> db' = db"
proof -
  obtain s where s: "store db = Some s" using durable_store [OF dur] by auto
  have gone: "db\<lparr>tables := tables db\<rparr> = db" by simp
  let ?full = "0 < memory_limit db \<and> unat (memory_limit db) \<le> bytes_used order db"
  have "durable lower db' \<and> one_frame db db' \<and>
    (\<forall>k. r = Inr k \<longrightarrow> k = length rows \<and>
      (\<exists>t t'. table_of lower (tables db) n = Some t \<and> tables db' = (tables db)(key lower n \<mapsto> t') \<and>
         tname t' = tname t \<and> tschema t' = tschema t \<and>
         (\<forall>old. table_rep t old \<longrightarrow> table_rep t' (old @ rows)))) \<and>
    (\<forall>e. r = Inl e \<longrightarrow> db' = db)"
  proof (cases "read_only db \<or> ?full \<or> table_of lower (tables db) n = None")
    case True
    then show ?thesis using res dur
      by (auto simp: insert_rows_def insert_inner_def deny_if_read_only_def one_frame_def gone
          split: if_splits)
  next
    case False
    then obtain t where t: "table_of lower (tables db) n = Some t" by auto
    from fits t have fit: "batch_fits t rows"
      and pf: "payload_fits (schema_of lower (tables db)) (InsertRows n rows)"
      by auto
    have rows: "\<forall>r \<in> set rows. row_exact (sfields (tschema t)) r"
      using pf t by (auto simp: payload_fits_def record_exact_def schema_of_def)
    obtain t' where t': "insert_inner lower (tables db) n rows =
        ((tables db)(key lower n \<mapsto> t'), Inr (length rows))"
      "tname t' = tname t" "tschema t' = tschema t" "table_wf t'"
      "\<And>old. table_rep t old \<Longrightarrow> table_rep t' (old @ rows)"
      using insert_inner_exact [OF durable_wf [OF dur] t rows fit] by blast
    let ?m = "(tables db)(key lower n \<mapsto> t')"
    have so: "schema_of lower ?m = schema_of lower (tables db)"
      using t t'(3) by (auto simp: schema_of_def table_of_def fun_eq_iff)
    have wf: "catalog_wf lower ?m"
      using catalog_wf_update [OF durable_wf [OF dur] t'(4)] t'(2) catalog_wfD [OF durable_wf [OF dur] t]
      by simp
    have app: "apply_record lower (tables db) (InsertRows n rows) = (?m, Inr ())"
      using t'(1) by (simp add: apply_record_def)
    from logged_record [OF dur s _ pf app wf lsn] so obtain p where
      "log_record lower (db\<lparr>tables := ?m\<rparr>) (InsertRows n rows) =
        (db\<lparr>tables := ?m, store := Some (s\<lparr>store_wal := fst (wal_append (store_wal s) p)\<rparr>)\<rparr>, Inr ())"
      "payload_small p"
      "durable lower (db\<lparr>tables := ?m,
         store := Some (s\<lparr>store_wal := fst (wal_append (store_wal s) p)\<rparr>)\<rparr>)"
      by auto
    with False s t t' res show ?thesis
      by (auto simp: insert_rows_def deny_if_read_only_def intro!: exI [of _ t'] one_frameI [of db s p])
  qed
  then show "durable lower db'" "one_frame db db'"
    "r = Inr k \<Longrightarrow> k = length rows \<and>
      (\<exists>t t'. table_of lower (tables db) n = Some t \<and> tables db' = (tables db)(key lower n \<mapsto> t') \<and>
         tname t' = tname t \<and> tschema t' = tschema t \<and>
         (\<forall>old. table_rep t old \<longrightarrow> table_rep t' (old @ rows)))"
    "r = Inl e \<Longrightarrow> db' = db" by auto
qed

lemma run_op_durable:
  assumes "lists_keys order" and dur: "durable lower db" and ok: "op_ok lower db oper"
  shows "durable lower (run_op lower order db oper)"
proof (cases oper)
  case (Op_create n s)
  with ok show ?thesis
    by (cases "create_table lower db n s") (auto simp: op_ok_def intro: create_table_step(1) [OF dur])
next
  case (Op_drop n)
  with ok show ?thesis
    by (cases "drop_table lower db n") (auto simp: op_ok_def dest: drop_table_step [OF dur])
next
  case (Op_insert n rows)
  with ok show ?thesis
    by (cases "insert_rows lower order db n rows")
      (auto simp: op_ok_def simp del: op_fits.simps intro: insert_rows_step(1) [OF dur])
next
  case Op_snapshot
  with durable_snapshot [OF dur assms(1)] ok show ?thesis by (simp add: op_ok_def)
qed (use dur in \<open>simp_all add: set_read_only_def set_memory_limit_def\<close>)

section \<open>The contract of a recoverable store\<close>

text \<open>
  \<open>step s x\<close> is the state after the operation \<open>x\<close>, \<open>legal\<close> its side condition; \<open>image s\<close> what is on
  disk between operations, \<open>crashes s x\<close> what a crash during \<open>x\<close> can leave there; \<open>recover\<close> opens
  a disk, and \<open>view\<close> is the content a client sees.
\<close>

locale recoverable =
  fixes step :: "'s \<Rightarrow> 'o \<Rightarrow> 's" and legal :: "'s \<Rightarrow> 'o \<Rightarrow> bool" and inv :: "'s \<Rightarrow> bool"
    and view :: "'s \<Rightarrow> 'v" and image :: "'s \<Rightarrow> 'd" and crashes :: "'s \<Rightarrow> 'o \<Rightarrow> 'd set"
    and recover :: "'d \<Rightarrow> 'v option"
  assumes step_inv: "inv s \<Longrightarrow> legal s x \<Longrightarrow> inv (step s x)"
    and recover_image: "inv s \<Longrightarrow> recover (image s) = Some (view s)"
    and recover_crash: "inv s \<Longrightarrow> legal s x \<Longrightarrow> d \<in> crashes s x \<Longrightarrow>
      recover d = Some (view s) \<or> recover d = Some (view (step s x))"
begin

fun legal_run :: "'s \<Rightarrow> 'o list \<Rightarrow> bool" where
  "legal_run s [] \<longleftrightarrow> True"
| "legal_run s (x # xs) \<longleftrightarrow> legal s x \<and> legal_run (step s x) xs"

lemma run_inv: "inv s \<Longrightarrow> legal_run s xs \<Longrightarrow> inv (foldl step s xs)"
  by (induction xs arbitrary: s) (auto intro: step_inv)

lemma legal_run_append:
  "legal_run s (xs @ ys) \<longleftrightarrow> legal_run s xs \<and> legal_run (foldl step s xs) ys"
  by (induction xs arbitrary: s) auto

lemma recover_run: "inv s \<Longrightarrow> legal_run s xs \<Longrightarrow> recover (image (foldl step s xs)) = Some (view (foldl step s xs))"
  by (rule recover_image) (rule run_inv)

text \<open>A crash during the last operation of a run: all of the run, or all but that operation.\<close>

lemma recover_crash_run:
  "inv s \<Longrightarrow> legal_run s (xs @ [x]) \<Longrightarrow> d \<in> crashes (foldl step s xs) x \<Longrightarrow>
   recover d = Some (view (foldl step s xs)) \<or> recover d = Some (view (foldl step s (xs @ [x])))"
  using recover_crash [OF run_inv] by (auto simp: legal_run_append)

end

section \<open>Crashes\<close>

text \<open>
  A change appends to the WAL, so a crash leaves the old file and a prefix of what was being
  appended. A snapshot first replaces the snapshot file, then truncates the WAL to nothing and
  writes its header again.
\<close>

definition write_crashes :: "database \<Rightarrow> database \<Rightarrow> disk set" where
  "write_crashes db db' =
     (\<lambda>n. (disk_of db)\<lparr>wal_file := take n (wal_file (disk_of db'))\<rparr>) `
       {length (wal_file (disk_of db)) .. length (wal_file (disk_of db'))}"

definition snapshot_crashes :: "(rstr set \<Rightarrow> rstr list) \<Rightarrow> database \<Rightarrow> disk set" where
  "snapshot_crashes order db =
     (let ts = values_of order (tables db); lsn = next_lsn db - 1;
          renamed = write_snapshot (disk_of db) ts lsn
      in set (snapshot_states (disk_of db) ts lsn) \<union>
         (\<lambda>k. renamed\<lparr>wal_file := take k wal_header\<rparr>) ` {0 .. length wal_header})"

definition op_crashes ::
  "(rstr \<Rightarrow> rstr) \<Rightarrow> (rstr set \<Rightarrow> rstr list) \<Rightarrow> database \<Rightarrow> op \<Rightarrow> disk set" where
  "op_crashes lower order db oper =
     (if oper = Op_snapshot then snapshot_crashes order db
      else write_crashes db (run_op lower order db oper))"

text \<open>The one torn state that does not open: a WAL whose header was being written.\<close>

definition torn_header :: "disk \<Rightarrow> bool" where
  "torn_header d \<longleftrightarrow> 0 < length (wal_file d) \<and> length (wal_file d) < length wal_header"

definition recovered :: "(rstr \<Rightarrow> rstr) \<Rightarrow> disk \<Rightarrow> catalog option" where
  "recovered lower d =
     (case db_open lower Buffered d of Inl _ \<Rightarrow> None | Inr db \<Rightarrow> Some (tables db))"

lemma db_open_durability:
  "db_open lower d dsk =
     map_sum id (\<lambda>db. db\<lparr>store := map_option (\<lambda>s. s\<lparr>store_wal := (store_wal s)\<lparr>wdurability := d\<rparr>\<rparr>) (store db)\<rparr>)
       (db_open lower Buffered dsk)"
  by (cases "load_base lower (snapshot_file dsk)")
    (auto simp: db_open_def wal_open_def Let_def split: prod.splits sum.splits if_splits
      simp: and_then_def)

lemma recovered_durability:
  "recovered lower dsk = (case db_open lower d dsk of Inl _ \<Rightarrow> None | Inr db \<Rightarrow> Some (tables db))"
  unfolding recovered_def db_open_durability [of lower d dsk]
  by (cases "db_open lower Buffered dsk") auto

lemma recovered_tmp [simp]: "recovered lower (d\<lparr>tmp_file := t\<rparr>) = recovered lower d"
  by (simp add: recovered_def db_open_def)

lemma recovered_image: "durable lower db \<Longrightarrow> recovered lower (disk_of db) = Some (tables db)"
  using durable_open [of lower db Buffered] by (auto simp: recovered_def)

lemma wal_file_frame:
  "store db' = Some (s\<lparr>store_wal := fst (wal_append (store_wal s) p)\<rparr>) \<Longrightarrow>
   wal_file (disk_of db') = wfile (store_wal s) @ frame (wnext (store_wal s)) p"
  by (simp add: disk_of_def wal_append_def)

lemma recovered_wal_prefix:
  assumes dur: "durable lower db" and s: "store db = Some s" and p: "payload_small p"
    and k: "k < length (frame l p)"
  shows "recovered lower ((disk_of db)\<lparr>wal_file := wfile (store_wal s) @ take k (frame l p)\<rparr>) =
    Some (tables db)"
proof -
  from dur s obtain rs first m b where "durable_as lower db s rs first m b" by (rule durableE)
  then have d: "wal_rep (store_wal s) rs"
    "load_base lower (store_snapshot s) = Inr (m, b)" "replay lower b m rs = Inr (tables db)"
    by (auto simp: durable_as_def)
  have "wal_open (wfile (store_wal s) @ take k (frame l p)) Buffered =
      Inr (\<lparr>wfile = wal_header @ frames rs, wnext = next_after rs, wdurability = Buffered\<rparr>, rs)"
    using d(1) wal_open_tail [OF _ scan_torn_frame [OF p k]] by (simp add: wal_rep_def)
  with d s show ?thesis by (simp add: recovered_def db_open_def disk_of_def)
qed

lemma recovered_write_crash:
  assumes dur: "durable lower db" and dur': "durable lower db'" and one: "one_frame db db'"
    and d: "d \<in> write_crashes db db'"
  shows "recovered lower d = Some (tables db) \<or> recovered lower d = Some (tables db')"
proof (cases "store db' = store db")
  case True
  then have "disk_of db' = disk_of db" by (simp add: disk_of_def)
  with d have "d = disk_of db" by (auto simp: write_crashes_def)
  then show ?thesis using recovered_image [OF dur] by simp
next
  case False
  with one obtain s p where sp: "store db = Some s" "payload_small p"
    "store db' = Some (s\<lparr>store_wal := fst (wal_append (store_wal s) p)\<rparr>)"
    by (auto simp: one_frame_def)
  let ?f = "frame (wnext (store_wal s)) p" and ?w = "wfile (store_wal s)"
  have w: "wal_file (disk_of db) = ?w" "wal_file (disk_of db') = ?w @ ?f"
    using sp by (simp_all add: disk_of_def wal_append_def)
  from d obtain n where n: "length ?w \<le> n" "n \<le> length ?w + length ?f"
    "d = (disk_of db)\<lparr>wal_file := take n (?w @ ?f)\<rparr>"
    unfolding write_crashes_def w by auto
  then have t: "take n (?w @ ?f) = ?w @ take (n - length ?w) ?f" by simp
  show ?thesis
  proof (cases "n = length ?w + length ?f")
    case True
    then have "d = disk_of db'" using n(3) sp by (simp add: disk_of_def wal_append_def)
    then show ?thesis using recovered_image [OF dur'] by simp
  next
    case False
    then have "n - length ?w < length ?f" using n by simp
    from recovered_wal_prefix [OF dur sp(1,2) this] n(3) t show ?thesis by simp
  qed
qed

lemma recovered_renamed:
  assumes ord: "lists_keys order" and dur: "durable lower db" and small: "catalog_small (tables db)"
    and s: "store db = Some s"
    and w: "wal_open file Buffered = Inr (w', rs)" and old: "\<forall>(l, p) \<in> set rs. l \<le> next_lsn db - 1"
  shows "recovered lower ((write_snapshot (disk_of db) (values_of order (tables db)) (next_lsn db - 1))
      \<lparr>wal_file := file\<rparr>) = Some (tables db)"
  using w decode_encode_snapshot [OF snapshot_ok_values [OF ord durable_wf [OF dur] small]]
    load_tables_values [OF ord durable_wf [OF dur]] replay_skipped [OF old]
  by (simp add: recovered_def db_open_def write_snapshot_def load_base_def read_snapshot_def)


lemma wal_open_header_prefix:
  "wal_open (take k wal_header) d =
     (if k = 0 \<or> 12 \<le> k then Inr (\<lparr>wfile = wal_header, wnext = 1, wdurability = d\<rparr>, [])
      else Inl Not_a_wal)"
  using wal_open_header [of "[]" d] by (auto simp: wal_open_empty) (simp add: wal_open_def)

lemma recovered_torn_header:
  assumes "torn_header d" and "load_base lower (snapshot_file d) = Inr (m, b)"
  shows "db_open lower dur d = Inl Not_a_wal"
  using assms by (auto simp: torn_header_def db_open_def wal_open_def)

lemma durable_old_records:
  assumes d: "durable_as lower db s rs first m b"
  shows "\<forall>(l, p) \<in> set rs. l \<le> next_lsn db - 1"
proof (clarify)
  fix l p assume "(l, p) \<in> set rs"
  with durable_below [OF d] have "l < wnext (store_wal s)" by auto
  moreover from this have "wnext (store_wal s) \<noteq> 0" by auto
  ultimately have "l \<le> wnext (store_wal s) - 1"
    by (auto simp: word_less_nat_alt word_le_nat_alt unat_minus_one)
  with d show "l \<le> next_lsn db - 1" by (simp add: durable_as_def next_lsn_def)
qed

lemma recovered_snapshot_crash:
  assumes ord: "lists_keys order" and dur: "durable lower db" and small: "catalog_small (tables db)"
    and d: "d \<in> snapshot_crashes order db" and ok: "\<not> torn_header d"
  shows "recovered lower d = Some (tables db)"
proof -
  obtain s where s: "store db = Some s" using durable_store [OF dur] by auto
  from dur s obtain rs first m b where as: "durable_as lower db s rs first m b" by (rule durableE)
  let ?r = "write_snapshot (disk_of db) (values_of order (tables db)) (next_lsn db - 1)"
  note renamed = recovered_renamed [OF ord dur small s]
  have "wal_rep (store_wal s) rs" using as by (simp add: durable_as_def)
  from renamed [OF wal_open_rep [OF this] durable_old_records [OF as]]
  have all: "recovered lower ?r = Some (tables db)"
    using s by (simp add: disk_of_def write_snapshot_def)
  from d consider "d = disk_of db" | k where "d = (disk_of db)\<lparr>tmp_file := k\<rparr>" | "d = ?r"
    | k where "d = ?r\<lparr>wal_file := take k wal_header\<rparr>" "k \<le> 12"
    by (auto simp: snapshot_crashes_def snapshot_states_def Let_def)
  then show ?thesis
  proof cases
    case 4
    with ok have "k = 0 \<or> 12 \<le> k" by (auto simp: torn_header_def)
    then have "wal_open (take k wal_header) Buffered =
        Inr (\<lparr>wfile = wal_header, wnext = 1, wdurability = Buffered\<rparr>, [])"
      by (simp add: wal_open_header_prefix)
    from renamed [OF this] 4 show ?thesis by simp
  qed (use all recovered_image [OF dur] in simp_all)
qed

lemma run_op_one_frame:
  assumes dur: "durable lower db" and ok: "op_ok lower db oper" and "oper \<noteq> Op_snapshot"
  shows "one_frame db (run_op lower order db oper)"
proof (cases oper)
  case (Op_create n s)
  with ok show ?thesis
    by (cases "create_table lower db n s") (auto simp: op_ok_def intro: create_table_step(2) [OF dur])
next
  case (Op_drop n)
  with ok show ?thesis
    by (cases "drop_table lower db n") (auto simp: op_ok_def dest: drop_table_step [OF dur])
next
  case (Op_insert n rows)
  with ok show ?thesis
    by (cases "insert_rows lower order db n rows")
      (auto simp: op_ok_def simp del: op_fits.simps intro: insert_rows_step(2) [OF dur])
qed (use assms(3) in \<open>simp_all add: set_read_only_def set_memory_limit_def one_frame_def\<close>)

lemma snapshot_tables [simp]: "tables (fst (db_snapshot order db)) = tables db"
  by (simp add: db_snapshot_def Let_def split: option.splits)

section \<open>The database is recoverable\<close>

text \<open>The contract holds for the parameters that list the keys of a hash map once each.\<close>

definition db_step :: "(rstr \<Rightarrow> rstr) \<Rightarrow> (rstr set \<Rightarrow> rstr list) \<Rightarrow> database \<Rightarrow> op \<Rightarrow> database" where
  "db_step lower order db oper = (if lists_keys order then run_op lower order db oper else db)"

definition db_crashes :: "(rstr \<Rightarrow> rstr) \<Rightarrow> (rstr set \<Rightarrow> rstr list) \<Rightarrow> database \<Rightarrow> op \<Rightarrow> disk set" where
  "db_crashes lower order db oper =
     (if lists_keys order then {d \<in> op_crashes lower order db oper. \<not> torn_header d} else {disk_of db})"

interpretation dbr: recoverable "db_step lower order" "op_ok lower" "durable lower" tables disk_of
  "db_crashes lower order" "recovered lower" for lower order
proof unfold_locales
  fix s x assume s: "durable lower s" and x: "op_ok lower s x"
  show "durable lower (db_step lower order s x)"
    using run_op_durable [OF _ s x] s by (simp add: db_step_def)
  fix d assume d: "d \<in> db_crashes lower order s x"
  show "recovered lower d = Some (tables s) \<or> recovered lower d = Some (tables (db_step lower order s x))"
  proof (cases "lists_keys order \<and> x \<noteq> Op_snapshot")
    case True
    with d have "d \<in> write_crashes s (run_op lower order s x)"
      by (auto simp: db_crashes_def op_crashes_def)
    from recovered_write_crash [OF s _ run_op_one_frame [OF s x] this] run_op_durable [OF _ s x] True
    show ?thesis by (simp add: db_step_def)
  next
    case False
    with d x recovered_snapshot_crash [OF _ s] recovered_image [OF s] show ?thesis
      by (auto simp: db_crashes_def op_crashes_def op_ok_def split: if_splits)
  qed
qed (rule recovered_image)

text \<open>Whether each operation of a run meets its side condition.\<close>

fun ops_ok :: "(rstr \<Rightarrow> rstr) \<Rightarrow> (rstr set \<Rightarrow> rstr list) \<Rightarrow> database \<Rightarrow> op list \<Rightarrow> bool" where
  "ops_ok lower order db [] \<longleftrightarrow> True"
| "ops_ok lower order db (x # xs) \<longleftrightarrow>
     op_ok lower db x \<and> ops_ok lower order (run_op lower order db x) xs"

lemma ops_ok_legal:
  "lists_keys order \<Longrightarrow> dbr.legal_run lower order db xs = ops_ok lower order db xs"
  by (induction xs arbitrary: db) (auto simp: db_step_def)

lemma db_step_run [simp]: "lists_keys order \<Longrightarrow> db_step lower order = run_op lower order"
  by (simp add: db_step_def fun_eq_iff)

section \<open>A small database for the examples\<close>

definition demo_db :: database where
  "demo_db = \<lparr>tables = (\<lambda>_. None),
     store = Some \<lparr>store_snapshot = None,
       store_wal = \<lparr>wfile = wal_header, wnext = 1, wdurability = Fsync\<rparr>\<rparr>,
     read_only = False, memory_limit = 0\<rparr>"

definition demo_schema :: schema where
  "demo_schema = \<lparr>sfields = [\<lparr>fname = str ''id'', fty = DT_I64\<rparr>, \<lparr>fname = str ''name'', fty = DT_Str\<rparr>]\<rparr>"

definition demo_table :: table where
  "demo_table = \<lparr>tname = str ''t'', tschema = demo_schema,
     columns = [C_I64 [], C_Str str_new], nrows = 0\<rparr>"

definition demo_row :: "rvalue list" where
  "demo_row = [V_I64 7, V_Str (str ''ab'')]"

definition demo_order :: "rstr set \<Rightarrow> rstr list" where
  "demo_order = sorted_list_of_set"

lemma demo_order_keys: "lists_keys demo_order"
  by (simp add: lists_keys_def demo_order_def)

lemma demo_db_fresh: "db_open lower Fsync fresh_disk = Inr demo_db"
  by (simp add: db_open_def fresh_disk_def load_base_def wal_open_empty demo_db_def)

lemma demo_db_durable: "durable lower demo_db"
  using durable_fresh [of lower Fsync] demo_db_fresh [of lower] by auto

lemma demo_table_new: "table_new (str ''t'') demo_schema = Inr demo_table"
  by code_simp

lemma demo_create_fits: "payload_fits so (CreateTable (str ''t'') demo_schema)"
proof -
  have "record_exact so (CreateTable (str ''t'') demo_schema)"
    by (simp add: record_exact_def) code_simp
  moreover have "length (w_u8 1 @ w_str (str ''t'') @ w_schema demo_schema) < 2 ^ 32"
    by code_simp
  ultimately show ?thesis by (simp add: payload_fits_def payload_small_def wal_encode_def)
qed


definition demo_ops :: "op list" where
  "demo_ops = [Op_create (str ''t'') demo_schema, Op_insert (str ''t'') [demo_row], Op_snapshot]"

definition demo_filled :: table where
  "demo_filled = fst (insert_many demo_table [demo_row])"

abbreviation demo_created :: database where
  "demo_created \<equiv> fst (create_table to_ascii_lowercase demo_db (str ''t'') demo_schema)"

abbreviation demo_inserted :: database where
  "demo_inserted \<equiv> fst (insert_rows to_ascii_lowercase demo_order demo_created (str ''t'') [demo_row])"

lemma demo_key: "to_ascii_lowercase (str ''t'') = str ''t''"
  by code_simp

lemma demo_created_tables: "tables demo_created = [str ''t'' \<mapsto> demo_table]"
  and demo_created_lsn: "next_lsn demo_created = 2"
  and demo_created_rest: "\<not> read_only demo_created" "memory_limit demo_created = 0"
  and demo_created_ok: "snd (create_table to_ascii_lowercase demo_db (str ''t'') demo_schema) = Inr ()"
  by (simp_all add: create_table_def demo_db_def deny_if_read_only_def demo_table_new key_def demo_key
      log_record_def wal_encode_def wal_append_def next_lsn_def)

lemma demo_table_fits: "batch_fits demo_table [demo_row]"
  by code_simp

lemma demo_insert_many: "insert_many demo_table [demo_row] = (demo_filled, Inr 1)"
proof -
  have "snd (insert_many demo_table [demo_row]) = Inr 1" by code_simp
  then show ?thesis by (simp add: demo_filled_def prod_eq_iff)
qed

lemma demo_filled_small: "table_small demo_filled"
  by code_simp

lemma demo_schema_of: "schema_of to_ascii_lowercase (tables demo_created) (str ''t'') = Some demo_schema"
  by (simp add: schema_of_def table_of_def demo_created_tables key_def demo_key) code_simp

lemma demo_insert_fits: "payload_fits (schema_of to_ascii_lowercase (tables demo_created))
    (InsertRows (str ''t'') [demo_row])"
proof -
  have ex: "row_exact (sfields demo_schema) demo_row" by code_simp
  have "record_exact (schema_of to_ascii_lowercase (tables demo_created)) (InsertRows (str ''t'') [demo_row])"
    using ex by (simp add: record_exact_def demo_schema_of) code_simp
  moreover have "case encode_row demo_schema demo_row of Inl _ \<Rightarrow> True
     | Inr b \<Rightarrow> length (w_u8 3 @ w_str (str ''t'') @ w_u64 1 @ b) < 2 ^ 32"
    by code_simp
  ultimately show ?thesis
    by (auto simp: payload_fits_def payload_small_def wal_encode_def demo_schema_of and_then_def
        split: sum.splits)
qed

lemma demo_filled_schema: "tname demo_filled = str ''t''" "tschema demo_filled = demo_schema"
  by code_simp+

lemma demo_row_encodes: "encode_row demo_schema demo_row = Inr (concat (map w_value demo_row))"
  by (simp add: encode_row_def demo_schema_def demo_row_def schema_len_def)

lemma demo_inner: "insert_inner to_ascii_lowercase (tables demo_created) (str ''t'') [demo_row] =
    ([str ''t'' \<mapsto> demo_filled], Inr 1)"
  by (simp add: insert_inner_def table_of_def key_def demo_key demo_created_tables demo_insert_many)

lemma demo_created_store: "\<exists>s. store demo_created = Some s \<and> wnext (store_wal s) = 2"
  using demo_created_lsn by (auto simp: next_lsn_def split: option.splits)

lemma demo_log:
  assumes "store demo_created = Some s"
  shows "log_record to_ascii_lowercase (demo_created\<lparr>tables := [str ''t'' \<mapsto> demo_filled]\<rparr>)
      (InsertRows (str ''t'') [demo_row]) =
    (demo_created\<lparr>tables := [str ''t'' \<mapsto> demo_filled],
       store := Some (s\<lparr>store_wal := fst (wal_append (store_wal s)
         (w_u8 3 @ w_str (str ''t'') @ w_u64 1 @ concat (map w_value demo_row)))\<rparr>)\<rparr>, Inr ())"
  using assms
  by (simp add: log_record_def wal_encode_def schema_of_def table_of_def key_def demo_key
      demo_filled_schema demo_row_encodes)

lemma demo_inserted: "tables demo_inserted = [str ''t'' \<mapsto> demo_filled] \<and> next_lsn demo_inserted = 3"
proof -
  obtain s where s: "store demo_created = Some s" "wnext (store_wal s) = 2"
    using demo_created_store by blast
  from s demo_log [OF s(1)] demo_inner demo_created_rest show ?thesis
    by (simp add: insert_rows_def deny_if_read_only_def next_lsn_def wal_append_def)
qed

lemma demo_ops_ok: "ops_ok to_ascii_lowercase demo_order demo_db demo_ops"
proof -
  have "op_ok to_ascii_lowercase demo_db (Op_create (str ''t'') demo_schema)"
    using demo_create_fits by (simp add: op_ok_def lsn_left_def next_lsn_def demo_db_def)
  moreover have "op_ok to_ascii_lowercase demo_created (Op_insert (str ''t'') [demo_row])"
    using demo_insert_fits demo_table_fits
    by (simp add: op_ok_def lsn_left_def demo_created_lsn)
      (simp add: table_of_def key_def demo_key demo_created_tables)
  moreover have "op_ok to_ascii_lowercase demo_inserted Op_snapshot"
    using demo_inserted demo_filled_small by (simp add: op_ok_def lsn_left_def catalog_small_def)
  ultimately show ?thesis by (simp add: demo_ops_def)
qed

section \<open>A restart after a snapshot\<close>

text \<open>
  The WAL is empty after a snapshot, and \<open>Wal::open\<close> numbers an empty WAL from 1 again, whatever
  the LSN of the snapshot is. \<open>restarted\<close> is the state in which the process comes up.
\<close>

lemma open_after_snapshot:
  assumes "lists_keys order" and "durable lower db" and "catalog_small (tables db)"
    and s: "store db = Some s"
  shows "db_open lower d (disk_of (fst (db_snapshot order db))) =
     Inr \<lparr>tables = tables db,
          store = Some \<lparr>store_snapshot = Some (encode_snapshot (values_of order (tables db)) (next_lsn db - 1)),
                        store_wal = \<lparr>wfile = wal_header, wnext = 1, wdurability = d\<rparr>\<rparr>,
          read_only = False, memory_limit = 0\<rparr>"
  using durable_open_as [OF durable_snapshot_as [OF assms(2,1,3) s], of d]
  by (simp add: wal_reset_def)

text \<open>A record appended in that state carries an LSN that the next start skips.\<close>

lemma reopen_skips:
  assumes base: "load_base lower snap = Inr (m, b)" and b: "1 \<le> b" and p: "payload_small p"
  shows "db_open lower d \<lparr>snapshot_file = snap, tmp_file = None, wal_file = wal_header @ frame 1 p\<rparr> =
     Inr \<lparr>tables = m, store = Some \<lparr>store_snapshot = snap,
            store_wal = \<lparr>wfile = wal_header @ frame 1 p, wnext = 2, wdurability = d\<rparr>\<rparr>,
          read_only = False, memory_limit = 0\<rparr>"
  using wal_open_tail [of "[(1, p)]" "[]" d] p b base by (simp add: db_open_def next_after_def)

section \<open>Truncated and damaged logs\<close>

text \<open>How many of the records lie within the first \<open>k\<close> bytes of their frames.\<close>

fun whole_frames :: "nat \<Rightarrow> raw_record list \<Rightarrow> nat" where
  "whole_frames k [] = 0"
| "whole_frames k ((l, p) # rs) =
     (if k < length (frame l p) then 0 else Suc (whole_frames (k - length (frame l p)) rs))"

lemma scan_truncated:
  "\<forall>(l, p) \<in> set rs. payload_small p \<Longrightarrow>
   scan_frames (take k (frames rs)) =
     (take (whole_frames k rs) rs, length (frames (take (whole_frames k rs) rs)))"
proof (induction k rs rule: whole_frames.induct)
  case (2 k l p rs)
  show ?case
  proof (cases "k < length (frame l p)")
    case True
    with 2 show ?thesis by (simp add: scan_torn_frame)
  next
    case False
    with 2 show ?thesis by (simp add: scan_frame)
  qed
qed simp

lemma frames_take: "frames (take j rs) = take (length (frames (take j rs))) (frames rs)"
proof -
  have "frames rs = frames (take j rs) @ frames (drop j rs)" by (simp flip: frames_simps(3))
  then show ?thesis by (metis append_eq_conv_conj)
qed

lemma whole_frames_fit: "length (frames (take (whole_frames k rs) rs)) \<le> k"
  by (induction k rs rule: whole_frames.induct) auto

lemma wal_open_truncated:
  assumes "\<forall>(l, p) \<in> set rs. payload_small p" and "12 \<le> k"
  shows "wal_open (take k (wal_header @ frames rs)) d =
     (let kept = take (whole_frames (k - 12) rs) rs in
      Inr (\<lparr>wfile = wal_header @ frames kept, wnext = next_after kept, wdurability = d\<rparr>, kept))"
proof -
  have "take (length (frames (take (whole_frames (k - 12) rs) rs))) (take (k - 12) (frames rs)) =
      frames (take (whole_frames (k - 12) rs) rs)"
    using frames_take [of "whole_frames (k - 12) rs" rs] whole_frames_fit [of "k - 12" rs]
    by (simp add: min_def)
  with assms show ?thesis by (simp add: wal_open_header scan_truncated Let_def)
qed

lemma replay_prefix: "replay lower b m (xs @ ys) = Inr m' \<Longrightarrow> \<exists>m''. replay lower b m xs = Inr m''"
  by (cases "replay lower b m xs") (simp_all add: replay_append)

section \<open>Properties\<close>

text \<open>C1: a restart loses nothing. From any database that is durable (a freshly opened empty
  directory is), after any run of creations, drops, insertions, snapshots and settings, accepted
  or refused, opening the data directory succeeds and gives exactly the tables that were in
  memory. The operations must fit the formats: names and payloads within the length fields, rows
  of exactly the column types, LSNs left.\<close>

theorem reopen_after_run:
  assumes "lists_keys order" and "durable lower db" and "ops_ok lower order db ops"
  shows "\<exists>db'. db_open lower d (disk_of (foldl (run_op lower order) db ops)) = Inr db' \<and>
     tables db' = tables (foldl (run_op lower order) db ops)"
proof -
  have "dbr.legal_run lower order db ops" using assms by (simp only: ops_ok_legal)
  from dbr.recover_run [OF assms(2) this] assms(1) show ?thesis
    by (auto simp: recovered_durability [of lower _ d] split: sum.splits)
qed

theorem reopen_after_run_witness:
  "\<exists>db'. db_open to_ascii_lowercase Fsync (disk_of (foldl (run_op to_ascii_lowercase demo_order) demo_db demo_ops)) = Inr db' \<and>
     tables db' = tables (foldl (run_op to_ascii_lowercase demo_order) demo_db demo_ops)"
  by (rule reopen_after_run [OF demo_order_keys demo_db_durable demo_ops_ok])

text \<open>C2: a crash loses at most the operation under way. Whatever a crash during the last
  operation of a run leaves on disk - a frame cut short anywhere, a temporary snapshot, a renamed
  snapshot beside the old WAL or an emptied one - opens to the tables before or after that
  operation, except for a WAL whose twelve-byte header is cut short.\<close>

theorem crash_recovers:
  assumes "lists_keys order" and "durable lower db" and "ops_ok lower order db (ops @ [x])"
    and "crash \<in> op_crashes lower order (foldl (run_op lower order) db ops) x"
    and "\<not> torn_header crash"
  shows "recovered lower crash = Some (tables (foldl (run_op lower order) db ops)) \<or>
     recovered lower crash = Some (tables (foldl (run_op lower order) db (ops @ [x])))"
proof -
  have "dbr.legal_run lower order db (ops @ [x])" using assms by (simp only: ops_ok_legal)
  from dbr.recover_crash_run [OF assms(2) this, of crash] assms(1,4,5) show ?thesis
    by (simp add: db_crashes_def)
qed

lemma demo_created_file:
  "wal_file (disk_of demo_created) = wal_header @ frame 1 (w_u8 1 @ w_str (str ''t'') @ w_schema demo_schema)"
  by (simp add: create_table_def demo_db_def deny_if_read_only_def demo_table_new key_def demo_key
      log_record_def wal_encode_def wal_append_def disk_of_def)

lemma demo_torn_frame:
  "(disk_of demo_db)\<lparr>wal_file := take 17 (wal_file (disk_of demo_created))\<rparr> \<in>
     op_crashes to_ascii_lowercase demo_order demo_db (Op_create (str ''t'') demo_schema)"
  unfolding op_crashes_def write_crashes_def
  by (simp, rule imageI) (simp add: demo_created_file length_frame frame_header_def, simp add: disk_of_def demo_db_def)

theorem crash_recovers_witness:
  "let crash = (disk_of demo_db)\<lparr>wal_file := take 17 (wal_file (disk_of demo_created))\<rparr>
   in recovered to_ascii_lowercase crash =
        Some (tables (foldl (run_op to_ascii_lowercase demo_order) demo_db [])) \<or>
      recovered to_ascii_lowercase crash =
        Some (tables (foldl (run_op to_ascii_lowercase demo_order) demo_db
          ([] @ [Op_create (str ''t'') demo_schema])))"
  unfolding Let_def
proof (rule crash_recovers [OF demo_order_keys demo_db_durable])
  show "ops_ok to_ascii_lowercase demo_order demo_db ([] @ [Op_create (str ''t'') demo_schema])"
    using demo_ops_ok by (simp add: demo_ops_def)
qed (use demo_torn_frame in \<open>simp_all add: torn_header_def demo_created_file length_frame frame_header_def\<close>)

text \<open>C11: after a snapshot and a restart, an acknowledged write is lost at the next restart. The
  WAL of the restarted process numbers its records from 1 again although the snapshot carries a
  higher LSN, so the record is skipped as already contained in the snapshot.\<close>

theorem write_after_snapshot_restart_lost:
  assumes "lists_keys order" and "durable lower db" and "catalog_small (tables db)"
    and "2 \<le> next_lsn db"
    and "db_open lower d (disk_of (fst (db_snapshot order db))) = Inr db2"
    and "payload_fits (schema_of lower (tables db2)) (CreateTable n sc)"
    and "create_table lower db2 n sc = (db3, Inr ())"
  shows "table_of lower (tables db3) n \<noteq> None \<and>
     (\<exists>db4. db_open lower d (disk_of db3) = Inr db4 \<and> tables db4 = tables db \<and>
        table_of lower (tables db4) n = None)"
proof -
  obtain s where s: "store db = Some s" using durable_store [OF assms(2)] by auto
  let ?snap = "Some (encode_snapshot (values_of order (tables db)) (next_lsn db - 1))"
  have db2: "db2 = \<lparr>tables = tables db,
          store = Some \<lparr>store_snapshot = ?snap, store_wal = \<lparr>wfile = wal_header, wnext = 1, wdurability = d\<rparr>\<rparr>,
          read_only = False, memory_limit = 0\<rparr>"
    using open_after_snapshot [OF assms(1-3) s, of d] assms(5) by simp
  from assms(7) obtain t where t: "table_new n sc = Inr t" "tables db2 (key lower n) = None"
    by (auto simp: create_table_def deny_if_read_only_def split: sum.splits if_splits)
  obtain p where p: "wal_encode (schema_of lower (tables db2)) (CreateTable n sc) = Inr p" "payload_small p"
    using assms(6) record_roundtrip unfolding payload_fits_def by blast
  have db3: "tables db3 = (tables db)(key lower n \<mapsto> t)" "disk_of db3 =
      \<lparr>snapshot_file = ?snap, tmp_file = None, wal_file = wal_header @ frame 1 p\<rparr>"
    using assms(7) t p(1) unfolding db2
    by (auto simp: create_table_def deny_if_read_only_def log_record_def wal_encode_def disk_of_def
        wal_append_def)
  have "load_base lower ?snap = Inr (tables db, next_lsn db - 1)"
    using durable_snapshot_as [OF assms(2,1,3) s] by (simp add: durable_as_def)
  moreover have "1 \<le> next_lsn db - 1"
  proof -
    from assms(4) have "next_lsn db \<noteq> 0" by auto
    with assms(4) show ?thesis by (simp add: word_le_nat_alt unat_minus_one)
  qed
  ultimately have "db_open lower d (disk_of db3) = Inr \<lparr>tables = tables db, store = Some \<lparr>store_snapshot = ?snap,
            store_wal = \<lparr>wfile = wal_header @ frame 1 p, wnext = 2, wdurability = d\<rparr>\<rparr>,
          read_only = False, memory_limit = 0\<rparr>"
    unfolding db3(2) by (rule reopen_skips [OF _ _ p(2)])
  with db3(1) t db2 show ?thesis by (simp add: table_of_def)
qed

lemma demo_created_durable: "durable to_ascii_lowercase demo_created"
  by (rule create_table_step(1) [OF demo_db_durable demo_create_fits _ prod.collapse [symmetric]])
    (simp add: lsn_left_def next_lsn_def demo_db_def)

lemma demo_created_small: "catalog_small (tables demo_created)"
proof -
  have "table_small demo_table" by code_simp
  then show ?thesis by (simp add: demo_created_tables catalog_small_def)
qed

definition demo_restarted :: database where
  "demo_restarted = \<lparr>tables = tables demo_created,
     store = Some \<lparr>store_snapshot = Some (encode_snapshot (values_of demo_order (tables demo_created))
         (next_lsn demo_created - 1)),
       store_wal = \<lparr>wfile = wal_header, wnext = 1, wdurability = Fsync\<rparr>\<rparr>,
     read_only = False, memory_limit = 0\<rparr>"

lemma demo_restarted_simps:
  "tables demo_restarted = [str ''t'' \<mapsto> demo_table]" "\<not> read_only demo_restarted"
  "store demo_restarted \<noteq> None"
  by (simp_all add: demo_restarted_def demo_created_tables)

lemma demo_restart:
  "db_open to_ascii_lowercase Fsync (disk_of (fst (db_snapshot demo_order demo_created))) = Inr demo_restarted"
  using open_after_snapshot [OF demo_order_keys demo_created_durable demo_created_small] demo_created_store
  by (auto simp: demo_restarted_def)

definition demo_lost :: database where
  "demo_lost = fst (create_table to_ascii_lowercase demo_restarted (str ''u'') demo_schema)"

lemma demo_lost_created:
  "create_table to_ascii_lowercase demo_restarted (str ''u'') demo_schema = (demo_lost, Inr ())"
proof -
  have "is_ok (table_new (str ''u'') demo_schema)" by code_simp
  then obtain t where "table_new (str ''u'') demo_schema = Inr t" by (auto simp: is_ok_def split: sum.splits)
  moreover have "to_ascii_lowercase (str ''u'') \<noteq> str ''t''" by code_simp
  ultimately have "snd (create_table to_ascii_lowercase demo_restarted (str ''u'') demo_schema) = Inr ()"
    using demo_restarted_simps
    by (auto simp: create_table_def deny_if_read_only_def key_def log_record_def wal_encode_def)
  then show ?thesis by (simp add: demo_lost_def prod_eq_iff)
qed

lemma demo_lost_fits: "payload_fits so (CreateTable (str ''u'') demo_schema)"
proof -
  have "record_exact so (CreateTable (str ''u'') demo_schema)"
    by (simp add: record_exact_def) code_simp
  moreover have "length (w_u8 1 @ w_str (str ''u'') @ w_schema demo_schema) < 2 ^ 32"
    by code_simp
  ultimately show ?thesis by (simp add: payload_fits_def payload_small_def wal_encode_def)
qed

theorem write_after_snapshot_restart_lost_witness:
  "table_of to_ascii_lowercase (tables demo_lost) (str ''u'') \<noteq> None \<and>
     (\<exists>db4. db_open to_ascii_lowercase Fsync (disk_of demo_lost) = Inr db4 \<and>
        tables db4 = tables demo_created \<and> table_of to_ascii_lowercase (tables db4) (str ''u'') = None)"
  by (rule write_after_snapshot_restart_lost [OF demo_order_keys demo_created_durable demo_created_small
        _ demo_restart demo_lost_fits demo_lost_created])
    (simp add: demo_created_lsn)

text \<open>C13: a crash while a snapshot resets the WAL can leave a directory that does not open at all,
  although the snapshot in it is complete: with one to eleven bytes of the new header written,
  \<open>Wal::open\<close> refuses the file instead of starting an empty log.\<close>

theorem torn_header_refuses:
  assumes "lists_keys order" and "durable lower db" and "catalog_small (tables db)"
    and "0 < k" and "k < 12"
  shows "\<exists>crash \<in> op_crashes lower order db Op_snapshot.
     wal_file crash = take k wal_header \<and> db_open lower d crash = Inl Not_a_wal"
proof -
  obtain s where s: "store db = Some s" using durable_store [OF assms(2)] by auto
  let ?c = "(write_snapshot (disk_of db) (values_of order (tables db)) (next_lsn db - 1))
      \<lparr>wal_file := take k wal_header\<rparr>"
  have "?c \<in> op_crashes lower order db Op_snapshot"
    using assms by (auto simp: op_crashes_def snapshot_crashes_def Let_def intro!: image_eqI [of _ _ k])
  moreover have "load_base lower (snapshot_file ?c) = Inr (tables db, next_lsn db - 1)"
    using durable_snapshot_as [OF assms(2,1,3) s] by (simp add: durable_as_def write_snapshot_def)
  then have "db_open lower d ?c = Inl Not_a_wal"
    by (rule recovered_torn_header [rotated]) (use assms in \<open>simp add: torn_header_def\<close>)
  ultimately show ?thesis by (intro bexI [of _ ?c]) auto
qed

theorem torn_header_refuses_witness:
  "\<exists>crash \<in> op_crashes to_ascii_lowercase demo_order demo_created Op_snapshot.
     wal_file crash = take 8 wal_header \<and> db_open to_ascii_lowercase Fsync crash = Inl Not_a_wal"
  by (rule torn_header_refuses [OF demo_order_keys demo_created_durable demo_created_small]) simp_all

definition demo_payload :: "u8 list" where
  "demo_payload = w_u8 1 @ w_str (str ''t'') @ w_schema demo_schema"

definition demo_store :: store where
  "demo_store = \<lparr>store_snapshot = None,
     store_wal = \<lparr>wfile = wal_header @ frame 1 demo_payload, wnext = 2, wdurability = Fsync\<rparr>\<rparr>"

lemma demo_created_as:
  "durable_as to_ascii_lowercase demo_created demo_store [(1, demo_payload)] 1 (\<lambda>_. None) 0"
proof -
  let ?so = "schema_of to_ascii_lowercase (\<lambda>_. None)"
  have enc: "wal_encode ?so (CreateTable (str ''t'') demo_schema) = Inr demo_payload"
    by (simp add: wal_encode_def demo_payload_def)
  have dec: "wal_decode ?so demo_payload = Inr (CreateTable (str ''t'') demo_schema)"
    and small: "payload_small demo_payload"
    using demo_create_fits [of ?so] record_roundtrip [of ?so "CreateTable (str ''t'') demo_schema"] enc
    by (auto simp: payload_fits_def)
  have "tname demo_table = str ''t''" by (simp add: demo_table_def)
  then have "apply_record to_ascii_lowercase (\<lambda>_. None) (CreateTable (str ''t'') demo_schema) =
      (tables demo_created, Inr ())"
    by (simp add: apply_record_def demo_table_new put_table_def demo_created_tables key_def demo_key)
  from apply_payload_record [OF dec this] small durable_wf [OF demo_created_durable]
  have "catalog_wf to_ascii_lowercase (tables demo_created) \<and>
      replay to_ascii_lowercase 0 (\<lambda>_. None) [(1, demo_payload)] = Inr (tables demo_created) \<and>
      wal_rep (store_wal demo_store) [(1, demo_payload)]"
    by (simp add: wal_rep_def demo_store_def)
  moreover have "store demo_created = Some demo_store"
    by (simp add: create_table_def demo_db_def deny_if_read_only_def demo_table_new key_def demo_key
        log_record_def wal_encode_def wal_append_def demo_store_def demo_payload_def)
  ultimately show ?thesis by (simp add: durable_as_def demo_store_def load_base_def)
qed

text \<open>C7: a log cut at any byte after its header recovers exactly the records that are whole: the
  database opens with the tables they replay to, and the file is trimmed to them, so that new
  records append after the last whole one.\<close>

theorem truncated_wal_recovers_prefix:
  assumes "durable_as lower db s rs first m b" and "12 \<le> k"
  shows "\<exists>db'. db_open lower d ((disk_of db)\<lparr>wal_file := take k (wal_file (disk_of db))\<rparr>) = Inr db' \<and>
     replay lower b m (take (whole_frames (k - 12) rs) rs) = Inr (tables db') \<and>
     wal_file (disk_of db') = wal_header @ frames (take (whole_frames (k - 12) rs) rs)"
proof -
  let ?kept = "take (whole_frames (k - 12) rs) rs"
  from assms(1) have w: "wfile (store_wal s) = wal_header @ frames rs" "\<forall>(l, p) \<in> set rs. payload_small p"
    by (auto simp: durable_as_def wal_rep_def)
  obtain m' where m': "replay lower b m ?kept = Inr m'"
    using replay_prefix [of lower b m ?kept "drop (whole_frames (k - 12) rs) rs"] assms(1)
    by (auto simp: durable_as_def)
  with wal_open_truncated [OF w(2) assms(2), of d] assms(1) w(1) show ?thesis
    by (simp add: durable_as_def db_open_def disk_of_def Let_def)
qed

theorem truncated_wal_recovers_prefix_witness:
  "\<exists>db'. db_open to_ascii_lowercase Fsync
        ((disk_of demo_created)\<lparr>wal_file := take 20 (wal_file (disk_of demo_created))\<rparr>) = Inr db' \<and>
     replay to_ascii_lowercase 0 (\<lambda>_. None) (take (whole_frames (20 - 12) [(1, demo_payload)]) [(1, demo_payload)]) =
       Inr (tables db') \<and>
     wal_file (disk_of db') =
       wal_header @ frames (take (whole_frames (20 - 12) [(1, demo_payload)]) [(1, demo_payload)])"
  by (rule truncated_wal_recovers_prefix [OF demo_created_as]) simp

text \<open>C8: a record with one wrong byte, anywhere but in its length field, ends the recovery in
  front of it: the records before it are replayed, it and everything after it is discarded.\<close>

theorem damaged_record_stops_recovery:
  assumes "durable_as lower db s (xs @ (l, p) # ys) first m b"
    and "4 \<le> i" and "i < length (frame l p)" and "frame l p ! i \<noteq> c"
  shows "\<exists>db'. db_open lower d ((disk_of db)\<lparr>wal_file :=
        wal_header @ frames xs @ change_byte (frame l p) i c @ frames ys\<rparr>) = Inr db' \<and>
     replay lower b m xs = Inr (tables db') \<and> wal_file (disk_of db') = wal_header @ frames xs"
proof -
  from assms(1) have w: "\<forall>(l, p) \<in> set xs. payload_small p" "payload_small p"
    by (auto simp: durable_as_def wal_rep_def)
  obtain m' where m': "replay lower b m xs = Inr m'"
    using replay_prefix assms(1) unfolding durable_as_def by blast
  with wal_open_tail [OF w(1) scan_damaged_frame [OF w(2) assms(2-4)], of "frames ys" d] assms(1)
  show ?thesis by (simp add: durable_as_def db_open_def disk_of_def)
qed

theorem damaged_record_stops_recovery_witness:
  "\<exists>db'. db_open to_ascii_lowercase Fsync ((disk_of demo_created)\<lparr>wal_file := wal_header @ frames [] @
        change_byte (frame 1 demo_payload) 20 (frame 1 demo_payload ! 20 + 1) @ frames []\<rparr>) = Inr db' \<and>
     replay to_ascii_lowercase 0 (\<lambda>_. None) [] = Inr (tables db') \<and>
     wal_file (disk_of db') = wal_header @ frames []"
proof (rule damaged_record_stops_recovery [of _ _ _ _ 1 demo_payload "[]"])
  show "durable_as to_ascii_lowercase demo_created demo_store ([] @ (1, demo_payload) # []) 1 (\<lambda>_. None) 0"
    using demo_created_as by simp
  have "4 < length demo_payload" by code_simp
  then show "20 < length (frame 1 demo_payload)" by (simp add: length_frame frame_header_def)
qed simp_all

end
