(* ===== verification/Contracts.thy ===== *)
theory Contracts
  imports Binding Recovery
begin

text \<open>
  The contracts of the storage components, stated end to end over the lemmas of their own theories: what a
  column and a table hold after an insert, what an image and a log record read back as, which statements
  change a database, and two ways in which memory and log come apart.
\<close>

section \<open>Columns and tables\<close>

text \<open>
  a column is an append-only list: pushing a value that fits adds it, widened to the type of the
  column, and every value pushed before stays where it was.
\<close>

theorem column_push_then_get:
  assumes "column_rep c vs" and "cell_ok (column_type c) v" and "fits c v"
  shows "\<exists>c'. column_push c v = Inr c' \<and> column_len c' = Suc (length vs) \<and>
    column_get c' (length vs) = Inr (stored (column_type c) v) \<and>
    map_res (column_get c') [0..<length vs] = Inr vs"
proof -
  obtain c' where c': "column_push c v = Inr c'" "column_rep c' (vs @ [stored (column_type c) v])"
    using column_push_ok [OF assms] by blast
  have get: "column_get c' i = Inr ((vs @ [stored (column_type c) v]) ! i)" if "i \<le> length vs" for i
    using column_rep_get [OF c'(2), of i] that by simp
  have "map_res (column_get c') [0..<length vs] = Inr vs"
    using get by (simp add: map_res_Inr list_all2_conv_all_nth nth_append)
  with c' get [of "length vs"] column_rep_len [OF c'(2)] show ?thesis by simp
qed

theorem column_push_then_get_witness:
  "\<exists>c'. column_push (C_F64 [f64_of_i64 3]) (V_I64 7) = Inr c' \<and> column_len c' = Suc (length [V_F64 (f64_of_i64 3)]) \<and>
    column_get c' (length [V_F64 (f64_of_i64 3)]) = Inr (stored (column_type (C_F64 [f64_of_i64 3])) (V_I64 7)) \<and>
    map_res (column_get c') [0..<length [V_F64 (f64_of_i64 3)]] = Inr [V_F64 (f64_of_i64 3)]"
  by (rule column_push_then_get)
    (simp_all add: column_rep_def cell_ok_def type_of_def column_type_def fits_def)

text \<open>
  C30: \<open>Table::insert\<close> is all or nothing for a row: a row of the right types is appended to every
  column and all rows read back, any other row leaves the table as it was.
\<close>

theorem row_insert_all_or_nothing:
  assumes "table_rep t rows" and "row_fits t row"
  shows "if row_ok (tschema t) row
    then \<exists>t'. table_insert t row = (t', Inr ()) \<and> table_rep t' (rows @ [stored_row (tschema t) row]) \<and>
      map_res (table_row t') [0..<Suc (length rows)] = Inr (rows @ [stored_row (tschema t) row])
    else \<exists>e. table_insert t row = (t, Inl e)"
proof (cases "row_ok (tschema t) row")
  case True
  obtain t' where t': "table_insert t row = (t', Inr ())" "table_rep t' (rows @ [stored_row (tschema t) row])"
    using table_insert_ok [OF assms(1) True assms(2)] by blast
  have "map_res (table_row t') [0..<Suc (length rows)] = Inr (rows @ [stored_row (tschema t) row])"
    unfolding map_res_Inr list_all2_conv_all_nth using table_rep_row [OF t'(2)]
    by (simp del: upt_Suc)
  with True t' show ?thesis by auto
next
  case False
  with table_insert_error [OF assms(1) False] show ?thesis by simp
qed

theorem row_insert_all_or_nothing_witness:
  "\<exists>t'. table_insert sample_rows [V_I64 9, V_Str (str ''q''), V_Vector [0, 0]] = (t', Inr ())"
proof -
  have f: "row_fits sample_rows [V_I64 9, V_Str (str ''q''), V_Vector [0, 0]]" by code_simp
  have "row_ok (tschema sample_rows) [V_I64 9, V_Str (str ''q''), V_Vector [0, 0]]" by code_simp
  with row_insert_all_or_nothing [OF sample_rows_rep f] show ?thesis by (simp only: if_True) blast
qed

section \<open>Images and log records\<close>

text \<open>
  C31: a snapshot image reads back as the tables and the LSN it was made of, and an image with one byte
  changed anywhere is refused.
\<close>

theorem snapshot_image_roundtrip:
  assumes "snapshot_ok ts"
  shows "decode_snapshot (encode_snapshot ts lsn) = Inr (ts, lsn) \<and>
    (i < length (encode_snapshot ts lsn) \<and> encode_snapshot ts lsn ! i \<noteq> b \<longrightarrow>
      decode_snapshot ((encode_snapshot ts lsn)[i := b]) \<in> {Inl Not_a_snapshot, Inl Snapshot_crc})"
  using decode_encode_snapshot [OF assms] decode_changed_snapshot [of i ts lsn b]
  by (simp add: change_byte_def)

theorem snapshot_image_roundtrip_witness:
  "decode_snapshot (encode_snapshot [sample_rows] 5) = Inr ([sample_rows], 5) \<and>
   decode_snapshot ((encode_snapshot [sample_rows] 5)[0 := 0]) \<in> {Inl Not_a_snapshot, Inl Snapshot_crc}"
proof -
  have "table_small sample_rows" by code_simp
  then have ok: "snapshot_ok [sample_rows]" using sample_rows_rep by (auto simp: snapshot_ok_def table_wf_def)
  have "0 < length (encode_snapshot [sample_rows] 5)" "encode_snapshot [sample_rows] 5 ! 0 \<noteq> 0"
    by (simp_all add: encode_snapshot_def snapshot_body_def snapshot_magic_def ascii_def byte_def)
  with snapshot_image_roundtrip [OF ok, of 5 0 0] show ?thesis by blast
qed

text \<open>
  A value as the log keeps it: an integer in a \<open>DOUBLE\<close> column is written as it is and read as the real
  number with the same bits. The lengths that the format has room for.
\<close>

definition logged_value :: "data_type \<Rightarrow> rvalue \<Rightarrow> rvalue" where
  "logged_value ty v = (case (ty, v) of (DT_F64, V_I64 x) \<Rightarrow> V_F64 x | _ \<Rightarrow> v)"

definition logged_row :: "field list \<Rightarrow> rvalue list \<Rightarrow> rvalue list" where
  "logged_row fs row = map2 (\<lambda>f v. logged_value (fty f) v) fs row"

definition value_sized :: "rvalue \<Rightarrow> bool" where
  "value_sized v \<longleftrightarrow>
     (case v of V_Str s \<Rightarrow> str_bytes_len s < 2 ^ 64 | V_Vector x \<Rightarrow> length x * 4 < 2 ^ 64 | _ \<Rightarrow> True)"

definition logged_record :: "(rstr \<Rightarrow> schema option) \<Rightarrow> wal_record \<Rightarrow> wal_record" where
  "logged_record so rec =
     (case rec of
        InsertRows n rows \<Rightarrow>
          (case so n of None \<Rightarrow> rec | Some s \<Rightarrow> InsertRows n (map (logged_row (sfields s)) rows))
      | _ \<Rightarrow> rec)"

text \<open>The records of accepted operations: for an insert, rows that \<open>Table::insert\<close> takes.\<close>

definition record_accepted :: "(rstr \<Rightarrow> schema option) \<Rightarrow> wal_record \<Rightarrow> bool" where
  "record_accepted so rec \<longleftrightarrow>
     (case rec of
        CreateTable n s \<Rightarrow> str_bytes_len n < 2 ^ 64 \<and> schema_small s
      | DropTable n \<Rightarrow> str_bytes_len n < 2 ^ 64
      | InsertRows n rows \<Rightarrow>
          str_bytes_len n < 2 ^ 64 \<and> length rows < 2 ^ 64 \<and>
          (case so n of
             None \<Rightarrow> False
           | Some s \<Rightarrow> \<forall>r \<in> set rows. row_ok s r \<and> (\<forall>v \<in> set r. value_sized v)))"

lemma logged_value_exact:
  assumes "cell_ok ty v" and "value_sized v"
  shows "value_exact ty (logged_value ty v)" and "w_value (logged_value ty v) = w_value v"
proof -
  have "length x < 2 ^ 64 \<and> unat (word_of_nat (length x) :: usize) = length x" if "v = V_Vector x" for x
    using that assms(2) by (simp add: value_sized_def unat_of_nat)
  then show "value_exact ty (logged_value ty v)"
    using assms by (cases ty; cases v) (auto simp: cell_ok_def type_of_def value_exact_def logged_value_def value_sized_def)
  show "w_value (logged_value ty v) = w_value v"
    by (cases ty; cases v) (simp_all add: logged_value_def w_value_def w_i64_def w_f64_def)
qed

lemma logged_row_exact:
  assumes "row_ok s r" and "\<forall>v \<in> set r. value_sized v"
  shows "row_exact (sfields s) (logged_row (sfields s) r)" and "map w_value (logged_row (sfields s) r) = map w_value r"
    and "length (logged_row (sfields s) r) = length r"
  using assms logged_value_exact
  by (auto simp: row_ok_def row_exact_def logged_row_def list_all2_conv_all_nth intro!: nth_equalityI)

lemma logged_record_exact:
  assumes "record_accepted so rec"
  shows "record_exact so (logged_record so rec)" and "wal_encode so (logged_record so rec) = wal_encode so rec"
proof -
  have "record_exact so (logged_record so rec) \<and> wal_encode so (logged_record so rec) = wal_encode so rec"
  proof (cases rec)
    case (InsertRows n rows)
    with assms obtain s where s: "so n = Some s" "\<forall>r \<in> set rows. row_ok s r \<and> (\<forall>v \<in> set r. value_sized v)"
      by (auto simp: record_accepted_def split: option.splits)
    have "map_res (encode_row s) (map (logged_row (sfields s)) rows) = map_res (encode_row s) rows"
      using s(2)
    proof (induction rows)
      case (Cons r rows)
      with logged_row_exact(2,3) [of s r] have "encode_row s (logged_row (sfields s) r) = encode_row s r"
        by (simp add: encode_row_def)
      with Cons show ?case by simp
    qed simp
    with InsertRows assms s logged_row_exact(1) show ?thesis
      by (auto simp: record_accepted_def record_exact_def logged_record_def wal_encode_def)
  qed (use assms in \<open>auto simp: record_accepted_def record_exact_def logged_record_def\<close>)
  then show "record_exact so (logged_record so rec)" "wal_encode so (logged_record so rec) = wal_encode so rec" by auto
qed

lemma logged_record_same: "record_exact so rec \<Longrightarrow> logged_record so rec = rec"
proof -
  have v: "logged_value ty v = v" if "value_exact ty v" for ty v
    using that by (cases ty; cases v) (simp_all add: value_exact_def logged_value_def)
  have "logged_row fs r = r" if "row_exact fs r" for fs r
    using that by (auto simp: logged_row_def row_exact_def list_all2_conv_all_nth v intro!: nth_equalityI)
  then show "record_exact so rec \<Longrightarrow> logged_record so rec = rec"
    by (cases rec) (auto simp: logged_record_def record_exact_def intro!: map_idI split: option.splits)
qed

text \<open>
  C32: the payload of the record of every accepted creation, removal or batch of rows, with names and values
  within 64-bit lengths, is read back: as the record itself when every value has exactly the type of its
  column, and otherwise as the record in which the integers of \<open>DOUBLE\<close> columns are the real numbers with the
  same bits; nothing else is changed.
\<close>

theorem log_record_roundtrip:
  assumes "record_accepted so rec"
  shows "\<exists>p. wal_encode so rec = Inr p \<and> wal_decode so p = Inr (logged_record so rec) \<and>
    (record_exact so rec \<longrightarrow> logged_record so rec = rec)"
  using record_roundtrip [OF logged_record_exact(1) [OF assms]] logged_record_exact(2) [OF assms] logged_record_same by auto

theorem log_record_roundtrip_witness:
  "\<exists>p. wal_encode sample_schemas (InsertRows (str ''t'') [[V_I64 9, V_Str (str ''q''), V_Vector [0, 0]]]) = Inr p \<and>
     wal_decode sample_schemas p = Inr (InsertRows (str ''t'') [[V_I64 9, V_Str (str ''q''), V_Vector [0, 0]]])"
proof -
  have "row_ok sample_schema [V_I64 9, V_Str (str ''q''), V_Vector [0, 0]]"
    "\<forall>v \<in> set [V_I64 9, V_Str (str ''q''), V_Vector [0, 0]]. value_sized v"
    "str_bytes_len (str ''t'') < 2 ^ 64" by code_simp+
  then have "record_accepted sample_schemas (InsertRows (str ''t'') [[V_I64 9, V_Str (str ''q''), V_Vector [0, 0]]])"
    by (simp add: record_accepted_def sample_schemas_def)
  moreover have "row_exact (sfields sample_schema) [V_I64 9, V_Str (str ''q''), V_Vector [0, 0]]" by code_simp
  then have "record_exact sample_schemas (InsertRows (str ''t'') [[V_I64 9, V_Str (str ''q''), V_Vector [0, 0]]])"
    by (simp add: record_exact_def sample_schemas_def) code_simp
  ultimately show ?thesis using log_record_roundtrip [of sample_schemas] by metis
qed

text \<open>
  an integer inserted into a \<open>DOUBLE\<close> column is stored as the real number it is, but logged as the
  eight bytes of the integer: recovery and replicas read these bytes as a real.
\<close>

theorem integer_in_double_logged_raw:
  assumes "schema_of lower (tables db) n = Some s" and "sfields s = [f]" and "fty f = DT_F64"
    and "str_bytes_len n < 2 ^ 64" and "table_rep t rows" and "tschema t = s"
  shows "\<exists>t' p. table_insert t [V_I64 x] = (t', Inr ()) \<and> table_rep t' (rows @ [[V_F64 (f64_of_i64 x)]]) \<and>
    wal_encode (schema_of lower (tables db)) (InsertRows n [[V_I64 x]]) = Inr p \<and>
    wal_decode (schema_of lower (tables db)) p = Inr (InsertRows n [[V_F64 x]])"
proof -
  have ok: "row_ok s [V_I64 x]" using assms(2,3) by (simp add: row_ok_def cell_ok_def type_of_def)
  obtain c where c: "columns t = [c]" "column_type c = DT_F64"
    using assms(2,3,5,6) by (auto simp: table_rep_def length_Suc_conv)
  then have "row_fits t [V_I64 x]" by (cases c) (auto simp: row_fits_def fits_def column_type_def)
  then obtain t' where t': "table_insert t [V_I64 x] = (t', Inr ())" "table_rep t' (rows @ [stored_row s [V_I64 x]])"
    using table_insert_ok [OF assms(5)] ok assms(6) by blast
  have st: "stored_row s [V_I64 x] = [V_F64 (f64_of_i64 x)]" using assms(2,3) by (simp add: stored_row_def)
  let ?p = "w_u8 3 @ w_str n @ w_u64 1 @ w_i64 x"
  have "wal_encode (schema_of lower (tables db)) (InsertRows n [[V_I64 x]]) = Inr ?p"
    using assms(1,2) by (simp add: wal_encode_def encode_row_def schema_len_def w_value_def)
  moreover have "wal_decode (schema_of lower (tables db)) ?p = Inr (InsertRows n [[V_F64 x]])"
    using assms(1-4) f64_codec.dec_enc_end [of x]
    by (simp add: wal_decode_def u8_codec.dec_enc str_codec.dec_enc u64_codec.dec_enc r_value_def w_i64_def w_f64_def)
  ultimately show ?thesis using t' st by auto
qed


definition real_table :: table where
  "real_table = \<lparr>tname = str ''r'', tschema = \<lparr>sfields = [\<lparr>fname = str ''x'', fty = DT_F64\<rparr>]\<rparr>,
     columns = [C_F64 []], nrows = 0\<rparr>"

lemma real_table_rep: "table_rep real_table []"
proof -
  have "table_new (str ''r'') \<lparr>sfields = [\<lparr>fname = str ''x'', fty = DT_F64\<rparr>]\<rparr> = Inr real_table" by code_simp
  then show ?thesis by (simp add: table_rep_new)
qed

theorem integer_in_double_logged_raw_witness:
  "\<exists>t' p. table_insert real_table [V_I64 1] = (t', Inr ()) \<and> table_rep t' [[V_F64 (f64_of_i64 1)]] \<and>
    wal_decode (schema_of (\<lambda>s. s) (tables (db_new\<lparr>tables := [str ''r'' \<mapsto> real_table]\<rparr>))) p =
      Inr (InsertRows (str ''r'') [[V_F64 1]]) \<and> f64_of_i64 1 \<noteq> 1"
proof -
  let ?db = "db_new\<lparr>tables := [str ''r'' \<mapsto> real_table]\<rparr>"
  have so: "schema_of (\<lambda>s. s) (tables ?db) (str ''r'') = Some (tschema real_table)"
    by (simp add: schema_of_def table_of_def key_def)
  have n: "str_bytes_len (str ''r'') < 2 ^ 64" by code_simp
  have "f64_of_i64 1 \<noteq> 1" by code_simp
  with integer_in_double_logged_raw [OF so _ _ n real_table_rep refl, of "\<lparr>fname = str ''x'', fty = DT_F64\<rparr>" 1]
  show ?thesis by (auto simp: real_table_def)
qed

section \<open>Statements\<close>

text \<open>The statements that only read.\<close>

definition reads :: "statement \<Rightarrow> bool" where
  "reads st = (case st of St_Select _ \<Rightarrow> True | St_ShowTables \<Rightarrow> True | St_Describe _ \<Rightarrow> True | _ \<Rightarrow> False)"

definition is_insert :: "statement \<Rightarrow> bool" where
  "is_insert st = (case st of St_Insert _ _ _ \<Rightarrow> True | _ \<Rightarrow> False)"

lemma log_record_ddl:
  "(\<forall>t rows. rec \<noteq> InsertRows t rows) \<Longrightarrow> snd (log_record lower db rec) = Inr ()"
  by (cases rec) (auto simp: log_record_def wal_encode_def split: option.split)

lemma create_table_fails: "create_table lower db n s = (db', Inl e) \<Longrightarrow> db' = db"
  using log_record_ddl [of "CreateTable n s" lower "db\<lparr>tables := (tables db)(key lower n \<mapsto> t)\<rparr>" for t]
  by (auto simp: create_table_def split: sum.splits if_splits prod.splits) (metis Inl_Inr_False snd_conv wal_record.distinct(3))+

lemma drop_table_fails:
  assumes "drop_table lower db n = (db', r)" and "r \<noteq> Inr True"
  shows "db' = db"
proof (cases "tables db (key lower n)")
  case None
  then have "(tables db)(key lower n := None) = tables db" by (rule fun_upd_idem)
  with assms None show ?thesis by (auto simp: drop_table_def drop_table_inner_def split: sum.splits)
next
  case (Some t)
  with assms log_record_ddl [of "DropTable n" lower "db\<lparr>tables := (tables db)(key lower n := None)\<rparr>"]
  show ?thesis by (auto simp: drop_table_def drop_table_inner_def split: sum.splits prod.splits)
qed

text \<open>
  as long as writing to the log succeeds, queries, statements on a replica and \<open>CREATE\<close> or \<open>DROP\<close> statements
  that fail leave the database as it was, in memory and on disk; \<open>Outage\<close> has the case of a failing write.
\<close>

theorem refused_statement_changes_nothing:
  assumes run: "run_statement lower upper hash order db st = (db', r)"
    and st: "reads st \<or> read_only db \<or> (\<not> is_insert st \<and> \<not> is_ok r)"
  shows "db' = db"
proof (cases st)
  case (St_CreateTable n s b)
  obtain db1 r1 where c: "create_table lower db n s = (db1, r1)" by (cases "create_table lower db n s")
  show ?thesis
  proof (cases "read_only db")
    case True
    with c run St_CreateTable show ?thesis
      by (auto simp: run_statement_def create_table_def deny_if_read_only_def split: if_splits)
  next
    case False
    with run st c St_CreateTable have "db' = db \<or> db' = db1 \<and> (\<exists>e. r1 = Inl e)"
      by (auto simp: run_statement_def reads_def split: sum.splits if_splits)
    with create_table_fails c show ?thesis by auto
  qed
next
  case (St_DropTable n b)
  obtain db1 r1 where d: "drop_table lower db n = (db1, r1)" by (cases "drop_table lower db n")
  show ?thesis
  proof (cases "read_only db")
    case True
    with d run St_DropTable show ?thesis by (auto simp: run_statement_def drop_table_def deny_if_read_only_def)
  next
    case False
    with run st d St_DropTable have "db' = db1 \<and> r1 \<noteq> Inr True"
      by (auto simp: run_statement_def reads_def split: sum.splits if_splits)
    with drop_table_fails [OF d] show ?thesis by simp
  qed
next
  case (St_Insert tab cols rows)
  with run st show ?thesis
    by (auto simp: run_statement_def reads_def is_insert_def insert_rows_def deny_if_read_only_def split: sum.splits)
qed (use run in \<open>auto simp: run_statement_def\<close>)

theorem refused_statement_changes_nothing_witness:
  "fst (run_statement (\<lambda>s. s) (\<lambda>s. s) (\<lambda>_. 0) demo_order sample_database (St_CreateTable (str ''t'') sample_schema False))
     = sample_database \<and>
   \<not> is_ok (snd (run_statement (\<lambda>s. s) (\<lambda>s. s) (\<lambda>_. 0) demo_order sample_database (St_CreateTable (str ''t'') sample_schema False)))"
proof -
  have "table_new (str ''t'') sample_schema \<noteq> Inl e" for e by code_simp
  then obtain t where "table_new (str ''t'') sample_schema = Inr t" by (cases "table_new (str ''t'') sample_schema") auto
  then have "run_statement (\<lambda>s. s) (\<lambda>s. s) (\<lambda>_. 0) demo_order sample_database (St_CreateTable (str ''t'') sample_schema False)
      = (sample_database, Inl (Table_exists (str ''t'')))"
    by (simp add: run_statement_def create_table_def deny_if_read_only_def sample_database_def key_def)
  with refused_statement_changes_nothing [OF this] show ?thesis by (auto simp: is_insert_def)
qed

text \<open>
  an \<open>INSERT\<close> with a bad row reports an error and yet keeps the rows before the bad one: they are in
  memory, seen by every query, and not in the log, so the next restart loses them.
\<close>

theorem failed_insert_keeps_rows:
  assumes dur: "durable lower db" and w: "\<not> read_only db" "memory_limit db = 0"
    and t: "table_of lower (tables db) n = Some t" and rep: "table_rep t old"
    and good: "\<forall>r \<in> set rows. row_ok (tschema t) r" "batch_fits t rows" and bad: "\<not> row_ok (tschema t) b"
  shows "\<exists>db' e t' db''. run_statement lower upper hash order db (St_Insert n None (rows @ b # rest)) = (db', Inl e) \<and>
    table_of lower (tables db') n = Some t' \<and> table_rep t' (old @ map (stored_row (tschema t)) rows) \<and>
    db_open lower d (disk_of db') = Inr db'' \<and> table_of lower (tables db'') n = Some t"
proof -
  obtain t' e where t': "insert_many t (rows @ b # rest) = (t', Inl e)"
    "table_rep t' (old @ map (stored_row (tschema t)) rows)"
    using insert_many_partial [OF rep good bad] by blast
  let ?db = "db\<lparr>tables := (tables db)(key lower n \<mapsto> t')\<rparr>"
  have run: "run_statement lower upper hash order db (St_Insert n None (rows @ b # rest)) = (?db, Inl e)"
    using t t'(1) w by (simp add: run_statement_def insert_rows_def deny_if_read_only_def insert_inner_def)
  have "disk_of ?db = disk_of db" by (simp add: disk_of_def)
  then obtain db'' where "db_open lower d (disk_of ?db) = Inr db''" "tables db'' = tables db"
    using durable_open [OF dur] by auto
  with run t' t show ?thesis by (auto simp: table_of_def)
qed

theorem failed_insert_keeps_rows_witness:
  "\<exists>db' e t' db''. run_statement to_ascii_lowercase (\<lambda>s. s) (\<lambda>_. 0) demo_order demo_created
      (St_Insert (str ''t'') None ([demo_row] @ [V_Bool True] # [])) = (db', Inl e) \<and>
    table_of to_ascii_lowercase (tables db') (str ''t'') = Some t' \<and>
    table_rep t' ([] @ map (stored_row (tschema demo_table)) [demo_row]) \<and>
    db_open to_ascii_lowercase Fsync (disk_of db') = Inr db'' \<and>
    table_of to_ascii_lowercase (tables db'') (str ''t'') = Some demo_table"
proof (rule failed_insert_keeps_rows)
  show "durable to_ascii_lowercase demo_created" by (rule demo_created_durable)
  show "\<not> read_only demo_created" "memory_limit demo_created = 0" by (rule demo_created_rest)+
  show "table_of to_ascii_lowercase (tables demo_created) (str ''t'') = Some demo_table"
    by (simp add: table_of_def demo_created_tables key_def demo_key)
  show "table_rep demo_table []" using table_rep_new [OF demo_table_new] by simp
  show "\<forall>r \<in> set [demo_row]. row_ok (tschema demo_table) r" by code_simp
  show "batch_fits demo_table [demo_row]" by (rule demo_table_fits)
  show "\<not> row_ok (tschema demo_table) [V_Bool True]" by code_simp
qed

end
