(* ===== verification/Interfaces.thy ===== *)
theory Interfaces
  imports Contracts
begin

text \<open>
  The front ends of the server: \<open>http.rs\<close>, \<open>grpc.rs\<close> and the JSON conversions of \<open>column.rs\<close>. Here is
  what a handler does with a decoded request; the routes and the bodies around it are in \<open>Service\<close>. The locale \<open>front_end\<close> is what the insert handlers rely on, interpreted for the
  conversions of JSON and of gRPC messages.
\<close>

section \<open>Values in JSON\<close>

text \<open>
  \<open>serde_json::Value\<close>. What a number is belongs to the library: its type is \<open>'n\<close>, and the two readings
  the source uses, \<open>as_i64\<close> and \<open>as_f64\<close>, are parameters, as are the numbers it makes of an \<open>i64\<close>, a
  finite \<open>f64\<close> and an \<open>f32\<close>.
\<close>

datatype (plugins only: code size) 'n json =
    J_Null
  | J_Bool bool
  | J_Number 'n
  | J_String rstr
  | J_Array "'n json list"
  | J_Object "(rstr \<times> 'n json) list"

definition json_f64 :: "('n \<Rightarrow> f64 option) \<Rightarrow> 'n json \<Rightarrow> f64 option" where
  "json_f64 as_f j = (case j of J_Number n \<Rightarrow> as_f n | _ \<Rightarrow> None)"

definition json_element :: "('n \<Rightarrow> f64 option) \<Rightarrow> 'n json \<Rightarrow> f32 res" where
  "json_element as_f j =
     and_then (ok_or (json_f64 as_f j) (Query (Value_type DT_F64))) (\<lambda>d. Inr (f32_of_f64 d))"

definition from_json :: "('n \<Rightarrow> i64 option) \<Rightarrow> ('n \<Rightarrow> f64 option) \<Rightarrow> 'n json \<Rightarrow> data_type \<Rightarrow> rvalue res" where
  "from_json as_i as_f j ty =
     (case (ty, j) of
        (DT_I64, J_Number n) \<Rightarrow> and_then (ok_or (as_i n) (Query (Value_type DT_I64))) (\<lambda>x. Inr (V_I64 x))
      | (DT_F64, J_Number n) \<Rightarrow> and_then (ok_or (as_f n) (Query (Value_type DT_F64))) (\<lambda>x. Inr (V_F64 x))
      | (DT_Bool, J_Bool b) \<Rightarrow> Inr (V_Bool b)
      | (DT_Str, J_String s) \<Rightarrow> Inr (V_Str s)
      | (DT_Vector dim, J_Array a) \<Rightarrow>
          if length a \<noteq> unat dim then Inl (Query (Value_dim (length a) dim))
          else and_then (map_res (json_element as_f) a) (\<lambda>xs. Inr (V_Vector xs))
      | _ \<Rightarrow> Inl (Query (Value_type ty)))"

definition is_finite64 :: "f64 \<Rightarrow> bool" where
  "is_finite64 x = (case f64_val x of F_Fin _ _ _ \<Rightarrow> True | _ \<Rightarrow> False)"

text \<open>The \<open>Serialize\<close> instance: a real that JSON has no number for goes out as a string.\<close>

definition to_json :: "(i64 \<Rightarrow> 'n) \<Rightarrow> (f64 \<Rightarrow> 'n) \<Rightarrow> (f32 \<Rightarrow> 'n json) \<Rightarrow> rvalue \<Rightarrow> 'n json" where
  "to_json num_i num_f elem v =
     (case v of
        V_I64 x \<Rightarrow> J_Number (num_i x)
      | V_F64 x \<Rightarrow> if is_finite64 x then J_Number (num_f x) else J_String (show_f64 x)
      | V_Bool b \<Rightarrow> J_Bool b
      | V_Str s \<Rightarrow> J_String s
      | V_Vector xs \<Rightarrow> J_Array (map elem xs))"

section \<open>Values in gRPC messages\<close>

text \<open>The message \<open>Value\<close> of \<open>proto/veldb.proto\<close>: one of five kinds, or nothing.\<close>

datatype (plugins only: code size) pb_kind =
    Kind_I i64
  | Kind_F f64
  | Kind_B bool
  | Kind_S rstr
  | Kind_V "f32 list"

type_synonym pb_value = "pb_kind option"

definition to_pb :: "rvalue \<Rightarrow> pb_value" where
  "to_pb v =
     Some (case v of
        V_I64 x \<Rightarrow> Kind_I x
      | V_F64 x \<Rightarrow> Kind_F x
      | V_Bool x \<Rightarrow> Kind_B x
      | V_Str x \<Rightarrow> Kind_S x
      | V_Vector x \<Rightarrow> Kind_V x)"

definition from_pb :: "pb_value \<Rightarrow> data_type \<Rightarrow> rvalue res" where
  "from_pb v ty =
     and_then (ok_or v (Query Empty_value)) (\<lambda>kind.
     case (ty, kind) of
       (DT_I64, Kind_I x) \<Rightarrow> Inr (V_I64 x)
     | (DT_F64, Kind_F x) \<Rightarrow> Inr (V_F64 x)
     | (DT_F64, Kind_I x) \<Rightarrow> Inr (V_F64 (f64_of_i64 x))
     | (DT_Bool, Kind_B x) \<Rightarrow> Inr (V_Bool x)
     | (DT_Str, Kind_S x) \<Rightarrow> Inr (V_Str x)
     | (DT_Vector dim, Kind_V x) \<Rightarrow>
         if length x \<noteq> unat dim then Inl (Query (Value_dim (length x) dim)) else Inr (V_Vector x)
     | _ \<Rightarrow> Inl (Query (Value_type ty)))"

section \<open>Requests\<close>

text \<open>
  Both front ends convert the rows of an insert request in the same way, value by value against the schema
  of the table; \<open>conv\<close> is the conversion of one value.
\<close>

definition convert_cell :: "('v \<Rightarrow> data_type \<Rightarrow> rvalue res) \<Rightarrow> 'v \<times> field \<Rightarrow> rvalue res" where
  "convert_cell conv c = with_context ''row and column'' (conv (fst c) (fty (snd c)))"

definition convert_row :: "('v \<Rightarrow> data_type \<Rightarrow> rvalue res) \<Rightarrow> schema \<Rightarrow> nat \<times> 'v list \<Rightarrow> rvalue list res" where
  "convert_row conv s r =
     (if length (snd r) \<noteq> schema_len s then Inl (Query (Request_arity (fst r) (length (snd r)) (schema_len s)))
      else map_res (convert_cell conv) (zip (snd r) (sfields s)))"

definition convert_rows :: "('v \<Rightarrow> data_type \<Rightarrow> rvalue res) \<Rightarrow> schema \<Rightarrow> 'v list list \<Rightarrow> rvalue list list res" where
  "convert_rows conv s rows = map_res (convert_row conv s) (enumerate 0 rows)"

definition http_insert ::
  "(rstr \<Rightarrow> rstr) \<Rightarrow> (rstr set \<Rightarrow> rstr list) \<Rightarrow> ('n \<Rightarrow> i64 option) \<Rightarrow> ('n \<Rightarrow> f64 option) \<Rightarrow> database \<Rightarrow>
   rstr \<Rightarrow> 'n json list list \<Rightarrow> database \<times> nat res" where
  "http_insert lower order as_i as_f db tab rows =
     (case and_then (ok_or (table_of lower (tables db) tab) (Table_missing tab)) (\<lambda>t.
           convert_rows (from_json as_i as_f) (tschema t) rows) of
        Inl e \<Rightarrow> (db, Inl e)
      | Inr rs \<Rightarrow> insert_rows lower order db tab rs)"

text \<open>The status of a failed call: a panic of the blocking task is an internal error.\<close>

datatype (plugins only: code size) rpc_status = Not_found err | Invalid_argument err | Internal string

definition rpc_error :: "err \<Rightarrow> rpc_status" where
  "rpc_error e = (case e of Panic m \<Rightarrow> Internal m | _ \<Rightarrow> Invalid_argument e)"

definition grpc_insert ::
  "(rstr \<Rightarrow> rstr) \<Rightarrow> (rstr set \<Rightarrow> rstr list) \<Rightarrow> database \<Rightarrow> rstr \<Rightarrow> pb_value list list \<Rightarrow>
   database \<times> (rpc_status + u64)" where
  "grpc_insert lower order db tab rows =
     (case table_of lower (tables db) tab of
        None \<Rightarrow> (db, Inl (Not_found (Table_missing tab)))
      | Some t \<Rightarrow>
          (case convert_rows from_pb (tschema t) rows of
             Inl e \<Rightarrow> (db, Inl (Invalid_argument e))
           | Inr rs \<Rightarrow>
               (case insert_rows lower order db tab rs of
                  (db', Inl e) \<Rightarrow> (db', Inl (rpc_error e))
                | (db', Inr n) \<Rightarrow> (db', Inr (word_of_nat n)))))"

record 'v query_reply =
  r_names :: "rstr list"
  r_type_names :: "rstr list"
  r_rows :: "'v list list"

definition reply_of :: "(rvalue \<Rightarrow> 'v) \<Rightarrow> query_result \<Rightarrow> 'v query_reply" where
  "reply_of conv r =
     \<lparr>r_names = qcolumns r, r_type_names = map type_name (qtypes r), r_rows = map (map conv) (qrows r)\<rparr>"

text \<open>The handlers of a query; the time measurement in the reply is left out.\<close>

definition http_query ::
  "(rvalue \<Rightarrow> 'n json) \<Rightarrow> (database \<Rightarrow> rstr \<Rightarrow> database \<times> query_result res) \<Rightarrow> database \<Rightarrow> rstr \<Rightarrow>
   database \<times> ('n json query_reply \<times> nat) res" where
  "http_query conv run db sql =
     (case run db sql of
        (db', Inl e) \<Rightarrow> (db', Inl e)
      | (db', Inr r) \<Rightarrow> (db', Inr (reply_of conv r, length (qrows r))))"

definition grpc_query ::
  "(database \<Rightarrow> rstr \<Rightarrow> database \<times> query_result res) \<Rightarrow> database \<Rightarrow> rstr \<Rightarrow>
   database \<times> (rpc_status + pb_value query_reply)" where
  "grpc_query run db sql =
     (case run db sql of
        (db', Inl e) \<Rightarrow> (db', Inl (rpc_error e))
      | (db', Inr r) \<Rightarrow> (db', Inr (reply_of to_pb r)))"

section \<open>Health and schema\<close>

record health =
  h_tables :: nat
  h_rows :: nat
  h_bytes :: nat
  h_persistent :: bool
  h_next_lsn :: u64

text \<open>The tables that \<open>table_names\<close> lists, looked up again one by one.\<close>

definition listed_tables :: "(rstr \<Rightarrow> rstr) \<Rightarrow> (rstr set \<Rightarrow> rstr list) \<Rightarrow> database \<Rightarrow> table list" where
  "listed_tables lower order db = List.map_filter (table_of lower (tables db)) (table_names order db)"

definition http_health :: "(rstr \<Rightarrow> rstr) \<Rightarrow> (rstr set \<Rightarrow> rstr list) \<Rightarrow> database \<Rightarrow> health" where
  "http_health lower order db =
     \<lparr>h_tables = length (table_names order db),
      h_rows = sum_list (map nrows (listed_tables lower order db)),
      h_bytes = sum_list (map table_bytes_used (listed_tables lower order db)),
      h_persistent = is_persistent db, h_next_lsn = next_lsn db\<rparr>"

record table_info =
  i_name :: rstr
  i_rows :: nat
  i_bytes :: nat
  i_columns :: "(rstr \<times> rstr) list"

definition table_info_of :: "table \<Rightarrow> table_info" where
  "table_info_of t =
     \<lparr>i_name = tname t, i_rows = nrows t, i_bytes = table_bytes_used t,
      i_columns = map (\<lambda>f. (fname f, type_name (fty f))) (sfields (tschema t))\<rparr>"

definition http_schema :: "(rstr \<Rightarrow> rstr) \<Rightarrow> (rstr set \<Rightarrow> rstr list) \<Rightarrow> database \<Rightarrow> table_info list" where
  "http_schema lower order db = map table_info_of (listed_tables lower order db)"

text \<open>The gRPC replies carry the same figures as 64-bit integers, and no bytes per table.\<close>

record grpc_health =
  g_tables :: u64
  g_rows :: u64
  g_bytes :: u64
  g_next_lsn :: u64
  g_persistent :: bool

definition grpc_health ::
  "(rstr \<Rightarrow> rstr) \<Rightarrow> (rstr set \<Rightarrow> rstr list) \<Rightarrow> database \<Rightarrow> grpc_health" where
  "grpc_health lower order db =
     \<lparr>g_tables = word_of_nat (length (table_names order db)),
      g_rows = sum_list (map (word_of_nat \<circ> nrows) (listed_tables lower order db)),
      g_bytes = sum_list (map (word_of_nat \<circ> table_bytes_used) (listed_tables lower order db)),
      g_next_lsn = next_lsn db, g_persistent = is_persistent db\<rparr>"

definition grpc_table_info :: "table \<Rightarrow> rstr \<times> u64 \<times> (rstr \<times> rstr) list" where
  "grpc_table_info t =
     (tname t, word_of_nat (nrows t), map (\<lambda>f. (fname f, type_name (fty f))) (sfields (tschema t)))"

definition grpc_schema ::
  "(rstr \<Rightarrow> rstr) \<Rightarrow> (rstr set \<Rightarrow> rstr list) \<Rightarrow> database \<Rightarrow> (rstr \<times> u64 \<times> (rstr \<times> rstr) list) list" where
  "grpc_schema lower order db = map grpc_table_info (listed_tables lower order db)"

text \<open>Of a catalogue that is well formed every listed table is found again, under its lower-case name.\<close>

lemma listed_tables_all:
  assumes wf: "catalog_wf lower (tables db)" and ord: "lists_keys order"
  shows "mset (listed_tables lower order db) = mset (values_of order (tables db))"
proof -
  let ?vs = "values_of order (tables db)"
  have keys: "set (order (dom (tables db))) = dom (tables db)" using wf ord by (auto simp: lists_keys_def catalog_wf_def)
  have found: "\<forall>t \<in> set ?vs. table_of lower (tables db) (tname t) = Some t"
    using wf by (auto simp: values_of_def keys table_of_def catalog_wf_def)
  have "mset (List.map_filter f (map tname us)) = mset us" if "\<forall>t \<in> set us. f (tname t) = Some t" for f us
    using that by (induction us) (auto simp: map_filter_simps)
  from this [OF found] have "mset (List.map_filter (table_of lower (tables db)) (map tname ?vs)) = mset ?vs" .
  moreover have "mset (List.map_filter f xs) = mset (List.map_filter f ys)" if "mset xs = mset ys" for f and xs ys :: "rstr list"
    using that unfolding map_filter_def by (metis mset_filter mset_map)
  ultimately show ?thesis unfolding listed_tables_def table_names_def by (metis mset_sort)
qed

lemma sum_same_mset: "mset xs = mset ys \<Longrightarrow> sum_list (map f xs) = (sum_list (map f ys) :: nat)"
  by (metis mset_map sum_mset_sum_list)

lemma sum_words: "sum_list (map (word_of_nat \<circ> f) xs) = (word_of_nat (sum_list (map f xs)) :: 'a::len word)"
  by (induction xs) simp_all

section \<open>The contract of a front end\<close>

text \<open>A value of exactly the type of its column.\<close>

definition typed :: "data_type \<Rightarrow> rvalue \<Rightarrow> bool" where
  "typed ty v =
     (case (ty, v) of
        (DT_I64, V_I64 _) \<Rightarrow> True
      | (DT_F64, V_F64 _) \<Rightarrow> True
      | (DT_Bool, V_Bool _) \<Rightarrow> True
      | (DT_Str, V_Str _) \<Rightarrow> True
      | (DT_Vector d, V_Vector x) \<Rightarrow> length x = unat d
      | _ \<Rightarrow> False)"

lemma typed_cell: "typed ty v \<Longrightarrow> cell_ok ty v \<and> stored ty v = v"
  by (cases ty; cases v) (auto simp: typed_def cell_ok_def type_of_def)

text \<open>
  What both servers rely on: a value that is accepted has exactly the type of its column. Then the rows of a
  request are either refused before anything is written, or stored as they are.
\<close>

locale front_end =
  fixes conv :: "'v \<Rightarrow> data_type \<Rightarrow> rvalue res"
  assumes conv_typed: "conv v ty = Inr x \<Longrightarrow> typed ty x"
begin

lemma row_typed: "convert_row conv s r = Inr row \<Longrightarrow> list_all2 (\<lambda>f v. typed (fty f) v) (sfields s) row"
  by (auto simp: convert_row_def convert_cell_def map_res_Inr with_context_Inr list_all2_conv_all_nth
      schema_len_def conv_typed split: if_splits)

lemma rows_stored:
  assumes "convert_rows conv s rows = Inr rs"
  shows "(\<forall>r \<in> set rs. row_ok s r) \<and> map (stored_row s) rs = rs \<and> length rs = length rows"
proof -
  from assms have "list_all2 (\<lambda>r row. convert_row conv s r = Inr row) (enumerate 0 rows) rs"
    by (simp add: convert_rows_def map_res_Inr)
  then have rs: "length rs = length rows" "\<forall>i < length rs. convert_row conv s (enumerate 0 rows ! i) = Inr (rs ! i)"
    by (simp_all add: list_all2_conv_all_nth)
  have t: "\<forall>r \<in> set rs. list_all2 (\<lambda>f v. typed (fty f) v) (sfields s) r"
    unfolding all_set_conv_all_nth using rs(2) row_typed by blast
  have "row_ok s r \<and> stored_row s r = r" if "list_all2 (\<lambda>f v. typed (fty f) v) (sfields s) r" for r
  proof
    show "row_ok s r" using that by (auto simp: row_ok_def typed_cell elim!: list.rel_mono_strong)
    show "stored_row s r = r"
      using that by (auto simp: stored_row_def list_all2_conv_all_nth typed_cell intro!: nth_equalityI)
  qed
  with t rs(1) show ?thesis by (auto intro: map_idI)
qed

end

interpretation json: front_end "from_json as_i as_f" for as_i as_f
  by unfold_locales
    (auto simp: from_json_def typed_def and_then_Inr map_res_length split: data_type.splits json.splits if_splits)

interpretation pb: front_end from_pb
  by unfold_locales
    (auto simp: from_pb_def typed_def and_then_Inr split: data_type.splits pb_kind.splits if_splits)


section \<open>Properties of the servers\<close>

lemma served_rows:
  assumes t: "table_of lower (tables db) n = Some t" and rep: "table_rep t old"
    and w: "\<not> read_only db" "memory_limit db = 0" "store db = None"
    and rows: "\<forall>r \<in> set rs. row_ok (tschema t) r" "map (stored_row (tschema t)) rs = rs" and fit: "batch_fits t rs"
  shows "\<exists>t'. insert_rows lower order db n rs = (db\<lparr>tables := (tables db)(key lower n \<mapsto> t')\<rparr>, Inr (length rs)) \<and>
    table_rep t' (old @ rs)"
proof -
  obtain t' where "insert_many t rs = (t', Inr (length rs))" "table_rep t' (old @ map (stored_row (tschema t)) rs)"
    using insert_many_ok [OF rep rows(1) fit] by blast
  with t w rows(2) show ?thesis
    by (auto simp: insert_rows_def deny_if_read_only_def insert_inner_def log_record_def)
qed

text \<open>
  C28: an insert request, over HTTP or gRPC, is all or nothing: it is refused and the database stays as it
  was, or every one of its rows is stored exactly as it was converted. The rows that fit the arenas of the
  table are those of \<open>batch_fits\<close>; the database is one without a log, \<open>reopen_after_run\<close> covers the log.
\<close>

theorem request_insert_all_or_nothing:
  assumes t: "table_of lower (tables db) n = Some t" and rep: "table_rep t old"
    and w: "\<not> read_only db" "memory_limit db = 0" "store db = None"
    and fit: "\<forall>rs. convert_rows (from_json as_i as_f) (tschema t) jrows = Inr rs \<longrightarrow> batch_fits t rs"
      "\<forall>rs. convert_rows from_pb (tschema t) prows = Inr rs \<longrightarrow> batch_fits t rs"
  shows "(case convert_rows (from_json as_i as_f) (tschema t) jrows of
      Inl e \<Rightarrow> http_insert lower order as_i as_f db n jrows = (db, Inl e)
    | Inr rs \<Rightarrow> \<exists>t'. http_insert lower order as_i as_f db n jrows =
        (db\<lparr>tables := (tables db)(key lower n \<mapsto> t')\<rparr>, Inr (length jrows)) \<and> table_rep t' (old @ rs)) \<and>
   (case convert_rows from_pb (tschema t) prows of
      Inl e \<Rightarrow> grpc_insert lower order db n prows = (db, Inl (Invalid_argument e))
    | Inr rs \<Rightarrow> \<exists>t'. grpc_insert lower order db n prows =
        (db\<lparr>tables := (tables db)(key lower n \<mapsto> t')\<rparr>, Inr (word_of_nat (length prows))) \<and> table_rep t' (old @ rs))"
proof (intro conjI)
  show "case convert_rows (from_json as_i as_f) (tschema t) jrows of
      Inl e \<Rightarrow> http_insert lower order as_i as_f db n jrows = (db, Inl e)
    | Inr rs \<Rightarrow> \<exists>t'. http_insert lower order as_i as_f db n jrows =
        (db\<lparr>tables := (tables db)(key lower n \<mapsto> t')\<rparr>, Inr (length jrows)) \<and> table_rep t' (old @ rs)"
  proof (cases "convert_rows (from_json as_i as_f) (tschema t) jrows")
    case (Inr rs)
    with json.rows_stored [OF Inr] served_rows [OF t rep w, of rs order] fit(1) t show ?thesis
      by (simp add: http_insert_def)
  qed (use t in \<open>simp add: http_insert_def\<close>)
  show "case convert_rows from_pb (tschema t) prows of
      Inl e \<Rightarrow> grpc_insert lower order db n prows = (db, Inl (Invalid_argument e))
    | Inr rs \<Rightarrow> \<exists>t'. grpc_insert lower order db n prows =
        (db\<lparr>tables := (tables db)(key lower n \<mapsto> t')\<rparr>, Inr (word_of_nat (length prows))) \<and> table_rep t' (old @ rs)"
  proof (cases "convert_rows from_pb (tschema t) prows")
    case (Inr rs)
    then obtain t' where "insert_rows lower order db n rs =
        (db\<lparr>tables := (tables db)(key lower n \<mapsto> t')\<rparr>, Inr (length rs))" "table_rep t' (old @ rs)"
      using pb.rows_stored [OF Inr] served_rows [OF t rep w, of rs order] fit(2) by auto
    with Inr pb.rows_stored [OF Inr] t show ?thesis by (auto simp: grpc_insert_def intro!: exI [of _ t'])
  qed (use t in \<open>simp add: grpc_insert_def\<close>)
qed

text \<open>Requests of one row of two values each; numbers of JSON as integers here.\<close>

definition int_as_f64 :: "i64 \<Rightarrow> f64 option" where
  "int_as_f64 n = Some (f64_of_i64 n)"

definition served_db :: database where
  "served_db = db_new\<lparr>tables := [str ''t'' \<mapsto> demo_table]\<rparr>"

lemma served_rows_fit:
  "convert_rows (from_json Some int_as_f64) (tschema demo_table) [[J_Number 7, J_String (str ''ab'')]] = Inr [demo_row]"
  "convert_rows from_pb (tschema demo_table) [[Some (Kind_I 7), Some (Kind_S (str ''ab''))]] = Inr [demo_row]"
  by code_simp+

theorem request_insert_all_or_nothing_witness:
  "(\<exists>t'. http_insert (\<lambda>s. s) demo_order Some int_as_f64 served_db (str ''t'') [[J_Number 7, J_String (str ''ab'')]] =
      (served_db\<lparr>tables := (tables served_db)(key (\<lambda>s. s) (str ''t'') \<mapsto> t')\<rparr>, Inr 1) \<and> table_rep t' [demo_row]) \<and>
   (\<exists>t'. grpc_insert (\<lambda>s. s) demo_order served_db (str ''t'') [[Some (Kind_I 7), Some (Kind_S (str ''ab''))]] =
      (served_db\<lparr>tables := (tables served_db)(key (\<lambda>s. s) (str ''t'') \<mapsto> t')\<rparr>, Inr 1) \<and> table_rep t' [demo_row])"
proof -
  have t: "table_of (\<lambda>s. s) (tables served_db) (str ''t'') = Some demo_table"
    by (simp add: served_db_def table_of_def key_def)
  have rep: "table_rep demo_table []" using table_rep_new [OF demo_table_new] by simp
  have w: "\<not> read_only served_db" "memory_limit served_db = 0" "store served_db = None"
    by (simp_all add: served_db_def db_new_def)
  show ?thesis
    using request_insert_all_or_nothing [OF t rep w, of Some int_as_f64 "[[J_Number 7, J_String (str ''ab'')]]"
        "[[Some (Kind_I 7), Some (Kind_S (str ''ab''))]]" demo_order] demo_table_fits
    by (simp add: served_rows_fit)
qed

text \<open>
  the health reports count every table once: over HTTP the figures are the number of tables, the rows of
  all tables and the bytes that the memory limit is compared with; over gRPC the same figures modulo
  \<open>2 ^ 64\<close>.
\<close>

theorem health_totals:
  assumes "catalog_wf lower (tables db)" and "lists_keys order"
  shows "h_tables (http_health lower order db) = card (dom (tables db)) \<and>
    h_rows (http_health lower order db) = sum_list (map nrows (values_of order (tables db))) \<and>
    h_bytes (http_health lower order db) = bytes_used order db \<and>
    g_tables (grpc_health lower order db) = word_of_nat (card (dom (tables db))) \<and>
    g_rows (grpc_health lower order db) = word_of_nat (h_rows (http_health lower order db)) \<and>
    g_bytes (grpc_health lower order db) = word_of_nat (bytes_used order db)"
proof -
  have "length (order (dom (tables db))) = card (dom (tables db))"
    using assms by (metis catalog_wf_def distinct_card lists_keys_def)
  then have "length (table_names order db) = card (dom (tables db))"
    by (simp add: table_names_def values_of_def)
  with sum_same_mset [OF listed_tables_all [OF assms]] show ?thesis
    by (simp add: http_health_def grpc_health_def bytes_used_def sum_words)
qed

theorem health_totals_witness:
  "h_tables (http_health to_ascii_lowercase demo_order demo_created) = card (dom (tables demo_created)) \<and>
    h_rows (http_health to_ascii_lowercase demo_order demo_created) = sum_list (map nrows (values_of demo_order (tables demo_created))) \<and>
    h_bytes (http_health to_ascii_lowercase demo_order demo_created) = bytes_used demo_order demo_created \<and>
    g_tables (grpc_health to_ascii_lowercase demo_order demo_created) = word_of_nat (card (dom (tables demo_created))) \<and>
    g_rows (grpc_health to_ascii_lowercase demo_order demo_created) =
      word_of_nat (h_rows (http_health to_ascii_lowercase demo_order demo_created)) \<and>
    g_bytes (grpc_health to_ascii_lowercase demo_order demo_created) = word_of_nat (bytes_used demo_order demo_created)"
  by (rule health_totals [OF durable_wf [OF demo_created_durable] demo_order_keys])

text \<open>What a table holds goes through both encodings and back.\<close>

lemma column_rep_typed: "column_rep c vs \<Longrightarrow> v \<in> set vs \<Longrightarrow> typed (column_type c) v"
  by (cases c) (auto simp: column_rep_def column_type_def typed_def)

lemma table_rep_typed:
  assumes rep: "table_rep t rows" and r: "r \<in> set rows"
  shows "list_all2 (\<lambda>f v. typed (fty f) v) (sfields (tschema t)) r"
proof -
  have "typed (fty (sfields (tschema t) ! j)) (r ! j)" if "j < length (columns t)" for j
    using rep r that column_rep_typed [of "columns t ! j" "map (\<lambda>r. r ! j) rows" "r ! j"] by (auto simp: table_rep_def)
  with rep r show ?thesis by (simp add: table_rep_def list_all2_conv_all_nth)
qed

lemma convert_rows_back:
  assumes "\<forall>r \<in> set rows. list_all2 (\<lambda>f v. conv (enc v) (fty f) = Inr v) (sfields s) r"
  shows "convert_rows conv s (map (map enc) rows) = Inr rows"
proof -
  have "convert_row conv s (i, map enc r) = Inr r" if "r \<in> set rows" for i r
    using assms that
    by (auto simp: convert_row_def convert_cell_def schema_len_def with_context_def map_res_Inr list_all2_conv_all_nth)
  then show ?thesis by (simp add: convert_rows_def map_res_Inr list_all2_conv_all_nth nth_enumerate_eq)
qed

lemma pb_back: "typed ty v \<Longrightarrow> from_pb (to_pb v) ty = Inr v"
  by (cases ty; cases v) (simp_all add: typed_def from_pb_def to_pb_def)

lemma json_back:
  "typed ty v \<Longrightarrow> ty \<in> {DT_I64, DT_Bool, DT_Str} \<Longrightarrow> \<forall>x. as_i (num_i x) = Some x \<Longrightarrow>
   from_json as_i as_f (to_json num_i num_f elem v) ty = Inr v"
  by (cases ty; cases v) (simp_all add: typed_def from_json_def to_json_def)

lemma json_not_finite:
  "typed ty (V_F64 x) \<Longrightarrow> \<not> is_finite64 x \<Longrightarrow> from_json as_i as_f (to_json num_i num_f elem (V_F64 x)) ty = Inl (Query (Value_type ty))"
  by (cases ty) (simp_all add: typed_def from_json_def to_json_def)

lemma json_rows_refused:
  assumes rows: "\<forall>r \<in> set rows. list_all2 (\<lambda>f v. typed (fty f) v) (sfields s) r"
    and bad: "r \<in> set rows" "V_F64 x \<in> set r" "\<not> is_finite64 x"
  shows "convert_rows (from_json as_i as_f) s (map (map (to_json num_i num_f elem)) rows) \<noteq> Inr rs"
proof
  assume c: "convert_rows (from_json as_i as_f) s (map (map (to_json num_i num_f elem)) rows) = Inr rs"
  obtain i j where i: "i < length rows" "rows ! i = r" and j: "j < length r" "r ! j = V_F64 x"
    using bad(1,2) by (auto simp: in_set_conv_nth)
  from c i have "convert_row (from_json as_i as_f) s (i, map (to_json num_i num_f elem) r) = Inr (rs ! i)"
    by (auto simp: convert_rows_def map_res_Inr list_all2_conv_all_nth nth_enumerate_eq)
  moreover have ty: "list_all2 (\<lambda>f v. typed (fty f) v) (sfields s) r" using rows bad(1) by blast
  ultimately have "\<exists>v. from_json as_i as_f (to_json num_i num_f elem (V_F64 x)) (fty (sfields s ! j)) = Inr v"
    using j by (auto simp: convert_row_def convert_cell_def map_res_Inr list_all2_conv_all_nth with_context_Inr schema_len_def
        dest!: spec [of _ j])
  moreover have "typed (fty (sfields s ! j)) (V_F64 x)" using ty j by (auto simp: list_all2_conv_all_nth)
  from json_not_finite [OF this bad(3)] have
    "from_json as_i as_f (to_json num_i num_f elem (V_F64 x)) (fty (sfields s ! j)) = Inl (Query (Value_type (fty (sfields s ! j))))" .
  ultimately show False by simp
qed



end
