(* ===== verification/Server.thy ===== *)
theory Server
  imports Interfaces
begin

text \<open>
  \<open>bin/server.rs\<close>: the arguments, the database a server opens, the snapshot it takes when it stops. What it does
  between the two is in \<open>Service\<close>; sockets and signals are outside.
\<close>

section \<open>Arguments\<close>

definition parse_durability :: "rstr \<Rightarrow> durability res" where
  "parse_durability s =
     (if s = str ''fsync'' then Inr Fsync
      else if s = str ''buffered'' then Inr Buffered
      else Inl (Startup (Bad_durability s)))"

definition ascii_upper :: "uchar \<Rightarrow> uchar" where
  "ascii_upper c = (let n = code_point c in if 97 \<le> n \<and> n \<le> 122 then uchar_of (n - 32) else c)"

definition to_ascii_uppercase :: "rstr \<Rightarrow> rstr" where
  "to_ascii_uppercase s = map ascii_upper s"

text \<open>The number in front of a unit, and the factor of the unit.\<close>

definition unit_of :: "rstr \<Rightarrow> rstr \<times> nat" where
  "unit_of v =
     (let without = (\<lambda>cs. trim_end_matches (\<lambda>c. c \<in> set (str cs)) v) in
      if ends_with v (str ''GIB'') \<or> ends_with v (str ''G'') then (without ''GIB'', 2 ^ 30)
      else if ends_with v (str ''MIB'') \<or> ends_with v (str ''M'') then (without ''MIB'', 2 ^ 20)
      else if ends_with v (str ''KIB'') \<or> ends_with v (str ''K'') then (without ''KIB'', 2 ^ 10)
      else (v, 1))"

definition parse_size :: "rstr \<Rightarrow> u64 res" where
  "parse_size text =
     (let s = trim text in
      case unit_of (to_ascii_uppercase s) of (num, factor) \<Rightarrow>
        and_then (ok_or (parse_f64 (trim num)) (Startup (Bad_size s))) (\<lambda>n.
        if f64_partial_cmp n 0 = Some Less then Inl (Startup (Negative_size s))
        else Inr (word_of_nat (f64_to_usize (f64_mul n (f64_of_int (int factor)))))))"

section \<open>Start and stop\<close>

record server_args =
  a_data :: "disk option"
  a_durability :: rstr
  a_max_memory :: "rstr option"
  a_interval :: u64
  a_replica :: bool

text \<open>The database a server works on; the directory \<open>--data\<close> is its files.\<close>

definition start_up :: "(rstr \<Rightarrow> rstr) \<Rightarrow> server_args \<Rightarrow> database res" where
  "start_up lower args =
     and_then (parse_durability (a_durability args)) (\<lambda>d.
     and_then (case a_data args of
                 None \<Rightarrow> Inr db_new
               | Some dsk \<Rightarrow> with_context ''opening the data directory'' (db_open lower d dsk)) (\<lambda>db.
     case a_max_memory args of
       None \<Rightarrow> Inr db
     | Some l \<Rightarrow> and_then (parse_size l) (\<lambda>bytes. Inr (set_memory_limit bytes db))))"

text \<open>Whether the server takes snapshots on its own, and what it does when it stops.\<close>

definition auto_snapshots :: "server_args \<Rightarrow> database \<Rightarrow> bool" where
  "auto_snapshots args db \<longleftrightarrow> 0 < a_interval args \<and> is_persistent db \<and> \<not> a_replica args"

definition shut_down :: "(rstr set \<Rightarrow> rstr list) \<Rightarrow> server_args \<Rightarrow> database \<Rightarrow> database" where
  "shut_down order args db =
     (if is_persistent db \<and> \<not> a_replica args then fst (db_snapshot order db) else db)"

text \<open>\<open>futures_first\<close>: the tasks are polled in order; \<open>polls\<close> says of each round which have finished.\<close>

fun futures_first :: "'a option list list \<Rightarrow> 'a option" where
  "futures_first [] = None"
| "futures_first (round # rs) =
     (case filter (\<lambda>t. t \<noteq> None) round of t # _ \<Rightarrow> t | [] \<Rightarrow> futures_first rs)"


section \<open>Sizes\<close>

text \<open>
  The unit is found by its suffix: a size in \<open>GB\<close>, one of the forms the comment names, has none and is
  not a number.
\<close>

lemma upper_append: "to_ascii_uppercase (s @ t) = to_ascii_uppercase s @ to_ascii_uppercase t"
  by (simp add: to_ascii_uppercase_def)

lemma digit_upper: "is_digit c \<Longrightarrow> ascii_upper c = c"
  by (auto simp: is_digit_def digit_of_def ascii_upper_def Let_def split: if_splits)

lemma digits_upper: "\<forall>c \<in> set s. is_digit c \<Longrightarrow> to_ascii_uppercase s = s"
  by (induction s) (simp_all add: to_ascii_uppercase_def digit_upper)

lemma digit_not_white: "is_digit c \<Longrightarrow> \<not> is_white c"
  by (auto simp: is_digit_def digit_of_def is_white_def Let_def split: if_splits)


lemma ends_with_rev: "ends_with v p \<longleftrightarrow> (\<exists>u. rev v = rev p @ u)"
proof
  assume "ends_with v p"
  then have "v = take (length v - length p) v @ p" by (metis append_take_drop_id ends_with_def)
  then show "\<exists>u. rev v = rev p @ u" by (metis rev_append)
next
  assume "\<exists>u. rev v = rev p @ u"
  then obtain u where "v = rev u @ p" by (metis rev_append rev_rev_ident)
  then show "ends_with v p" by (simp add: ends_with_def)
qed

lemma gb_letters: "str ''GB'' = [uchar_of 71, uchar_of 66]" "\<not> is_digit (uchar_of 71)" "\<not> is_white (uchar_of 66)"
  "ascii_lower (uchar_of 71) = uchar_of 103"
  by (simp_all add: str_def is_digit_def digit_of_def is_white_def Let_def) (simp add: ascii_lower_def Let_def)

lemma gb_unit: "unit_of (s @ str ''GB'') = (s @ str ''GB'', 1)"
proof -
  have "\<not> ends_with (s @ str ''GB'') p"
    if "p \<in> {str ''GIB'', str ''G'', str ''MIB'', str ''M'', str ''KIB'', str ''K''}" for p
    using that by (auto simp: ends_with_rev str_def simp flip: code_point_inject)
  then show ?thesis by (simp add: unit_of_def Let_def)
qed

lemma gb_not_a_number:
  assumes "\<forall>c \<in> set s. is_digit c" and "s \<noteq> []"
  shows "parse_f64 (s @ str ''GB'') = None"
proof -
  obtain d s' where s: "s = d # s'" "is_digit d" using assms by (cases s) auto
  then have d: "code_point d \<noteq> 45" "code_point d \<noteq> 43" "ascii_lower d = d" "d \<noteq> uchar_of 105" "d \<noteq> uchar_of 110"
    by (auto simp: is_digit_def digit_of_def ascii_lower_def Let_def split: if_splits)
  have tw: "takeWhile is_digit (s @ str ''GB'') = s" "dropWhile is_digit (s @ str ''GB'') = str ''GB''"
    using assms(1) gb_letters by (simp_all add: takeWhile_append2 dropWhile_append2)
  have "parse_decimal (s @ str ''GB'') = None"
    unfolding parse_decimal_def tw using gb_letters by (simp add: parse_exp_def Let_def)
  with s d show ?thesis by (simp add: parse_f64_def parse_float_def split_sign_def to_ascii_lowercase_def str_def)
qed

lemma trim_digits: "\<forall>c \<in> set s. is_digit c \<Longrightarrow> s \<noteq> [] \<Longrightarrow> trim (s @ str ''GB'') = s @ str ''GB''"
  using gb_letters by (cases s) (auto simp: trim_def trim_start_matches_def trim_end_matches_def digit_not_white)

text \<open>
  a size in decimal units, such as \<open>3GB\<close>, is refused: the unit is not recognised, and what is left is not a number.
\<close>

theorem decimal_units_refused:
  assumes "s \<noteq> []" and "\<forall>c \<in> set s. is_digit c"
  shows "parse_size (s @ str ''GB'') = Inl (Startup (Bad_size (s @ str ''GB'')))"
proof -
  have "to_ascii_uppercase (s @ str ''GB'') = s @ str ''GB''"
    using assms(2) by (simp add: upper_append digits_upper) code_simp
  with trim_digits [OF assms(2,1)] gb_unit gb_not_a_number [OF assms(2,1)] show ?thesis
    by (simp add: parse_size_def)
qed

text \<open>A size that is not a number turns the limit off.\<close>

theorem nan_is_no_limit: "parse_size (str ''nan'') = Inr 0"
proof -
  have nan: "f64_val 0x7FF8000000000000 = F_NaN" by (simp add: f64_val_def fval_of_def Let_def)
  have "to_ascii_uppercase (trim (str ''nan'')) = str ''NAN''" "unit_of (str ''NAN'') = (str ''NAN'', 1)"
    "parse_f64 (trim (str ''NAN'')) = Some 0x7FF8000000000000"
    by code_simp+
  moreover have "f64_mul 0x7FF8000000000000 x = 0x7FF8000000000000" for x
    by (simp add: f64_mul_def nan f64_bits_def bits_of_def inf_bits_def)
  moreover have "f64_to_usize 0x7FF8000000000000 = 0" by (simp add: f64_to_usize_def nan)
  ultimately show ?thesis by (simp add: parse_size_def Let_def f64_partial_cmp_def is_nan64_def nan)
qed

section \<open>Stopping and starting again\<close>

text \<open>
  a server that was stopped starts again with the tables it had, from the final snapshot alone, and numbers
  its records from one again.
\<close>

theorem clean_restart:
  assumes "lists_keys order" and "durable lower db" and "catalog_small (tables db)" and "\<not> a_replica args"
    and "a_data args' = Some (disk_of (shut_down order args db))" and "parse_durability (a_durability args') = Inr d"
    and "a_max_memory args' = None"
  shows "\<exists>db'. start_up lower args' = Inr db' \<and> tables db' = tables db \<and> next_lsn db' = 1"
proof -
  obtain s where s: "store db = Some s" using durable_store [OF assms(2)] by blast
  then have "shut_down order args db = fst (db_snapshot order db)" using assms(4) by (simp add: shut_down_def is_persistent_def)
  with open_after_snapshot [OF assms(1-3) s, of d] assms(5-7) show ?thesis
    by (simp add: start_up_def with_context_def next_lsn_def)
qed

theorem clean_restart_witness:
  "\<exists>db'. start_up to_ascii_lowercase
      \<lparr>a_data = Some (disk_of (shut_down demo_order
         \<lparr>a_data = None, a_durability = str ''fsync'', a_max_memory = None, a_interval = 300, a_replica = False\<rparr> demo_created)),
       a_durability = str ''fsync'', a_max_memory = None, a_interval = 300, a_replica = False\<rparr> = Inr db' \<and>
    tables db' = tables demo_created \<and> next_lsn db' = 1"
  by (rule clean_restart [OF demo_order_keys demo_created_durable demo_created_small]) (simp_all add: parse_durability_def)

theorem decimal_units_refused_witness:
  "parse_size (str ''3'' @ str ''GB'') = Inl (Startup (Bad_size (str ''3'' @ str ''GB'')))"
proof (rule decimal_units_refused)
  show "\<forall>c \<in> set (str ''3''). is_digit c" by code_simp
qed (simp add: str_def)

end
