(* ===== verification/Console.thy ===== *)
theory Console
  imports Interfaces
begin

text \<open>
  The interactive client: \<open>cli.rs\<close>, \<open>client.rs\<close> and the parts of \<open>bin/cli.rs\<close> between its input and output.
  A turn of the loop is a function from the line typed to the new state and what is done next; the program
  around it, with its requests, is in \<open>Terminal\<close>. Which characters are alphanumeric, how the library folds case and how it
  prints JSON are parameters. The last part follows the schema of a database through the server's reply into
  the cache behind the completion.
\<close>

lemma str_inject: "str a = str b \<longleftrightarrow> a = b"
proof -
  have "inj (\<lambda>c. uchar_of (of_char c))"
    by (rule injI) (metis code_point_uchar_of of_char_eq_iff of_char_scalar)
  then show ?thesis by (simp add: str_def inj_map_eq_map)
qed

section \<open>Word completion\<close>

abbreviation quote :: uchar where "quote \<equiv> uchar_of 39"
abbreviation semicolon :: uchar where "semicolon \<equiv> uchar_of 59"
abbreviation backslash :: uchar where "backslash \<equiv> uchar_of 92"
abbreviation newline :: uchar where "newline \<equiv> uchar_of 10"

text \<open>\<open>&s[..n]\<close> and \<open>&s[n..]\<close>: \<open>None\<close> where the slice panics, inside a character or past the end.\<close>

fun split_bytes :: "rstr \<Rightarrow> nat \<Rightarrow> (rstr \<times> rstr) option" where
  "split_bytes [] n = (if n = 0 then Some ([], []) else None)"
| "split_bytes (c # s) n =
     (if n = 0 then Some ([], c # s)
      else if n < length (utf8_char c) then None
      else map_option (\<lambda>(a, b). (c # a, b)) (split_bytes s (n - length (utf8_char c))))"

text \<open>\<open>str::rfind\<close> with a predicate: the byte offset of the last such character.\<close>

fun rfind_char :: "(uchar \<Rightarrow> bool) \<Rightarrow> rstr \<Rightarrow> nat option" where
  "rfind_char P [] = None"
| "rfind_char P (c # s) =
     (case rfind_char P s of
        Some i \<Rightarrow> Some (length (utf8_char c) + i)
      | None \<Rightarrow> if P c then Some 0 else None)"

definition word_char :: "(uchar \<Rightarrow> bool) \<Rightarrow> uchar \<Rightarrow> bool" where
  "word_char alnum c \<longleftrightarrow> alnum c \<or> code_point c = 95 \<or> code_point c = 92"

definition word_at :: "(uchar \<Rightarrow> bool) \<Rightarrow> rstr \<Rightarrow> nat \<Rightarrow> (nat \<times> rstr) res" where
  "word_at alnum line pos =
     (case split_bytes line pos of
        None \<Rightarrow> Inl (Panic ''slice'')
      | Some (head, _) \<Rightarrow>
          (let start = (case rfind_char (\<lambda>c. \<not> word_char alnum c) head of Some i \<Rightarrow> i + 1 | None \<Rightarrow> 0) in
           case split_bytes head start of
             None \<Rightarrow> Inl (Panic ''slice'')
           | Some (_, w) \<Rightarrow> Inr (start, w)))"

record schema_cache =
  cat_tables :: "rstr list"
  cat_columns :: "rstr \<Rightarrow> rstr list option"

definition all_columns :: "(rstr set \<Rightarrow> rstr list) \<Rightarrow> schema_cache \<Rightarrow> rstr list" where
  "all_columns order cat =
     remdups_adj (sort (concat (map (\<lambda>k. the (cat_columns cat k)) (order (dom (cat_columns cat))))))"

definition starts_with :: "rstr \<Rightarrow> rstr \<Rightarrow> bool" where
  "starts_with p s \<longleftrightarrow> take (length p) s = p"

definition pick :: "(rstr \<Rightarrow> rstr) \<Rightarrow> rstr list \<Rightarrow> rstr \<Rightarrow> rstr list" where
  "pick lower cands prefix = remdups_adj (sort (filter (\<lambda>c. starts_with prefix (lower c)) cands))"

fun split_whitespace :: "rstr \<Rightarrow> rstr list" where
  "split_whitespace [] = []"
| "split_whitespace (c # s) =
     (if is_white c then split_whitespace s
      else case s of
        [] \<Rightarrow> [[c]]
      | d # _ \<Rightarrow>
          if is_white d then [c] # split_whitespace s
          else case split_whitespace s of [] \<Rightarrow> [[c]] | w # ws \<Rightarrow> (c # w) # ws)"

definition last_word :: "rstr \<Rightarrow> rstr" where
  "last_word s = (case rev (split_whitespace s) of [] \<Rightarrow> [] | w # _ \<Rightarrow> w)"

definition sql_keywords :: "rstr list" where
  "sql_keywords = map str
     [''SELECT'', ''FROM'', ''WHERE'', ''GROUP BY'', ''ORDER BY'', ''LIMIT'', ''OFFSET'', ''INSERT INTO'', ''VALUES'',
      ''CREATE TABLE'', ''DROP TABLE'', ''IF EXISTS'', ''IF NOT EXISTS'', ''SHOW TABLES'', ''AND'', ''OR'', ''NOT'', ''IN'',
      ''BETWEEN'', ''LIKE'', ''ILIKE'', ''AS'', ''ASC'', ''DESC'', ''DISTINCT'', ''CAST'', ''EXTRACT'', ''INT'', ''DOUBLE'',
      ''BOOL'', ''TEXT'', ''VECTOR'', ''count('', ''sum('', ''avg('', ''min('', ''max('', ''uniq('', ''length('', ''lower('',
      ''upper('', ''abs('', ''floor('', ''ceil('', ''round('', ''sqrt('', ''substring('', ''to_hour('', ''to_day('',
      ''to_month('', ''to_year('', ''if('', ''l2_distance('', ''cosine_distance('', ''inner_product('']"

definition meta_commands :: "rstr list" where
  "meta_commands = map (\<lambda>w. backslash # str w) [''dt'', ''d'', ''timing'', ''q'', ''help'']"

definition table_position :: "rstr \<Rightarrow> bool" where
  "table_position w \<longleftrightarrow> w \<in> set (map str [''from'', ''into'', ''table'', ''join'', ''update''])"

definition complete ::
  "(uchar \<Rightarrow> bool) \<Rightarrow> (rstr \<Rightarrow> rstr) \<Rightarrow> (rstr set \<Rightarrow> rstr list) \<Rightarrow> rstr \<Rightarrow> nat \<Rightarrow> schema_cache \<Rightarrow>
   (nat \<times> rstr list) res" where
  "complete alnum lower order line pos cat =
     and_then (word_at alnum line pos) (\<lambda>(start, prefix).
     if take 1 prefix = [backslash] then Inr (start, pick lower meta_commands (lower prefix))
     else
       (case split_bytes line start of
          None \<Rightarrow> Inl (Panic ''slice'')
        | Some (before, _) \<Rightarrow>
            if table_position (lower (last_word before))
            then Inr (start, pick lower (cat_tables cat) (lower prefix))
            else Inr (start, pick lower (all_columns order cat @ cat_tables cat @ sql_keywords) (lower prefix))))"

section \<open>The schema on the side of the client\<close>

text \<open>\<open>v[k]\<close> on a JSON value: null when there is no such field.\<close>

definition json_field :: "'n json \<Rightarrow> string \<Rightarrow> 'n json" where
  "json_field j k =
     (case j of J_Object fs \<Rightarrow> (case map_of fs (str k) of None \<Rightarrow> J_Null | Some v \<Rightarrow> v) | _ \<Rightarrow> J_Null)"

definition json_array :: "'n json \<Rightarrow> 'n json list" where
  "json_array j = (case j of J_Array xs \<Rightarrow> xs | _ \<Rightarrow> [])"

definition json_str :: "'n json \<Rightarrow> rstr option" where
  "json_str j = (case j of J_String s \<Rightarrow> Some s | _ \<Rightarrow> None)"

definition cache_table :: "(rstr \<Rightarrow> rstr) \<Rightarrow> 'n json \<Rightarrow> schema_cache \<Rightarrow> schema_cache" where
  "cache_table lower t c =
     (case json_str (json_field t ''name'') of
        None \<Rightarrow> c
      | Some name \<Rightarrow>
          (let cols = List.map_filter (\<lambda>f. json_str (json_field f ''name'')) (json_array (json_field t ''columns'')) in
           \<lparr>cat_tables = cat_tables c @ [name], cat_columns = (cat_columns c)(lower name \<mapsto> cols)\<rparr>))"

definition from_schema_json :: "(rstr \<Rightarrow> rstr) \<Rightarrow> 'n json \<Rightarrow> schema_cache" where
  "from_schema_json lower v =
     (let c = fold (cache_table lower) (json_array (json_field v ''tables''))
                \<lparr>cat_tables = [], cat_columns = (\<lambda>_. None)\<rparr>
      in c\<lparr>cat_tables := sort (cat_tables c)\<rparr>)"

text \<open>The body the server sends for its schema.\<close>

definition info_json :: "(nat \<Rightarrow> 'n) \<Rightarrow> table_info \<Rightarrow> 'n json" where
  "info_json num t =
     J_Object [(str ''name'', J_String (i_name t)), (str ''rows'', J_Number (num (i_rows t))),
       (str ''bytes_used'', J_Number (num (i_bytes t))),
       (str ''columns'', J_Array (map (\<lambda>(n, ty). J_Object [(str ''name'', J_String n), (str ''type'', J_String ty)]) (i_columns t)))]"

definition schema_json :: "(nat \<Rightarrow> 'n) \<Rightarrow> table_info list \<Rightarrow> 'n json" where
  "schema_json num ts = J_Object [(str ''tables'', J_Array (map (info_json num) ts))]"

section \<open>Statements\<close>

fun complete_loop :: "rstr \<Rightarrow> bool \<Rightarrow> bool \<Rightarrow> bool" where
  "complete_loop [] in_str last_semi = last_semi"
| "complete_loop (c # s) in_str last_semi =
     (if c = quote \<and> in_str \<and> (case s of [] \<Rightarrow> False | d # _ \<Rightarrow> d = quote)
      then complete_loop (tl s) in_str last_semi
      else if c = quote then complete_loop s (\<not> in_str) last_semi
      else if c = semicolon \<and> \<not> in_str then complete_loop s in_str True
      else if \<not> is_white c then complete_loop s in_str False
      else complete_loop s in_str last_semi)"

definition is_complete :: "rstr \<Rightarrow> bool" where
  "is_complete s = complete_loop s False False"

text \<open>The pieces of a file: the loop of \<open>split_statements\<close>, with the piece under way.\<close>

definition push_piece :: "rstr \<Rightarrow> rstr list \<Rightarrow> rstr list" where
  "push_piece cur out = (if trim cur = [] then out else out @ [trim cur])"

fun split_loop :: "rstr \<Rightarrow> bool \<Rightarrow> rstr \<Rightarrow> rstr list \<Rightarrow> rstr list" where
  "split_loop [] in_str cur out = push_piece cur out"
| "split_loop (c # s) in_str cur out =
     (if c = quote then split_loop s (\<not> in_str) (cur @ [c]) out
      else if c = semicolon \<and> \<not> in_str then split_loop s in_str [] (push_piece cur out)
      else split_loop s in_str (cur @ [c]) out)"

definition split_statements :: "rstr \<Rightarrow> rstr list" where
  "split_statements text = split_loop text False [] []"

definition is_ddl :: "(rstr \<Rightarrow> rstr) \<Rightarrow> rstr \<Rightarrow> bool" where
  "is_ddl lower sql =
     (let s = lower (trim_start_matches is_white sql) in
      starts_with (str ''create'') s \<or> starts_with (str ''drop'') s)"

section \<open>The interactive loop\<close>

datatype command =
    C_quit
  | C_query rstr
  | C_timing
  | C_refresh
  | C_snapshot
  | C_help
  | C_unknown rstr

definition meta :: "rstr \<Rightarrow> command" where
  "meta cmd =
     (case split_whitespace cmd of
        [] \<Rightarrow> C_unknown []
      | w # ws \<Rightarrow>
          if w = backslash # str ''q'' \<or> w = backslash # str ''quit'' then C_quit
          else if w = backslash # str ''dt'' then C_query (str ''SHOW TABLES'')
          else if w = backslash # str ''d'' then
            (case ws of t # _ \<Rightarrow> C_query (str ''DESCRIBE '' @ t) | [] \<Rightarrow> C_query (str ''SHOW TABLES''))
          else if w = backslash # str ''timing'' then C_timing
          else if w = backslash # str ''refresh'' then C_refresh
          else if w = backslash # str ''snapshot'' then C_snapshot
          else if w = backslash # str ''help'' then C_help
          else C_unknown w)"

datatype input = Typed rstr | Interrupted | End_of_input | Input_error

datatype outcome =
    Prompt
  | Meta command
  | Run rstr bool
  | Quit
  | Give_up

record console =
  buffer :: rstr
  timing :: bool

text \<open>One turn of \<open>repl\<close>; the flag of \<open>Run\<close> says whether the schema is read again afterwards.\<close>

definition repl_turn :: "(rstr \<Rightarrow> rstr) \<Rightarrow> console \<Rightarrow> input \<Rightarrow> console \<times> outcome" where
  "repl_turn lower st inp =
     (case inp of
        Interrupted \<Rightarrow> (st\<lparr>buffer := []\<rparr>, Prompt)
      | End_of_input \<Rightarrow> (st, Quit)
      | Input_error \<Rightarrow> (st, Give_up)
      | Typed line \<Rightarrow>
          (let trimmed = trim line in
           if buffer st = [] \<and> trimmed = [] then (st, Prompt)
           else if buffer st = [] \<and> take 1 trimmed = [backslash] then
             (case meta trimmed of
                C_quit \<Rightarrow> (st, Quit)
              | C_timing \<Rightarrow> (st\<lparr>timing := \<not> timing st\<rparr>, Meta C_timing)
              | c \<Rightarrow> (st, Meta c))
           else
             (let buf = buffer st @ line @ [newline] in
              if \<not> is_complete buf \<and> trim line \<noteq> [] then (st\<lparr>buffer := buf\<rparr>, Prompt)
              else
                (let stmt = trim_end_matches (\<lambda>c. c = semicolon) (trim buf) in
                 (st\<lparr>buffer := []\<rparr>, if stmt = [] then Prompt else Run stmt (is_ddl lower stmt))))))"

fun repl_turns :: "(rstr \<Rightarrow> rstr) \<Rightarrow> console \<Rightarrow> input list \<Rightarrow> console \<times> outcome list" where
  "repl_turns lower st [] = (st, [])"
| "repl_turns lower st (i # is) =
     (case repl_turn lower st i of
        (st', Quit) \<Rightarrow> (st', [Quit])
      | (st', Give_up) \<Rightarrow> (st', [Give_up])
      | (st', o1) \<Rightarrow> (case repl_turns lower st' is of (st'', os) \<Rightarrow> (st'', o1 # os)))"

section \<open>Tables on the terminal\<close>

text \<open>The widths of the columns, in characters; a cell beyond the last column is not looked at here.\<close>

definition widen :: "nat list \<Rightarrow> rstr list \<Rightarrow> nat list" where
  "widen w row = map (\<lambda>i. if i < length row then max (w ! i) (length (row ! i)) else w ! i) [0..<length w]"

definition widths :: "rstr list \<Rightarrow> rstr list list \<Rightarrow> nat list" where
  "widths names rows = foldl widen (map length names) rows"

definition pad :: "rstr \<Rightarrow> nat \<Rightarrow> rstr" where
  "pad s n = s @ replicate (n - length s) (uchar_of 32)"

fun join_with :: "rstr \<Rightarrow> rstr list \<Rightarrow> rstr" where
  "join_with sep [] = []"
| "join_with sep [s] = s"
| "join_with sep (s # t # r) = s @ sep @ join_with sep (t # r)"

definition rule_line :: "nat list \<Rightarrow> nat \<Rightarrow> nat \<Rightarrow> nat \<Rightarrow> rstr" where
  "rule_line w left mid right =
     uchar_of left # join_with [uchar_of mid] (map (\<lambda>n. replicate (n + 2) (uchar_of 9472)) w) @ [uchar_of right]"

definition bar :: uchar where
  "bar = uchar_of 9474"

text \<open>A line of cells; \<open>w[i]\<close> panics for a cell beyond the last column.\<close>

definition cell_line :: "nat list \<Rightarrow> rstr list \<Rightarrow> rstr res" where
  "cell_line w cells =
     and_then (map_res (\<lambda>(i, c). if i < length w then Inr (pad c (w ! i)) else Inl (Panic ''index'')) (enumerate 0 cells))
       (\<lambda>ps. Inr ([bar, uchar_of 32] @ join_with [uchar_of 32, bar, uchar_of 32] ps @ [uchar_of 32, bar]))"

definition table_lines :: "rstr list \<Rightarrow> rstr list list \<Rightarrow> rstr list res" where
  "table_lines names rows =
     (let w = widths names rows in
      and_then (cell_line w names) (\<lambda>head.
      and_then (map_res (cell_line w) rows) (\<lambda>body.
      Inr ([rule_line w 9484 9516 9488, head, rule_line w 9500 9532 9508] @ body @ [rule_line w 9492 9524 9496]))))"

definition format_table :: "rstr list \<Rightarrow> rstr list list \<Rightarrow> rstr res" where
  "format_table names rows = and_then (table_lines names rows) (\<lambda>ls. Inr (join_with [newline] ls))"

text \<open>\<open>render\<close> of \<open>bin/cli.rs\<close>; how the library prints other values is a parameter.\<close>

definition render_cell :: "('n json \<Rightarrow> rstr) \<Rightarrow> 'n json \<Rightarrow> rstr" where
  "render_cell print v = (case v of J_String s \<Rightarrow> s | J_Null \<Rightarrow> [] | _ \<Rightarrow> print v)"

definition reply_columns :: "'n json \<Rightarrow> rstr list" where
  "reply_columns v = map (\<lambda>x. case json_str x of Some s \<Rightarrow> s | None \<Rightarrow> str ''?'') (json_array (json_field v ''columns''))"

definition reply_rows :: "('n json \<Rightarrow> rstr) \<Rightarrow> 'n json \<Rightarrow> rstr list list" where
  "reply_rows print v = map (\<lambda>r. map (render_cell print) (json_array r)) (json_array (json_field v ''rows''))"

text \<open>What \<open>run_and_print\<close> prints of a reply, up to the line with the number of rows.\<close>

definition printed_reply :: "('n json \<Rightarrow> rstr) \<Rightarrow> 'n json \<Rightarrow> (rstr \<times> nat option) res" where
  "printed_reply print v =
     (if reply_columns v = [] then Inr (print v, None)
      else and_then (format_table (reply_columns v) (reply_rows print v)) (\<lambda>t. Inr (t, Some (length (reply_rows print v)))))"

section \<open>The client\<close>

text \<open>\<open>trim_start_matches\<close> and \<open>trim_end_matches\<close> with a string: every copy of it goes.\<close>

function trim_prefixes :: "rstr \<Rightarrow> rstr \<Rightarrow> rstr" where
  "trim_prefixes p s = (if p \<noteq> [] \<and> starts_with p s then trim_prefixes p (drop (length p) s) else s)"
  by pat_completeness auto
termination
proof (relation "measure (\<lambda>(p, s). length s)")
  fix p s :: rstr
  assume a: "p \<noteq> [] \<and> starts_with p s"
  then have "length p \<le> length s" by (metis length_take min.cobounded1 starts_with_def)
  with a show "((p, drop (length p) s), p, s) \<in> measure (\<lambda>(p, s). length s)" by (cases p) auto
qed simp

definition normalize_url :: "rstr \<Rightarrow> rstr" where
  "normalize_url url =
     trim_end_matches (\<lambda>c. code_point c = 47)
       (trim_prefixes (str ''https://'') (trim_prefixes (str ''http://'') (trim url)))"

text \<open>The message shown for a reply that is not a success: the \<open>error\<close> field of its body, or the body.\<close>

definition error_text :: "(u8 list \<Rightarrow> 'n json option) \<Rightarrow> (u8 list \<Rightarrow> rstr) \<Rightarrow> u8 list \<Rightarrow> rstr" where
  "error_text parse lossy body =
     (case parse body of
        None \<Rightarrow> lossy body
      | Some v \<Rightarrow> (case json_str (json_field v ''error'') of Some m \<Rightarrow> m | None \<Rightarrow> lossy body))"


declare trim_prefixes.simps [simp del]

section \<open>Slices and words\<close>

lemma utf8_char_pos: "0 < length (utf8_char c)"
  by (simp add: utf8_char_def Let_def)

lemma utf8_char_not_Nil [simp]: "utf8_char c \<noteq> []"
  using utf8_char_pos [of c] by auto

lemma utf8_char_ascii: "length (utf8_char c) = 1 \<longleftrightarrow> code_point c < 128"
  by (simp add: utf8_char_def Let_def)

lemma str_bytes_len_simps [simp]:
  "str_bytes_len [] = 0" "str_bytes_len (c # s) = length (utf8_char c) + str_bytes_len s"
  "str_bytes_len (s @ t) = str_bytes_len s + str_bytes_len t"
  by (simp_all add: str_bytes_len_def)

lemma split_bytes_0 [simp]: "split_bytes s 0 = Some ([], s)"
  by (cases s) simp_all

lemma split_bytes_append [simp]: "split_bytes (a @ b) (str_bytes_len a) = Some (a, b)"
  by (induction a) auto

lemma split_bytes_inside:
  assumes "0 < k" and "k < length (utf8_char c)"
  shows "split_bytes (a @ c # b) (str_bytes_len a + k) = None"
  using assms by (induction a) auto

lemma rfind_char_None: "\<forall>c \<in> set s. \<not> P c \<Longrightarrow> rfind_char P s = None"
  by (induction s) auto

lemma rfind_char_last: "P c \<Longrightarrow> \<forall>d \<in> set w. \<not> P d \<Longrightarrow> rfind_char P (a @ c # w) = Some (str_bytes_len a)"
  by (induction a) (auto simp: rfind_char_None)

text \<open>The word before the cursor and what precedes it.\<close>

definition word_end :: "(uchar \<Rightarrow> bool) \<Rightarrow> rstr \<Rightarrow> rstr \<times> rstr" where
  "word_end alnum head =
     (rev (dropWhile (word_char alnum) (rev head)), rev (takeWhile (word_char alnum) (rev head)))"

text \<open>
  C37: the completion takes the longest run of word characters before the cursor, unless the character in
  front of it is not ASCII: the start of the word is computed as one byte after that character, and the
  slice panics inside it.
\<close>

theorem completed_word:
  assumes "split_bytes line pos = Some (head, rest)" and "word_end alnum head = (before, w)"
  shows "head = before @ w \<and> (\<forall>c \<in> set w. word_char alnum c) \<and>
    word_at alnum line pos =
      (if before = [] \<or> code_point (last before) < 128 then Inr (str_bytes_len before, w) else Inl (Panic ''slice''))"
proof (intro conjI)
  have bw: "before = rev (dropWhile (word_char alnum) (rev head))" "w = rev (takeWhile (word_char alnum) (rev head))"
    using assms(2) by (simp_all add: word_end_def)
  show head: "head = before @ w" unfolding bw by (simp flip: rev_append)
  show word: "\<forall>c \<in> set w. word_char alnum c" unfolding bw by (auto dest: set_takeWhileD)
  show "word_at alnum line pos =
      (if before = [] \<or> code_point (last before) < 128 then Inr (str_bytes_len before, w) else Inl (Panic ''slice''))"
  proof (cases before rule: rev_cases)
    case Nil
    with head word assms(1) show ?thesis
      by (simp add: word_at_def rfind_char_None split_bytes_append [of "[]", simplified])
  next
    case (snoc a c)
    then have c: "\<not> word_char alnum c" using bw(1) hd_dropWhile [of "word_char alnum" "rev head"] by (metis append_is_Nil_conv hd_rev last_snoc list.discI rev_is_Nil_conv rev_rev_ident)
    have r: "rfind_char (\<lambda>c. \<not> word_char alnum c) head = Some (str_bytes_len a)"
      using rfind_char_last [of "\<lambda>c. \<not> word_char alnum c" c w a] c word head snoc by simp
    show ?thesis
    proof (cases "code_point c < 128")
      case True
      then have "str_bytes_len before = str_bytes_len a + 1" using snoc utf8_char_ascii by simp
      with r head assms(1) snoc True split_bytes_append [of before w] show ?thesis by (simp add: word_at_def)
    next
      case False
      then have "1 < length (utf8_char c)" using utf8_char_ascii [of c] utf8_char_pos [of c] by linarith
      from split_bytes_inside [OF _ this, of a w] have "split_bytes head (str_bytes_len a + 1) = None"
        using head snoc by simp
      with r assms(1) snoc False show ?thesis by (simp add: word_at_def)
    qed
  qed
qed

section \<open>Candidates\<close>

lemma sorted_distinct_adj: "sorted xs \<Longrightarrow> distinct (remdups_adj (xs :: 'a :: linorder list))"
  by (induction xs rule: remdups_adj.induct) (auto simp: order_le_less)

lemma pick_set: "set (pick lower cands p) = {c \<in> set cands. starts_with p (lower c)}"
  by (auto simp: pick_def)

lemma pick_sorted: "sorted (pick lower cands p) \<and> distinct (pick lower cands p)"
  by (simp add: pick_def sorted_remdups_adj sorted_distinct_adj)

section \<open>The end of a statement\<close>

definition quotes :: "rstr \<Rightarrow> nat" where
  "quotes s = length (filter (\<lambda>c. c = quote) s)"

lemma quotes_simps [simp]:
  "quotes [] = 0" "quotes (c # s) = (if c = quote then Suc (quotes s) else quotes s)"
  "quotes (s @ t) = quotes s + quotes t"
  by (simp_all add: quotes_def)

lemma special_chars [simp]:
  "quote \<noteq> semicolon" "\<not> is_white quote" "\<not> is_white semicolon" "is_white newline"
  by (simp_all add: is_white_def Let_def flip: code_point_inject)

definition trailing :: "rstr \<Rightarrow> bool" where
  "trailing s \<longleftrightarrow> (\<forall>c \<in> set s. c = quote \<or> is_white c)"

definition ended :: "rstr \<Rightarrow> bool \<Rightarrow> bool" where
  "ended s in_str \<longleftrightarrow> (\<exists>a b. s = a @ semicolon # b \<and> even (quotes a) \<noteq> in_str \<and> trailing b)"

lemma ex_split_Cons:
  "(\<exists>a b. c # s = a @ x # b \<and> Q a b) \<longleftrightarrow> c = x \<and> Q [] s \<or> (\<exists>a b. s = a @ x # b \<and> Q (c # a) b)"
  by (auto simp: Cons_eq_append_conv)

lemma ended_simps [simp]:
  "\<not> ended [] i"
  "ended (c # s) i \<longleftrightarrow> c = semicolon \<and> \<not> i \<and> trailing s \<or> ended s (if c = quote then \<not> i else i)"
  by (simp_all add: ended_def ex_split_Cons)

lemma trailing_simps [simp]:
  "trailing []" "trailing (c # s) \<longleftrightarrow> (c = quote \<or> is_white c) \<and> trailing s"
  by (auto simp: trailing_def)

lemma complete_loop_iff: "complete_loop s i l \<longleftrightarrow> l \<and> trailing s \<or> ended s i"
proof (induction s i l rule: complete_loop.induct)
  case (2 c s i l)
  show ?case
  proof (cases "c = quote \<and> i \<and> (case s of [] \<Rightarrow> False | d # _ \<Rightarrow> d = quote)")
    case True
    then obtain s' where "s = quote # s'" by (cases s) auto
    with True 2(1) show ?thesis by auto
  next
    case False
    then show ?thesis using 2(2-) by auto
  qed
qed simp

text \<open>
  the console sends its input exactly when there is a semicolon outside of string literals with only
  blanks and quotes behind it.
\<close>

theorem complete_input:
  "is_complete s \<longleftrightarrow>
     (\<exists>a b. s = a @ semicolon # b \<and> even (quotes a) \<and> trailing b)"
  by (simp add: is_complete_def complete_loop_iff ended_def)

section \<open>Statements of a file\<close>

text \<open>A statement on its own: trimmed, its literals closed, its semicolons inside literals.\<close>

definition lone_statement :: "rstr \<Rightarrow> bool" where
  "lone_statement s \<longleftrightarrow>
     s \<noteq> [] \<and> trim s = s \<and> even (quotes s) \<and> (\<forall>a b. s = a @ semicolon # b \<longrightarrow> odd (quotes a))"

lemma split_loop_inside:
  assumes "\<forall>a b. s = a @ semicolon # b \<longrightarrow> even (quotes a) = i"
  shows "split_loop (s @ rest) i cur out = split_loop rest (i \<noteq> odd (quotes s)) (cur @ s) out"
  using assms
proof (induction s arbitrary: i cur)
  case (Cons c s)
  have tl: "\<forall>a b. s = a @ semicolon # b \<longrightarrow> even (quotes a) = (if c = quote then \<not> i else i)"
    using Cons.prems by (metis append_Cons even_Suc quotes_simps(2))
  have hd: "c = semicolon \<longrightarrow> i" using Cons.prems by (metis append_Nil even_zero quotes_simps(1))
  from Cons.IH [OF tl] hd show ?case by (cases i; cases "even (quotes s)") (auto split: if_splits)
qed simp

lemma trim_white: "is_white c \<Longrightarrow> trim (c # s) = trim s"
  by (simp add: trim_def trim_start_matches_def)

lemma split_one:
  assumes "lone_statement s"
  shows "split_loop (s @ semicolon # newline # rest) False cur out = split_loop rest False [newline] (push_piece (cur @ s) out)"
proof -
  have "\<forall>a b. s = a @ semicolon # b \<longrightarrow> even (quotes a) = False" "even (quotes s)"
    using assms by (auto simp: lone_statement_def)
  from split_loop_inside [OF this(1), of "semicolon # newline # rest" cur out] this(2) show ?thesis
    by (simp add: code_point_inject [symmetric])
qed

lemma split_rest:
  "\<forall>s \<in> set ss. lone_statement s \<Longrightarrow>
   split_loop (concat (map (\<lambda>s. s @ [semicolon, newline]) ss)) False [newline] out = out @ ss"
proof (induction ss arbitrary: out)
  case Nil
  then show ?case by (simp add: push_piece_def trim_white) (simp add: trim_def trim_start_matches_def trim_end_matches_def)
next
  case (Cons s ss)
  then have "push_piece (newline # s) out = out @ [s]" by (auto simp: push_piece_def trim_white lone_statement_def)
  with Cons split_one [of s _ "[newline]" out] show ?case by simp
qed

text \<open>
  a file of trimmed statements, each ended by a semicolon and a line break, is split into just these
  statements; semicolons inside literals do not split.
\<close>

theorem file_statements:
  assumes "\<forall>s \<in> set ss. lone_statement s"
  shows "split_statements (concat (map (\<lambda>s. s @ [semicolon, newline]) ss)) = ss"
proof (cases ss)
  case Nil
  then show ?thesis by (simp add: split_statements_def push_piece_def trim_def trim_start_matches_def trim_end_matches_def)
next
  case (Cons s ss')
  then have "push_piece s [] = [s]" using assms by (auto simp: push_piece_def lone_statement_def)
  with Cons assms split_one [of s _ "[]" "[]"] split_rest [of ss' "[s]"] show ?thesis
    by (simp add: split_statements_def)
qed


section \<open>Typing a statement\<close>

text \<open>Lines that go to the buffer: none is blank, and none of their beginnings ends a statement.\<close>

definition unfinished :: "rstr \<Rightarrow> rstr list \<Rightarrow> bool" where
  "unfinished typed_in ls \<longleftrightarrow>
     (\<forall>l \<in> set ls. trim l \<noteq> []) \<and>
     (\<forall>k < length ls. \<not> is_complete (typed_in @ concat (map (\<lambda>l. l @ [newline]) (take (Suc k) ls))))"

lemma unfinished_Cons:
  "unfinished typed_in (l # ls) \<longleftrightarrow>
     trim l \<noteq> [] \<and> \<not> is_complete (typed_in @ l @ [newline]) \<and> unfinished (typed_in @ l @ [newline]) ls"
  by (auto simp: unfinished_def All_less_Suc2)

lemma repl_buffers:
  assumes "unfinished (buffer st) ls" and "buffer st = [] \<longrightarrow> (\<forall>l ls'. ls = l # ls' \<longrightarrow> take 1 (trim l) \<noteq> [backslash])"
  shows "repl_turns lower st (map Typed ls @ is) =
     map_prod id ((@) (replicate (length ls) Prompt))
       (repl_turns lower (st\<lparr>buffer := buffer st @ concat (map (\<lambda>l. l @ [newline]) ls)\<rparr>) is)"
  using assms
proof (induction ls arbitrary: st)
  case Nil
  then show ?case by (simp add: map_prod_def)
next
  case (Cons l ls)
  let ?st = "st\<lparr>buffer := buffer st @ l @ [newline]\<rparr>"
  have "repl_turn lower st (Typed l) = (?st, Prompt)"
    using Cons.prems by (auto simp: repl_turn_def Let_def unfinished_Cons)
  moreover have "unfinished (buffer ?st) ls" using Cons.prems(1) by (simp add: unfinished_Cons)
  ultimately show ?case using Cons.IH [of ?st] by (simp add: split_def map_prod_def)
qed

text \<open>
  a statement typed over several lines is sent once, when its last line is read, as the lines joined
  without the final semicolons; nothing is sent before, and the buffer is empty afterwards.
\<close>

theorem statement_of_lines:
  assumes "unfinished [] ls" and "is_complete (concat (map (\<lambda>l. l @ [newline]) (ls @ [l])))" and "trim l \<noteq> []"
    and "take 1 (trim (hd (ls @ [l]))) \<noteq> [backslash]"
    and "trim_end_matches (\<lambda>c. c = semicolon) (trim (concat (map (\<lambda>l. l @ [newline]) (ls @ [l])))) = stmt" "stmt \<noteq> []"
  shows "repl_turns lower \<lparr>buffer = [], timing = t\<rparr> (map Typed (ls @ [l])) =
    (\<lparr>buffer = [], timing = t\<rparr>, replicate (length ls) Prompt @ [Run stmt (is_ddl lower stmt)])"
proof -
  let ?buf = "concat (map (\<lambda>l. l @ [newline]) ls)"
  have "repl_turn lower \<lparr>buffer = ?buf, timing = t\<rparr> (Typed l) =
      (\<lparr>buffer = [], timing = t\<rparr>, Run stmt (is_ddl lower stmt))"
    using assms by (cases ls) (auto simp: repl_turn_def Let_def)
  then have last: "repl_turns lower \<lparr>buffer = ?buf, timing = t\<rparr> [Typed l] =
      (\<lparr>buffer = [], timing = t\<rparr>, [Run stmt (is_ddl lower stmt)])" by simp
  have "\<forall>l' ls'. ls = l' # ls' \<longrightarrow> take 1 (trim l') \<noteq> [backslash]" using assms(4) by auto
  with repl_buffers [of "\<lparr>buffer = [], timing = t\<rparr>" ls lower "[Typed l]"] assms(1) last show ?thesis
    by simp
qed

section \<open>The lines of a table\<close>

lemma length_widths [simp]: "length (widths names rows) = length names"
  by (induction rows rule: rev_induct) (simp_all add: widths_def widen_def)

lemma widen_ge:
  "i < length w \<Longrightarrow> w ! i \<le> widen w row ! i \<and> (i < length row \<longrightarrow> length (row ! i) \<le> widen w row ! i)"
  by (simp add: widen_def)

lemma widths_cells:
  assumes "i < length names"
  shows "length (names ! i) \<le> widths names rows ! i \<and>
    (\<forall>row \<in> set rows. i < length row \<longrightarrow> length (row ! i) \<le> widths names rows ! i)"
proof (induction rows rule: rev_induct)
  case Nil
  then show ?case using assms by (simp add: widths_def)
next
  case (snoc row rows)
  have "widths names (rows @ [row]) = widen (widths names rows) row" by (simp add: widths_def)
  with widen_ge [of i "widths names rows" row] snoc assms show ?case
    by simp (meson le_trans)
qed

lemma length_join: "length (join_with sep ss) = sum_list (map length ss) + (length ss - 1) * length sep"
  by (induction sep ss rule: join_with.induct) auto

lemma rule_width: "w \<noteq> [] \<Longrightarrow> length (rule_line w a b c) = sum_list w + 3 * length w + 1"
proof -
  have "sum_list (map (\<lambda>n. n + 2) w) = sum_list w + 2 * length w" by (induction w) simp_all
  moreover assume "w \<noteq> []"
  ultimately show ?thesis by (cases w) (simp_all add: rule_line_def length_join comp_def)
qed

lemma cell_line_width:
  assumes "length cells = length w" and "w \<noteq> []" and "\<forall>i < length w. length (cells ! i) \<le> w ! i"
  shows "\<exists>l. cell_line w cells = Inr l \<and> length l = sum_list w + 3 * length w + 1"
proof -
  let ?ps = "map (\<lambda>(i, c). pad c (w ! i)) (enumerate 0 cells)"
  have "map_res (\<lambda>(i, c). if i < length w then Inr (pad c (w ! i)) else Inl (Panic ''index'')) (enumerate 0 cells) = Inr ?ps"
    by (rule map_res_total) (auto simp: in_set_enumerate_eq assms(1))
  moreover have "map length ?ps = w"
    using assms by (auto intro!: nth_equalityI simp: pad_def nth_enumerate_eq)
  then have "sum_list (map length ?ps) = sum_list w" by simp
  ultimately show ?thesis using assms(1,2) by (simp add: cell_line_def length_join) (cases w; simp)
qed

text \<open>
  the lines of a table on the terminal all have the same number of characters, as soon as every row
  has as many cells as there are columns.
\<close>

theorem table_aligned:
  assumes "names \<noteq> []" and "\<forall>row \<in> set rows. length row = length names"
  shows "\<exists>ls. table_lines names rows = Inr ls \<and> length ls = length rows + 4 \<and>
    (\<forall>l \<in> set ls. length l = sum_list (widths names rows) + 3 * length names + 1)"
proof -
  let ?w = "widths names rows" and ?n = "sum_list (widths names rows) + 3 * length names + 1"
  have w: "?w \<noteq> []" using assms(1) by (metis length_0_conv length_widths)
  obtain head where head: "cell_line ?w names = Inr head" "length head = ?n"
    using cell_line_width [of names ?w] w widths_cells [of _ names rows] by auto
  have "\<exists>l. cell_line ?w row = Inr l \<and> length l = ?n" if "row \<in> set rows" for row
    using cell_line_width [of row ?w] w widths_cells [of _ names rows] assms(2) that by auto
  then obtain f where f: "\<forall>row \<in> set rows. cell_line ?w row = Inr (f row) \<and> length (f row) = ?n" by metis
  then have "map_res (cell_line ?w) rows = Inr (map f rows)" by (intro map_res_total) auto
  with head f rule_width [OF w] show ?thesis by (auto simp: table_lines_def Let_def)
qed


section \<open>From the server to the completion\<close>

lemma json_fields [simp]:
  "json_field (schema_json num ts) ''tables'' = J_Array (map (info_json num) ts)"
  "json_field (info_json num t) ''name'' = J_String (i_name t)"
  "json_field (info_json num t) ''columns'' =
     J_Array (map (\<lambda>(n, ty). J_Object [(str ''name'', J_String n), (str ''type'', J_String ty)]) (i_columns t))"
  "json_field (J_Object [(str ''name'', v), x]) ''name'' = v"
  "json_str (J_String n) = Some n" "json_array (J_Array xs) = xs"
  by (simp_all add: json_field_def schema_json_def info_json_def json_str_def json_array_def str_def code_point_inject [symmetric])

lemma column_names:
  "List.map_filter (\<lambda>f. json_str (json_field f ''name''))
     (map ((\<lambda>(n, ty). J_Object [(str ''name'', J_String n), (str ''type'', J_String ty)]) \<circ> (\<lambda>f. (fname f, type_name (fty f)))) fs) =
   map fname fs"
  by (induction fs) (simp_all add: map_filter_simps)

lemma info_cached:
  "cache_table lower (info_json num (table_info_of t)) c =
     \<lparr>cat_tables = cat_tables c @ [tname t], cat_columns = (cat_columns c)(lower (tname t) \<mapsto> map fname (sfields (tschema t)))\<rparr>"
  by (simp add: cache_table_def table_info_of_def column_names)

lemma infos_cached:
  assumes "\<forall>t \<in> set ts. m (lower (tname t)) = Some t"
  shows "cat_tables (fold (cache_table lower) (map (info_json num) (map table_info_of ts)) c) = cat_tables c @ map tname ts"
    and "cat_columns (fold (cache_table lower) (map (info_json num) (map table_info_of ts)) c) k =
      (if \<exists>t \<in> set ts. lower (tname t) = k then map_option (\<lambda>t. map fname (sfields (tschema t))) (m k) else cat_columns c k)"
  using assms by (induction ts arbitrary: c) (auto simp: info_cached)

text \<open>
  C34: what the completion knows is what the database holds: from the reply to a schema request the client
  gets the sorted names of all tables and, under each key of the catalogue, the columns of its table.
\<close>

theorem schema_reaches_console:
  assumes wf: "catalog_wf lower (tables db)" and ord: "lists_keys order"
  shows "cat_tables (from_schema_json lower (schema_json num (http_schema lower order db))) = table_names order db \<and>
    cat_columns (from_schema_json lower (schema_json num (http_schema lower order db))) k =
      map_option (\<lambda>t. map fname (sfields (tschema t))) (tables db k)"
proof -
  let ?ts = "listed_tables lower order db"
  have set: "set ?ts = ran (tables db)"
  proof -
    have "set ?ts = set (values_of order (tables db))" using listed_tables_all [OF wf ord] by (metis set_mset_mset)
    also have "\<dots> = ran (tables db)"
      using wf ord by (force simp: values_of_def lists_keys_def catalog_wf_def ran_def)
    finally show ?thesis .
  qed
  then have found: "\<forall>t \<in> set ?ts. tables db (lower (tname t)) = Some t"
    using wf by (auto simp: catalog_wf_def key_def ran_def)
  have "table_of lower (tables db) n = Some t \<Longrightarrow> tname t = n" if "n \<in> set (table_names order db)" for n t
    using that found set wf ord
    by (auto simp: table_names_def table_of_def key_def values_of_def ran_def lists_keys_def catalog_wf_def)
  moreover have "table_of lower (tables db) n \<noteq> None" if "n \<in> set (table_names order db)" for n
    using that wf ord
    by (auto simp: table_names_def table_of_def key_def values_of_def lists_keys_def catalog_wf_def)
  moreover have "map tname (List.map_filter f ns) = ns"
    if "\<forall>n \<in> set ns. \<exists>t. f n = Some t \<and> tname t = n" for f and ns
    using that by (induction ns) (auto simp: map_filter_simps)
  ultimately have names: "map tname ?ts = table_names order db"
    unfolding listed_tables_def by (metis not_None_eq)
  have all: "(\<exists>t \<in> set ?ts. lower (tname t) = k) \<longleftrightarrow> k \<in> dom (tables db)"
    using set wf by (force simp: ran_def catalog_wf_def key_def)
  show ?thesis
    using infos_cached [where m = "tables db" and lower = lower, OF found, of num "\<lparr>cat_tables = [], cat_columns = (\<lambda>_. None)\<rparr>"] all names
    by (auto simp: from_schema_json_def Let_def http_schema_def table_names_def sorted_sort_id)
qed

text \<open>After \<open>FROM\<close> the completion offers the tables, and only them.\<close>

lemma table_completion:
  assumes "word_at alnum line pos = Inr (start, p)" and "take 1 p \<noteq> [backslash]"
    and "split_bytes line start = Some (before, rest)" and "table_position (lower (last_word before))"
  shows "\<exists>cs. complete alnum lower order line pos cat = Inr (start, cs) \<and> sorted cs \<and> distinct cs \<and>
    set cs = {t \<in> set (cat_tables cat). starts_with (lower p) (lower t)}"
  using assms pick_set [of lower "cat_tables cat" "lower p"] pick_sorted [of lower "cat_tables cat" "lower p"]
  by (simp add: complete_def)


section \<open>Concrete inputs\<close>

definition small_letter :: "uchar \<Rightarrow> bool" where
  "small_letter c \<longleftrightarrow> 97 \<le> code_point c \<and> code_point c \<le> 122"

text \<open>A dash of three bytes in front of the word.\<close>

theorem completed_word_witness:
  "uchar_of 8212 # str ''ab'' = [uchar_of 8212] @ str ''ab'' \<and>
   word_at small_letter (uchar_of 8212 # str ''ab'') 5 = Inl (Panic ''slice'')"
proof -
  have "split_bytes (uchar_of 8212 # str ''ab'') 5 = Some (uchar_of 8212 # str ''ab'', [])"
    "word_end small_letter (uchar_of 8212 # str ''ab'') = ([uchar_of 8212], str ''ab'')"
    "\<not> code_point (last [uchar_of 8212]) < 128"
    by code_simp+
  with completed_word [of "uchar_of 8212 # str ''ab''" 5 "uchar_of 8212 # str ''ab''" "[]" small_letter] show ?thesis
    by simp
qed

lemma lone_statement_closed:
  "s \<noteq> [] \<Longrightarrow> trim s = s \<Longrightarrow> even (quotes s) \<Longrightarrow> semicolon \<notin> set s \<Longrightarrow> lone_statement s"
  by (auto simp: lone_statement_def)

theorem file_statements_witness:
  "split_statements (str ''DROP TABLE t'' @ [semicolon, newline] @ str ''SHOW TABLES'' @ [semicolon, newline]) =
    [str ''DROP TABLE t'', str ''SHOW TABLES'']"
proof -
  have "lone_statement (str ''DROP TABLE t'')" "lone_statement (str ''SHOW TABLES'')"
    by (rule lone_statement_closed; code_simp)+
  with file_statements [of "[str ''DROP TABLE t'', str ''SHOW TABLES'']"] show ?thesis by simp
qed

theorem statement_of_lines_witness:
  "repl_turns to_ascii_lowercase \<lparr>buffer = [], timing = False\<rparr>
     (map Typed ([str ''select a,''] @ [str ''b from t'' @ [semicolon]])) =
   (\<lparr>buffer = [], timing = False\<rparr>,
    replicate 1 Prompt @ [Run (str ''select a,'' @ [newline] @ str ''b from t'') (is_ddl to_ascii_lowercase (str ''select a,'' @ [newline] @ str ''b from t''))])"
proof -
  have "unfinished [] [str ''select a,'']"
    by (simp add: unfinished_def) code_simp
  moreover have "is_complete (concat (map (\<lambda>l. l @ [newline]) ([str ''select a,''] @ [str ''b from t'' @ [semicolon]])))"
    "trim (str ''b from t'' @ [semicolon]) \<noteq> []" "take 1 (trim (hd ([str ''select a,''] @ [str ''b from t'' @ [semicolon]]))) \<noteq> [backslash]"
    "trim_end_matches (\<lambda>c. c = semicolon) (trim (concat (map (\<lambda>l. l @ [newline]) ([str ''select a,''] @ [str ''b from t'' @ [semicolon]])))) =
      str ''select a,'' @ [newline] @ str ''b from t''"
    "str ''select a,'' @ [newline] @ str ''b from t'' \<noteq> []"
    by code_simp+
  ultimately show ?thesis
    using statement_of_lines [of "[str ''select a,'']" "str ''b from t'' @ [semicolon]" "str ''select a,'' @ [newline] @ str ''b from t''" to_ascii_lowercase False] by simp
qed

theorem table_aligned_witness:
  "\<exists>ls. table_lines [str ''id'', str ''name''] [[str ''7'', str ''ab'']] = Inr ls \<and> length ls = 1 + 4 \<and>
    (\<forall>l \<in> set ls. length l = sum_list (widths [str ''id'', str ''name''] [[str ''7'', str ''ab'']]) + 3 * 2 + 1)"
  using table_aligned [of "[str ''id'', str ''name'']" "[[str ''7'', str ''ab'']]"] by simp

theorem schema_reaches_console_witness:
  "cat_tables (from_schema_json to_ascii_lowercase (schema_json word_of_nat (http_schema to_ascii_lowercase demo_order demo_created)) :: schema_cache) =
     table_names demo_order demo_created \<and>
   cat_columns (from_schema_json to_ascii_lowercase (schema_json (word_of_nat :: nat \<Rightarrow> u64) (http_schema to_ascii_lowercase demo_order demo_created))) (str ''t'') =
     map_option (\<lambda>t. map fname (sfields (tschema t))) (tables demo_created (str ''t''))"
  using schema_reaches_console [OF durable_wf [OF demo_created_durable] demo_order_keys, of "word_of_nat :: nat \<Rightarrow> u64" "str ''t''"]
    schema_reaches_console [OF durable_wf [OF demo_created_durable] demo_order_keys, of word_of_nat "str ''t''"]
  by blast

end
