(* ===== verification/Replication.thy ===== *)
theory Replication
  imports Recovery
begin

text \<open>
  \<open>replication.rs\<close> and the replication half of \<open>http.rs\<close>. The network and the JSON library are
  outside the source: a request is the reply it gets, and a reply body is what \<open>serde_json\<close>
  makes of it; \<open>Service\<close> and \<open>Sessions\<close> put the routes of a primary in their place. The theory ties the two ends together: what a primary serves, what a replica
  makes of it, and when the two hold the same tables.
\<close>

section \<open>Hexadecimal payloads\<close>

definition hex_digit :: "nat \<Rightarrow> uchar" where
  "hex_digit n = uchar_of (if n < 10 then 48 + n else 87 + n)"

text \<open>\<open>format!("{x:02x}")\<close> of each byte.\<close>

definition hex :: "u8 list \<Rightarrow> rstr" where
  "hex b = concat (map (\<lambda>x. [hex_digit (unat x div 16), hex_digit (unat x mod 16)]) b)"

text \<open>\<open>u8::from_str_radix(_, 16)\<close> on the bytes of a slice: a plus sign in front is accepted.\<close>

definition hex_value :: "u8 \<Rightarrow> nat option" where
  "hex_value c =
     (let n = unat c in
      if 48 \<le> n \<and> n \<le> 57 then Some (n - 48)
      else if 97 \<le> n \<and> n \<le> 102 then Some (n - 87)
      else if 65 \<le> n \<and> n \<le> 70 then Some (n - 55)
      else None)"

fun hex_digits :: "nat \<Rightarrow> u8 list \<Rightarrow> nat option" where
  "hex_digits acc [] = Some acc"
| "hex_digits acc (c # cs) =
     (case hex_value c of None \<Rightarrow> None | Some d \<Rightarrow> hex_digits (acc * 16 + d) cs)"

definition from_str_radix16 :: "u8 list \<Rightarrow> u8 option" where
  "from_str_radix16 bs =
     (let digits = (case bs of c # d # ds \<Rightarrow> if c = 43 then d # ds else bs | _ \<Rightarrow> bs) in
      if digits = [] then None
      else case hex_digits 0 digits of
        None \<Rightarrow> None
      | Some n \<Rightarrow> if n < 256 then Some (word_of_nat n) else None)"

text \<open>
  \<open>unhex\<close> walks the bytes of the string two at a time; slicing inside a character is a panic.
\<close>

definition char_boundary :: "u8 list \<Rightarrow> nat \<Rightarrow> bool" where
  "char_boundary bs i \<longleftrightarrow> i = 0 \<or> i = length bs \<or> (i < length bs \<and> \<not> cont (bs ! i))"

definition unhex_at :: "u8 list \<Rightarrow> nat \<Rightarrow> u8 res" where
  "unhex_at bs i =
     (if char_boundary bs i \<and> char_boundary bs (i + 2)
      then ok_or (from_str_radix16 (take 2 (drop i bs))) Hex_digit
      else Inl (Panic ''byte index is not a char boundary''))"

definition unhex :: "rstr \<Rightarrow> u8 list res" where
  "unhex s =
     (if odd (str_bytes_len s) then Inl Hex_odd
      else map_res (\<lambda>k. unhex_at (utf8 s) (2 * k)) [0..<str_bytes_len s div 2])"

section \<open>The primary's side\<close>

text \<open>
  The body of a reply after \<open>serde_json\<close> has parsed it: \<open>None\<close> where the key \<open>records\<close> holds no
  array, and per record the values under \<open>lsn\<close> and \<open>payload\<close> if they have the right JSON type.
\<close>

type_synonym wal_entry = "u64 option \<times> rstr option"

text \<open>The handlers \<open>wal\<close> and \<open>replication_snapshot\<close> of \<open>http.rs\<close>.\<close>

definition wal_reply :: "database \<Rightarrow> u64 \<Rightarrow> (database \<times> wal_entry list) res" where
  "wal_reply db after =
     and_then (wal_since db after) (\<lambda>(db', rs).
     Inr (db', map (\<lambda>(lsn, p). (Some lsn, Some (hex p))) rs))"

section \<open>The replica's side\<close>

definition bootstrap :: "(rstr \<Rightarrow> rstr) \<Rightarrow> database \<Rightarrow> u8 list res \<Rightarrow> database \<times> u64 res" where
  "bootstrap lower db reply =
     (case with_context ''snapshot of the primary'' reply of
        Inl e \<Rightarrow> (db, Inl e)
      | Inr bytes \<Rightarrow> load_snapshot_bytes lower db bytes)"

definition decode_record :: "(rstr \<Rightarrow> rstr) \<Rightarrow> database \<Rightarrow> u8 list \<Rightarrow> wal_record res" where
  "decode_record lower db p = wal_decode (schema_of lower (tables db)) p"

text \<open>The loop of \<open>pull_once\<close>; records applied before an error stay applied.\<close>

fun pull_records ::
  "(rstr \<Rightarrow> rstr) \<Rightarrow> database \<Rightarrow> u64 \<Rightarrow> nat \<Rightarrow> wal_entry list \<Rightarrow> database \<times> (u64 \<times> nat) res" where
  "pull_records lower db lsn n [] = (db, Inr (lsn, n))"
| "pull_records lower db lsn n ((l, s) # es) =
     (case and_then (ok_or l Missing_lsn) (\<lambda>rec_lsn.
           if rec_lsn \<noteq> lsn + 1 then Inl (Wal_gap (lsn + 1) rec_lsn)
           else
             and_then (ok_or s Missing_payload) (\<lambda>text.
             and_then (unhex text) (\<lambda>payload.
             and_then (with_context ''parsing record'' (decode_record lower db payload)) (\<lambda>rec.
             Inr (rec_lsn, rec))))) of
        Inl e \<Rightarrow> (db, Inl e)
      | Inr (rec_lsn, rec) \<Rightarrow>
          (case apply_record lower (tables db) rec of
             (m, Inl e) \<Rightarrow> (db\<lparr>tables := m\<rparr>, Inl (Context ''applying record'' e))
           | (m, Inr _) \<Rightarrow> pull_records lower (db\<lparr>tables := m\<rparr>) rec_lsn (n + 1) es))"

definition pull_once ::
  "(rstr \<Rightarrow> rstr) \<Rightarrow> database \<Rightarrow> u64 \<Rightarrow> wal_entry list option res \<Rightarrow> database \<times> (u64 \<times> nat) res" where
  "pull_once lower db applied reply =
     (case and_then reply (\<lambda>body. ok_or body Missing_records) of
        Inl e \<Rightarrow> (db, Inl e)
      | Inr records \<Rightarrow> pull_records lower db applied 0 records)"

text \<open>
  The loop of \<open>follow\<close>, one turn at a time. Its state is the replica and the variable \<open>applied\<close>;
  the replies of the network are arguments. The test \<open>contains("...")\<close> on the printed error
  chain is \<open>gap_error\<close>: only the message of \<open>Wal_gap\<close> has that text.
\<close>

fun gap_error :: "err \<Rightarrow> bool" where
  "gap_error (Wal_gap _ _) = True"
| "gap_error (Context _ e) = gap_error e"
| "gap_error _ = False"

type_synonym replica = "database \<times> u64 option"

definition after_pull :: "u64 \<Rightarrow> database \<times> (u64 \<times> nat) res \<Rightarrow> replica" where
  "after_pull from r =
     (case r of
        (db, Inr (lsn, _)) \<Rightarrow> (db, Some lsn)
      | (db, Inl e) \<Rightarrow> (db, if gap_error e then None else Some from))"

definition follow_turn ::
  "(rstr \<Rightarrow> rstr) \<Rightarrow> u8 list res \<Rightarrow> (u64 \<Rightarrow> wal_entry list option res) \<Rightarrow> replica \<Rightarrow> replica" where
  "follow_turn lower snap wal st =
     (case st of
        (db, Some l) \<Rightarrow> after_pull l (pull_once lower db l (wal l))
      | (db, None) \<Rightarrow>
          (case bootstrap lower db snap of
             (db', Inl e) \<Rightarrow> (db', None)
           | (db', Inr l) \<Rightarrow> after_pull l (pull_once lower db' l (wal l))))"

definition follow_start :: "database \<Rightarrow> replica" where
  "follow_start db = (set_read_only True db, None)"

text \<open>The replies of a primary in state \<open>p\<close> whose requests all succeed.\<close>

definition snapshot_from :: "(rstr set \<Rightarrow> rstr list) \<Rightarrow> database \<Rightarrow> u8 list res" where
  "snapshot_from order p = Inr (snapshot_bytes order p)"

definition wal_from :: "database \<Rightarrow> u64 \<Rightarrow> wal_entry list option res" where
  "wal_from p after = and_then (wal_reply p after) (\<lambda>(_, es). Inr (Some es))"

section \<open>Payloads survive the hexadecimal text\<close>

abbreviation hex_pair :: "u8 \<Rightarrow> u8 list" where
  "hex_pair x \<equiv> utf8 [hex_digit (unat x div 16), hex_digit (unat x mod 16)]"

definition hex_byte :: "nat \<Rightarrow> u8" where
  "hex_byte d = byte (if d < 10 then 48 + d else 87 + d)"

definition digit_good :: "nat \<Rightarrow> bool" where
  "digit_good d \<longleftrightarrow> utf8_char (hex_digit d) = [hex_byte d] \<and> hex_value (hex_byte d) = Some d \<and>
     \<not> cont (hex_byte d) \<and> hex_byte d \<noteq> 43"

lemma all_digits_good: "list_all digit_good [0..<16]"
  by code_simp

lemma digit_props:
  "d < 16 \<Longrightarrow> utf8_char (hex_digit d) = [hex_byte d]" "d < 16 \<Longrightarrow> hex_value (hex_byte d) = Some d"
  "d < 16 \<Longrightarrow> \<not> cont (hex_byte d)" "d < 16 \<Longrightarrow> hex_byte d \<noteq> 43"
  using all_digits_good by (auto simp: list_all_iff digit_good_def)

lemma nibbles: "unat (x :: u8) div 16 < 16" "unat x mod 16 < 16"
  by (rule less_mult_imp_div_less) simp_all

lemma hex_pair_bytes: "hex_pair x = [hex_byte (unat x div 16), hex_byte (unat x mod 16)]"
  by (simp add: digit_props(1) nibbles)

lemma hex_pair_props:
  "length (hex_pair x) = 2" "\<not> cont (hex_pair x ! 0)" "from_str_radix16 (hex_pair x) = Some x"
proof -
  show "length (hex_pair x) = 2" "\<not> cont (hex_pair x ! 0)"
    by (simp_all only: hex_pair_bytes) (simp_all add: digit_props(3) nibbles)
  have "hex_digits 0 [hex_byte (unat x div 16), hex_byte (unat x mod 16)] = Some (unat x)"
    by (simp add: digit_props(2) nibbles)
  then show "from_str_radix16 (hex_pair x) = Some x"
    by (simp add: from_str_radix16_def hex_pair_bytes digit_props(4) nibbles del: hex_digits.simps utf8_simps)
qed

lemma utf8_hex: "utf8 (hex b) = concat (map hex_pair b)"
  by (induction b) (simp_all add: hex_def)

lemma hex_pairs_length: "length (concat (map hex_pair b)) = 2 * length b"
  using hex_pair_props(1) by (induction b) (simp_all del: utf8_simps)

lemma hex_pairs_take:
  "k < length b \<Longrightarrow> take 2 (drop (2 * k) (concat (map hex_pair b))) = hex_pair (b ! k)"
proof (induction b arbitrary: k)
  case (Cons x b)
  note len = hex_pair_props(1) [of x]
  show ?case
  proof (cases k)
    case 0
    then show ?thesis using len by (simp del: utf8_simps)
  next
    case (Suc j)
    have "drop (2 * k) (concat (map hex_pair (x # b))) = drop (2 * j) (concat (map hex_pair b))"
      using len Suc by (simp del: utf8_simps)
    with Cons Suc show ?thesis by (simp del: utf8_simps)
  qed
qed simp

lemma hex_pairs_boundary: "k \<le> length b \<Longrightarrow> char_boundary (concat (map hex_pair b)) (2 * k)"
proof (cases "k = length b")
  case False
  assume "k \<le> length b"
  with False have k: "k < length b" by simp
  have "concat (map hex_pair b) ! (2 * k) = take 2 (drop (2 * k) (concat (map hex_pair b))) ! 0"
    using k hex_pairs_length [of b] by simp
  also have "\<dots> = hex_pair (b ! k) ! 0" by (simp only: hex_pairs_take [OF k])
  finally show ?thesis
    using k hex_pairs_length [of b] hex_pair_props(2) by (simp add: char_boundary_def del: utf8_simps)
qed (simp add: char_boundary_def hex_pairs_length del: utf8_simps)

lemma unhex_hex: "unhex (hex b) = Inr b"
proof -
  have len: "str_bytes_len (hex b) = 2 * length b"
    by (simp add: str_bytes_len_def utf8_hex hex_pairs_length del: utf8_simps)
  have "unhex_at (utf8 (hex b)) (2 * k) = Inr (b ! k)" if "k < length b" for k
  proof -
    have "char_boundary (utf8 (hex b)) (2 * k)" "char_boundary (utf8 (hex b)) (2 * k + 2)"
      using hex_pairs_boundary [of k b] hex_pairs_boundary [of "Suc k" b] that
      by (simp_all add: utf8_hex del: utf8_simps)
    then show ?thesis
      using hex_pairs_take [OF that] hex_pair_props(3) by (simp add: unhex_at_def utf8_hex del: utf8_simps)
  qed
  then have "map_res (\<lambda>k. unhex_at (utf8 (hex b)) (2 * k)) [0..<length b] = Inr (map ((!) b) [0..<length b])"
    by (intro map_res_total) simp
  then show ?thesis by (simp add: unhex_def len map_nth del: utf8_simps)
qed

section \<open>Catching up\<close>

text \<open>Pulling what an honest primary sends is replaying its records.\<close>

definition entries :: "raw_record list \<Rightarrow> wal_entry list" where
  "entries rs = map (\<lambda>(lsn, p). (Some lsn, Some (hex p))) rs"

lemma pull_entries:
  assumes "consecutive (lsn + 1) rs" and "replay lower b (tables db) rs = Inr m"
    and "\<forall>(l, p) \<in> set rs. b < l"
  shows "pull_records lower db lsn n (entries rs) =
     (db\<lparr>tables := m\<rparr>, Inr (lsn + word_of_nat (length rs), n + length rs))"
  using assms
proof (induction rs arbitrary: db lsn n)
  case (Cons r rs)
  obtain l p where r: "r = (l, p)" by (cases r)
  with Cons.prems have l: "l = lsn + 1" "\<not> l \<le> b" by (auto simp: not_le)
  from Cons.prems(2) l obtain m1 where m1: "apply_payload lower (tables db) p = (m1, Inr ())"
    "replay lower b m1 rs = Inr m"
    by (auto simp: r split: prod.splits sum.splits)
  from m1(1) obtain rec u where rec: "wal_decode (schema_of lower (tables db)) p = Inr rec"
    "apply_record lower (tables db) rec = (m1, Inr u)"
    by (auto simp: apply_payload_def simp: with_context_Inr split: sum.splits prod.splits)
  show ?case
    using Cons.IH [of "lsn + 1" "db\<lparr>tables := m1\<rparr>" "n + 1"] Cons.prems m1(2) rec l
    by (simp add: r entries_def unhex_hex decode_record_def)
qed (simp add: entries_def)

section \<open>In step with the primary\<close>

text \<open>The records of a log, and with them the account of durability, are determined by its bytes.\<close>

lemma wal_rep_unique: "wal_rep w rs \<Longrightarrow> wal_rep w rs' \<Longrightarrow> rs = rs'"
  using wal_open_rep [of w rs Fsync] wal_open_rep [of w rs' Fsync] by simp

lemma durable_as_grows:
  assumes d: "durable_as lower db s rs first m b" and one: "one_frame db db'" and dur: "durable lower db'"
  shows "\<exists>s' rs'. durable_as lower db' s' (rs @ rs') first m b"
proof -
  have s: "store db = Some s" using d by (simp add: durable_as_def)
  obtain s' rs2 first2 m2 b2 where d2: "durable_as lower db' s' rs2 first2 m2 b2"
    using dur by (auto simp: durable_def)
  have s': "store db' = Some s'" using d2 by (simp add: durable_as_def)
  from one s s' consider "s' = s" |
    p where "s' = s\<lparr>store_wal := fst (wal_append (store_wal s) p)\<rparr>" "payload_small p"
    by (auto simp: one_frame_def)
  then show ?thesis
  proof cases
    case 1
    then have "rs2 = rs" using d d2 by (auto simp: durable_as_def intro: wal_rep_unique)
    moreover have "m2 = m" "b2 = b" using 1 d d2 by (simp_all add: durable_as_def)
    ultimately have "durable_as lower db' s' rs first m b"
      using 1 d d2 by (simp add: durable_as_def)
    then show ?thesis by (metis append_Nil2)
  next
    case (2 p)
    let ?r = "(wnext (store_wal s), p)"
    have "wal_rep (store_wal s') (rs @ [?r])"
      using 2 d wal_rep_append [of "store_wal s" rs p] by (simp add: durable_as_def)
    moreover have "wal_rep (store_wal s') rs2" using d2 by (simp add: durable_as_def)
    ultimately have rs2: "rs2 = rs @ [?r]" by (rule wal_rep_unique [symmetric])
    have base: "m2 = m" "b2 = b" using 2 d d2 by (simp_all add: durable_as_def)
    have same: "first + word_of_nat (length rs) = wnext (store_wal s)"
      using d by (simp add: durable_as_def lsn_sum)
    have c2: "consecutive first2 (rs @ [?r])" "unat first2 + length rs + 1 = unat (wnext (store_wal s'))"
      using d2 rs2 by (simp_all add: durable_as_def)
    have "first2 = first"
    proof -
      have "first2 + word_of_nat (length rs) = wnext (store_wal s)"
        using c2(1) by (simp add: consecutive_append)
      with same show ?thesis by (metis add_right_cancel)
    qed
    then have "durable_as lower db' s' (rs @ [?r]) first m b"
      using d2 rs2 base by simp
    then show ?thesis by blast
  qed
qed

text \<open>
  \<open>synced lower p r l\<close>: the replica \<open>r\<close> holds what the primary \<open>p\<close> held when its LSN was \<open>l\<close>,
  and the records since then are all in the primary's log.
\<close>

definition synced :: "(rstr \<Rightarrow> rstr) \<Rightarrow> database \<Rightarrow> database \<Rightarrow> u64 \<Rightarrow> bool" where
  "synced lower p r l \<longleftrightarrow>
     (\<exists>s rs first m b j. durable_as lower p s rs first m b \<and> j \<le> length rs \<and>
        replay lower b m (take j rs) = Inr (tables r) \<and> b \<le> l \<and> unat l + 1 = unat first + j)"

lemma filter_consecutive:
  "consecutive first rs \<Longrightarrow> unat first + length rs < 2 ^ 64 \<Longrightarrow> j \<le> length rs \<Longrightarrow>
   unat l + 1 = unat first + j \<Longrightarrow> filter (\<lambda>(lsn, _). l < lsn) rs = drop j rs"
proof (induction rs arbitrary: first j)
  case (Cons r rs)
  obtain x p where r: "r = (x, p)" by (cases r)
  have x: "x = first" "consecutive (first + 1) rs" using Cons.prems(1) by (simp_all add: r)
  have up: "unat (first + 1) = unat first + 1" using Cons.prems(2) by (simp add: unat_word_ariths)
  show ?case
  proof (cases j)
    case 0
    then have "l < first" using Cons.prems(4) by (simp add: word_less_nat_alt)
    moreover have "l < y" if "(y, q) \<in> set rs" for y q
      using consecutive_bounds [OF Cons.prems(1,2), of y q] that Cons.prems(4) 0
      by (simp add: word_less_nat_alt)
    ultimately show ?thesis using 0 x r by (auto intro!: filter_True)
  next
    case (Suc i)
    then have "\<not> l < first" using Cons.prems(4) by (simp add: word_less_nat_alt)
    with Cons.IH [OF x(2), of i] Cons.prems Suc x up r show ?thesis by simp
  qed
qed simp

lemma no_overflow: "durable_as lower db s rs first m b \<Longrightarrow> unat first + length rs < 2 ^ 64"
  using unat_u64_less [of "wnext (store_wal s)"] by (simp add: durable_as_def)

lemma wal_since_durable:
  assumes d: "durable_as lower p s rs first m b"
  shows "wal_since p l = Inr (p, filter (\<lambda>(lsn, _). l < lsn) rs)"
proof -
  from d have w: "wal_rep (store_wal s) rs" "store p = Some s" by (simp_all add: durable_as_def)
  have "wal_records_after (store_wal s) l = Inr (store_wal s, filter (\<lambda>(lsn, _). l < lsn) rs)"
    by (simp add: wal_records_after_def wal_open_rep [OF w(1)])
  with w(2) show ?thesis by (simp add: wal_since_def)
qed

lemma wal_from_durable:
  assumes d: "durable_as lower p s rs first m b"
  shows "wal_from p l = Inr (Some (entries (filter (\<lambda>(lsn, _). l < lsn) rs)))"
  by (simp add: wal_from_def wal_reply_def wal_since_durable [OF d] entries_def)

lemma pull_synced:
  assumes "synced lower p r l"
  shows "\<exists>n. pull_once lower r l (wal_from p l) = (r\<lparr>tables := tables p\<rparr>, Inr (next_lsn p - 1, n))"
proof -
  from assms obtain s rs first m b j where d: "durable_as lower p s rs first m b" "j \<le> length rs"
    "replay lower b m (take j rs) = Inr (tables r)" "b \<le> l" "unat l + 1 = unat first + j"
    by (auto simp: synced_def)
  have c: "consecutive first rs" and all: "replay lower b m rs = Inr (tables p)"
    and n: "unat first + length rs = unat (next_lsn p)"
    using d(1) by (auto simp: durable_as_def next_lsn_def)
  have "replay lower b (tables r) (drop j rs) = Inr (tables p)"
    using all d(3) replay_append [of lower b m "take j rs" "drop j rs"] by simp
  moreover have l1: "l + 1 = first + word_of_nat j"
    using d(5) lsn_sum [of l 1 "first + word_of_nat j"] no_overflow [OF d(1)] d(2)
    by (simp add: unat_word_ariths unat_of_nat)
  have "length (take j rs) = j" using d(2) by simp
  then have "consecutive (l + 1) (drop j rs)"
    using c consecutive_append [of first "take j rs" "drop j rs"] l1
    by (simp only: append_take_drop_id simp_thms)
  moreover have "\<forall>(x, q) \<in> set (drop j rs). b < x"
  proof (clarify)
    fix x q assume "(x, q) \<in> set (drop j rs)"
    then have "(x, q) \<in> set (filter (\<lambda>(lsn, _). l < lsn) rs)"
      using filter_consecutive [OF c no_overflow [OF d(1)] d(2,5)] by simp
    with d(4) show "b < x" by auto
  qed
  ultimately have "pull_records lower r l 0 (entries (drop j rs)) =
      (r\<lparr>tables := tables p\<rparr>, Inr (l + word_of_nat (length (drop j rs)), 0 + length (drop j rs)))"
    by (intro pull_entries)
  moreover have "l + word_of_nat (length (drop j rs)) = next_lsn p - 1"
  proof -
    have "unat l + length (drop j rs) + 1 = unat (next_lsn p)" using d(2,5) n by simp
    then have "l + word_of_nat (length (drop j rs) + 1) = next_lsn p" by (intro lsn_sum) simp
    then show ?thesis by (simp add: algebra_simps)
  qed
  ultimately show ?thesis
    using wal_from_durable [OF d(1), of l] filter_consecutive [OF c no_overflow [OF d(1)] d(2,5)]
    by (simp add: pull_once_def)
qed

lemma synced_now:
  assumes "durable lower p" and "tables r = tables p"
  shows "synced lower p r (next_lsn p - 1)"
proof -
  from assms obtain s rs first m b where d: "durable_as lower p s rs first m b"
    by (auto simp: durable_def)
  then have n: "b < next_lsn p" "unat first + length rs = unat (next_lsn p)"
    by (auto simp: durable_as_def next_lsn_def)
  then have "next_lsn p \<noteq> 0" by auto
  with n have "b \<le> next_lsn p - 1" "unat (next_lsn p - 1) + 1 = unat first + length rs"
    by (auto simp: word_le_nat_alt word_less_nat_alt unat_minus_one unat_gt_0 Suc_leI)
  moreover have "replay lower b m (take (length rs) rs) = Inr (tables r)"
    using d assms(2) by (simp add: durable_as_def)
  ultimately show ?thesis using d unfolding synced_def by blast
qed

lemma bootstrap_copies:
  assumes "lists_keys order" and "durable lower p" and "catalog_small (tables p)"
  shows "bootstrap lower r (snapshot_from order p) = (r\<lparr>tables := tables p\<rparr>, Inr (next_lsn p - 1))"
proof -
  obtain s where "store p = Some s" using durable_store [OF assms(2)] by auto
  then have "snapshot_bytes order p = encode_snapshot (values_of order (tables p)) (next_lsn p - 1)"
    by (simp add: snapshot_bytes_def next_lsn_def)
  then show ?thesis
    using decode_encode_snapshot [OF snapshot_ok_values [OF assms(1) durable_wf [OF assms(2)] assms(3)]]
      load_tables_values [OF assms(1) durable_wf [OF assms(2)]]
    by (simp add: bootstrap_def snapshot_from_def load_snapshot_bytes_def)
qed

lemma synced_op:
  assumes syn: "synced lower p r l" and ok: "op_ok lower p x" and "lists_keys order" and "x \<noteq> Op_snapshot"
  shows "synced lower (run_op lower order p x) r l"
proof -
  from syn obtain s rs first m b j where d: "durable_as lower p s rs first m b" "j \<le> length rs"
    "replay lower b m (take j rs) = Inr (tables r)" "b \<le> l" "unat l + 1 = unat first + j"
    by (auto simp: synced_def)
  have dur: "durable lower p" using d(1) by (rule durableI)
  obtain s' rs' where "durable_as lower (run_op lower order p x) s' (rs @ rs') first m b"
    using durable_as_grows [OF d(1) run_op_one_frame [OF dur ok assms(4)] run_op_durable [OF assms(3) dur ok]]
    by blast
  moreover have "j \<le> length (rs @ rs')" "take j (rs @ rs') = take j rs" using d(2) by simp_all
  ultimately show ?thesis using d unfolding synced_def by (metis (no_types, lifting))
qed

lemma synced_run:
  "synced lower p r l \<Longrightarrow> ops_ok lower order p ops \<Longrightarrow> lists_keys order \<Longrightarrow> Op_snapshot \<notin> set ops \<Longrightarrow>
   synced lower (foldl (run_op lower order) p ops) r l"
  by (induction ops arbitrary: p) (auto intro: synced_op)

lemma after_pull_synced:
  assumes "synced lower p r l"
  shows "after_pull l (pull_once lower r l (wal_from p l)) = (r\<lparr>tables := tables p\<rparr>, Some (next_lsn p - 1))"
  using pull_synced [OF assms] by (auto simp: after_pull_def)

lemma turn_synced:
  "synced lower p r l \<Longrightarrow>
   follow_turn lower snap (wal_from p) (r, Some l) = (r\<lparr>tables := tables p\<rparr>, Some (next_lsn p - 1))"
  by (simp add: follow_turn_def after_pull_synced)

lemma turn_bootstrap:
  assumes "lists_keys order" and "durable lower p" and "catalog_small (tables p)"
  shows "follow_turn lower (snapshot_from order p) (wal_from p) (r, None) =
    (r\<lparr>tables := tables p\<rparr>, Some (next_lsn p - 1))"
  using bootstrap_copies [OF assms, of r] after_pull_synced [OF synced_now [OF assms(2)], of "r\<lparr>tables := tables p\<rparr>"]
  by (simp add: follow_turn_def)

text \<open>A reply without new records leaves the replica where it is.\<close>

lemma turn_nothing_new:
  "wal_from p l = Inr (Some []) \<Longrightarrow> follow_turn lower snap (wal_from p) (r, Some l) = (r, Some l)"
  by (simp add: follow_turn_def pull_once_def after_pull_def)

lemma pull_records_append:
  "pull_records lower r l n (xs @ ys) =
     (case pull_records lower r l n xs of
        (r', Inl e) \<Rightarrow> (r', Inl e)
      | (r', Inr (l', n')) \<Rightarrow> pull_records lower r' l' n' ys)"
  by (induction lower r l n xs rule: pull_records.induct) (auto split: sum.splits prod.splits)

section \<open>Properties\<close>

text \<open>a payload sent as hexadecimal text arrives unchanged.\<close>

theorem hex_roundtrip: "unhex (hex b) = Inr b"
  by (rule unhex_hex)

text \<open>the replica converges. A replica that starts from nothing and then lets the primary run
  any operations but a snapshot holds, one turn later, exactly the primary's tables, and knows
  the LSN they stand for.\<close>

theorem replica_catches_up:
  assumes "lists_keys order" and "durable lower p" and "catalog_small (tables p)"
    and "ops_ok lower order p ops" and "Op_snapshot \<notin> set ops"
  shows "let p' = foldl (run_op lower order) p ops;
      st = follow_turn lower (snapshot_from order p) (wal_from p) (r, None)
    in follow_turn lower snap (wal_from p') st = (r\<lparr>tables := tables p'\<rparr>, Some (next_lsn p' - 1))"
proof -
  let ?r = "r\<lparr>tables := tables p\<rparr>"
  have "synced lower p ?r (next_lsn p - 1)" using assms(2) by (rule synced_now) simp
  then have "synced lower (foldl (run_op lower order) p ops) ?r (next_lsn p - 1)"
    using assms by (intro synced_run)
  from turn_synced [OF this] turn_bootstrap [OF assms(1-3)] show ?thesis by (simp add: Let_def)
qed

theorem replica_catches_up_witness:
  "let p' = foldl (run_op to_ascii_lowercase demo_order) demo_db (take 2 demo_ops);
      st = follow_turn to_ascii_lowercase (snapshot_from demo_order demo_db) (wal_from demo_db) (db_new, None)
    in follow_turn to_ascii_lowercase (Inl Transport) (wal_from p') st =
      (db_new\<lparr>tables := tables p'\<rparr>, Some (next_lsn p' - 1))"
proof (rule replica_catches_up [OF demo_order_keys demo_db_durable])
  show "catalog_small (tables demo_db)" by (simp add: demo_db_def catalog_small_def)
  show "ops_ok to_ascii_lowercase demo_order demo_db (take 2 demo_ops)"
    using demo_ops_ok by (simp add: demo_ops_def)
qed (simp add: demo_ops_def)

text \<open>C10: a replica that fell behind a truncated log notices the gap as soon as the log holds a
  record again: it applies nothing, and the next turn copies the primary anew.\<close>

theorem gap_resynchronises:
  assumes "lists_keys order" and "durable_as lower p s rs first m b" and "catalog_small (tables p)"
    and "rs \<noteq> []" and "unat l + 1 < unat first"
  shows "follow_turn lower snap (wal_from p) (r, Some l) = (r, None) \<and>
     follow_turn lower (snapshot_from order p) (wal_from p) (r, None) =
       (r\<lparr>tables := tables p\<rparr>, Some (next_lsn p - 1))"
proof
  obtain q rs' where rs: "rs = (first, q) # rs'"
    using assms(2,4) by (cases rs) (auto simp: durable_as_def)
  have c: "consecutive first rs" using assms(2) by (simp add: durable_as_def)
  have "l < x" if "(x, y) \<in> set rs" for x y
    using consecutive_bounds [OF c no_overflow [OF assms(2)] that] assms(5) by (simp add: word_less_nat_alt)
  then have "filter (\<lambda>(lsn, _). l < lsn) rs = rs" by (auto intro: filter_True)
  then have "wal_from p l = Inr (Some (entries rs))" using wal_from_durable [OF assms(2), of l] by simp
  moreover have "first \<noteq> l + 1"
    using assms(5) unat_u64_less [of first] by (auto simp: unat_word_ariths)
  ultimately show "follow_turn lower snap (wal_from p) (r, Some l) = (r, None)"
    by (simp add: follow_turn_def pull_once_def after_pull_def rs entries_def)
qed (rule turn_bootstrap [OF assms(1) durableI [OF assms(2)] assms(3)])

text \<open>The example primary after a snapshot and one more table.\<close>

definition demo_snapped :: database where
  "demo_snapped = fst (db_snapshot demo_order demo_created)"

definition demo_ahead :: database where
  "demo_ahead = fst (create_table to_ascii_lowercase demo_snapped (str ''u'') demo_schema)"

lemma demo_snapped_durable: "durable to_ascii_lowercase demo_snapped"
  unfolding demo_snapped_def
  by (rule durable_snapshot [OF demo_created_durable demo_order_keys demo_created_small])

lemma demo_snapped_state:
  "tables demo_snapped = [str ''t'' \<mapsto> demo_table]" "next_lsn demo_snapped = 2" "\<not> read_only demo_snapped"
proof -
  show "tables demo_snapped = [str ''t'' \<mapsto> demo_table]"
    by (simp add: demo_snapped_def demo_created_tables)
  show "next_lsn demo_snapped = 2" "\<not> read_only demo_snapped"
    using demo_created_lsn demo_created_rest
    by (auto simp: demo_snapped_def db_snapshot_def next_lsn_def wal_reset_def Let_def split: option.splits)
qed

lemma demo_snapped_left: "lsn_left demo_snapped"
  by (simp add: lsn_left_def demo_snapped_state)

lemma demo_ahead_durable: "durable to_ascii_lowercase demo_ahead" "one_frame demo_snapped demo_ahead"
  using create_table_step(1,2) [OF demo_snapped_durable demo_lost_fits demo_snapped_left prod.collapse [symmetric]]
  by (simp_all add: demo_ahead_def)

lemma demo_ahead_state:
  "catalog_small (tables demo_ahead) \<and> next_lsn demo_ahead = 3"
proof -
  have "is_ok (table_new (str ''u'') demo_schema)" by code_simp
  then obtain t where t: "table_new (str ''u'') demo_schema = Inr t" by (auto simp: is_ok_def split: sum.splits)
  have "case table_new (str ''u'') demo_schema of Inl _ \<Rightarrow> True | Inr t \<Rightarrow> table_small t" by code_simp
  with t have "table_small t" "table_small demo_table"
    using demo_created_small by (simp_all add: catalog_small_def demo_created_tables)
  moreover have "to_ascii_lowercase (str ''u'') = str ''u''" "str ''u'' \<noteq> str ''t''" by code_simp+
  moreover obtain s where "store demo_snapped = Some s" "wnext (store_wal s) = 2"
    using demo_snapped_state(2) by (auto simp: next_lsn_def split: option.splits)
  moreover have "card (dom [str ''t'' \<mapsto> demo_table, str ''u'' \<mapsto> t]) < 2 ^ 64"
    using card_insert_le_m1 by (simp add: card_insert_if)
  ultimately show ?thesis
    using t demo_snapped_state
    by (auto simp: demo_ahead_def create_table_def deny_if_read_only_def key_def log_record_def
        wal_encode_def wal_append_def next_lsn_def catalog_small_def ran_def split: if_splits)
qed

lemma demo_ahead_as:
  "\<exists>s rs. durable_as to_ascii_lowercase demo_ahead s rs 2 (tables demo_created) 1 \<and> rs \<noteq> []"
proof -
  obtain s where s: "store demo_created = Some s" using demo_created_store by blast
  have "durable_as to_ascii_lowercase demo_snapped
      \<lparr>store_snapshot = Some (encode_snapshot (values_of demo_order (tables demo_created)) 1),
       store_wal = wal_reset (store_wal s)\<rparr> [] 2 (tables demo_created) 1"
    using durable_snapshot_as [OF demo_created_durable demo_order_keys demo_created_small s]
    by (simp add: demo_created_lsn demo_snapped_def)
  from durable_as_grows [OF this demo_ahead_durable(2,1)] obtain s' rs where
    "durable_as to_ascii_lowercase demo_ahead s' rs 2 (tables demo_created) 1" by auto
  moreover from this demo_ahead_state have "rs \<noteq> []" by (auto simp: durable_as_def next_lsn_def)
  ultimately show ?thesis by blast
qed

theorem gap_resynchronises_witness:
  "follow_turn to_ascii_lowercase (Inl Transport) (wal_from demo_ahead) (db_new, Some 0) = (db_new, None) \<and>
     follow_turn to_ascii_lowercase (snapshot_from demo_order demo_ahead) (wal_from demo_ahead) (db_new, None) =
       (db_new\<lparr>tables := tables demo_ahead\<rparr>, Some (next_lsn demo_ahead - 1))"
proof -
  obtain s rs where d: "durable_as to_ascii_lowercase demo_ahead s rs 2 (tables demo_created) 1" "rs \<noteq> []"
    using demo_ahead_as by blast
  show ?thesis
    by (rule gap_resynchronises [OF demo_order_keys d(1) _ d(2)]) (simp_all add: demo_ahead_state)
qed

text \<open>until then it does not. If the primary takes a snapshot while the replica is behind, the
  replies are empty, no gap is seen and the replica keeps serving the old tables, turn after
  turn.\<close>

theorem snapshot_leaves_replica_behind:
  assumes "lists_keys order" and "durable lower p" and "catalog_small (tables p)"
  shows "follow_turn lower snap (wal_from (fst (db_snapshot order p))) (r, Some l) = (r, Some l)"
proof -
  obtain s where s: "store p = Some s" using durable_store [OF assms(2)] by auto
  from turn_nothing_new [of "fst (db_snapshot order p)" l lower snap r]
    wal_from_durable [OF durable_snapshot_as [OF assms(2,1,3) s], of l]
  show ?thesis by (simp add: entries_def)
qed

theorem snapshot_leaves_replica_behind_witness:
  "follow_turn to_ascii_lowercase (Inl Transport) (wal_from (fst (db_snapshot demo_order demo_created)))
     (db_new, Some 0) = (db_new, Some 0)"
  by (rule snapshot_leaves_replica_behind [OF demo_order_keys demo_created_durable demo_created_small])

text \<open>C12: a primary that restarts after a snapshot leaves its replicas behind for good. Its new
  records carry numbers the replica believes to have applied, so they are filtered out of the
  reply, and no error is reported.\<close>

theorem restarted_primary_skips_replica:
  assumes "lists_keys order" and "durable lower p" and "catalog_small (tables p)"
    and "db_open lower d (disk_of (fst (db_snapshot order p))) = Inr p2"
    and "payload_fits (schema_of lower (tables p2)) (CreateTable n sc)"
    and "create_table lower p2 n sc = (p3, Inr ())" and "1 \<le> l"
  shows "follow_turn lower snap (wal_from p3) (r, Some l) = (r, Some l) \<and>
     table_of lower (tables p3) n \<noteq> None"
proof -
  obtain s where s: "store p = Some s" using durable_store [OF assms(2)] by auto
  obtain q where q: "wal_encode (schema_of lower (tables p2)) (CreateTable n sc) = Inr q" "payload_small q"
    using assms(5) record_roundtrip unfolding payload_fits_def by blast
  have p2: "store p2 = Some \<lparr>store_snapshot = Some (encode_snapshot (values_of order (tables p)) (next_lsn p - 1)),
       store_wal = \<lparr>wfile = wal_header, wnext = 1, wdurability = d\<rparr>\<rparr>"
    using open_after_snapshot [OF assms(1-3) s, of d] assms(4) by auto
  obtain s3 where s3: "store p3 = Some s3"
    "store_wal s3 = \<lparr>wfile = wal_header @ frame 1 q, wnext = 2, wdurability = d\<rparr>"
    and new: "table_of lower (tables p3) n \<noteq> None"
    using assms(6) q(1) p2
    by (auto simp: create_table_def deny_if_read_only_def log_record_def wal_encode_def wal_append_def
        table_of_def split: sum.splits if_splits)
  have w: "wal_rep (store_wal s3) [(1, q)]" using q(2) s3(2) by (simp add: wal_rep_def)
  have "wal_records_after (store_wal s3) l = Inr (store_wal s3, [])"
    using assms(7) by (auto simp: wal_records_after_def wal_open_rep [OF w] not_less)
  then have "wal_from p3 l = Inr (Some [])"
    by (simp add: wal_from_def wal_reply_def wal_since_def s3(1))
  from turn_nothing_new [OF this, of lower snap r] new show ?thesis by simp
qed

theorem restarted_primary_skips_replica_witness:
  "follow_turn to_ascii_lowercase (Inl Transport) (wal_from demo_lost) (db_new, Some 1) = (db_new, Some 1) \<and>
     table_of to_ascii_lowercase (tables demo_lost) (str ''u'') \<noteq> None"
  by (rule restarted_primary_skips_replica [OF demo_order_keys demo_created_durable demo_created_small
        demo_restart demo_lost_fits demo_lost_created]) simp

text \<open>a turn that fails half-way forgets what it applied. The records before the failing one
  are in the replica's tables, but its position stays, so the next turn applies them once more.\<close>

theorem failed_turn_forgets:
  assumes "consecutive (l + 1) rs" and "replay lower b (tables r) rs = Inr m"
    and "\<forall>(x, q) \<in> set rs. b < x"
    and "wal l = Inr (Some (entries rs @ es))"
    and "pull_records lower (r\<lparr>tables := m\<rparr>) (l + word_of_nat (length rs)) (length rs) es = (r', Inl e)"
    and "\<not> gap_error e"
  shows "follow_turn lower snap wal (r, Some l) = (r', Some l)"
  using pull_entries [OF assms(1-3), of 0] assms(4-6)
  by (simp add: follow_turn_def pull_once_def pull_records_append after_pull_def)

lemma pull_without_payload:
  "pull_records lower db 1 (Suc 0) [(Some 2, None)] = (db, Inl Missing_payload)"
  by simp

theorem failed_turn_forgets_witness:
  "follow_turn to_ascii_lowercase (Inl Transport)
     (\<lambda>_. Inr (Some (entries [(1, demo_payload)] @ [(Some 2, None)]))) (db_new, Some 0) =
   (db_new\<lparr>tables := tables demo_created\<rparr>, Some 0)"
proof (rule failed_turn_forgets [where b = 0 and m = "tables demo_created" and e = Missing_payload])
  show "replay to_ascii_lowercase 0 (tables db_new) [(1, demo_payload)] = Inr (tables demo_created)"
    using demo_created_as by (simp add: durable_as_def db_new_def)
  show "pull_records to_ascii_lowercase (db_new\<lparr>tables := tables demo_created\<rparr>)
      (0 + word_of_nat (length [(1 :: u64, demo_payload)])) (length [(1 :: u64, demo_payload)]) [(Some 2, None)] =
    (db_new\<lparr>tables := tables demo_created\<rparr>, Inl Missing_payload)"
    using pull_without_payload [of to_ascii_lowercase "db_new\<lparr>tables := tables demo_created\<rparr>"]
    by (simp only: list.size) simp
qed simp_all

end
