(* ===== verification/Service.thy ===== *)
theory Service
  imports Server Console Replication
begin

text \<open>
  The server at work: the routes and handlers of \<open>http.rs\<close> as a function from a request to a response, the
  calls of \<open>grpc.rs\<close> and the snapshot timer of \<open>bin/server.rs\<close> as events on the database, and a replica that
  reads the responses of a primary. A request runs to its end before the next one; what happens between the
  critical sections of two requests is in \<open>Concurrency\<close>.
\<close>

section \<open>Libraries\<close>

text \<open>A request after the HTTP library has read it: the path, the query string behind it, the body.\<close>

datatype verb = Get | Post

record request =
  rq_verb :: verb
  rq_path :: rstr
  rq_query :: rstr
  rq_body :: "u8 list"

record response =
  rs_status :: nat
  rs_body :: "u8 list"

text \<open>
  What the libraries do with text and numbers: the JSON library with numbers of type \<open>'n\<close>, the bodies it
  accepts as \<open>QueryBody\<close> and \<open>InsertBody\<close>, the query string read as \<open>WalQuery\<close>, the response to a request that
  is not of that form, and the text of an error.
\<close>

record 'n wire =
  read_i64 :: "'n \<Rightarrow> i64 option"
  read_f64 :: "'n \<Rightarrow> f64 option"
  read_u64 :: "'n \<Rightarrow> u64 option"
  num_i64 :: "i64 \<Rightarrow> 'n"
  num_f64 :: "f64 \<Rightarrow> 'n"
  num_u64 :: "u64 \<Rightarrow> 'n"
  elem_f32 :: "f32 \<Rightarrow> 'n json"
  json_bytes :: "'n json \<Rightarrow> u8 list"
  parse_json :: "u8 list \<Rightarrow> 'n json option"
  sql_body :: "u8 list \<Rightarrow> rstr option"
  insert_body :: "u8 list \<Rightarrow> (rstr \<times> 'n json list list) option"
  after_query :: "rstr \<Rightarrow> u64 option"
  rejection :: response
  error_message :: "err \<Rightarrow> rstr"

text \<open>The parts of the engine that are parameters: the SQL library, Unicode, hashing.\<close>

record engine =
  sql_parser :: "rstr \<Rightarrow> sql_statement list option"
  sql_printer :: "sql_expr \<Rightarrow> rstr"
  lower_of :: "rstr \<Rightarrow> rstr"
  upper_of :: "rstr \<Rightarrow> rstr"
  hash_of :: "rstr \<Rightarrow> u64"
  order_of :: "rstr set \<Rightarrow> rstr list"

definition run_sql :: "engine \<Rightarrow> database \<Rightarrow> rstr \<Rightarrow> database \<times> query_result res" where
  "run_sql eng = execute (sql_parser eng) (sql_printer eng) (lower_of eng) (upper_of eng) (hash_of eng) (order_of eng)"

definition num_usize :: "'n wire \<Rightarrow> nat \<Rightarrow> 'n" where
  "num_usize w n = num_u64 w (word_of_nat n)"

definition value_json :: "'n wire \<Rightarrow> rvalue \<Rightarrow> 'n json" where
  "value_json w = to_json (num_i64 w) (num_f64 w) (elem_f32 w)"

section \<open>Replies\<close>

definition reply_json :: "'n wire \<Rightarrow> 'n json \<Rightarrow> response" where
  "reply_json w j = \<lparr>rs_status = 200, rs_body = json_bytes w j\<rparr>"

text \<open>\<open>ApiError\<close>: every failed request is answered with 400 and the text of the error.\<close>

definition api_error :: "'n wire \<Rightarrow> err \<Rightarrow> response" where
  "api_error w e = \<lparr>rs_status = 400, rs_body = json_bytes w (J_Object [(str ''error'', J_String (error_message w e))])\<rparr>"

definition package_version :: rstr where
  "package_version = str ''1.0.0''"

definition health_json :: "'n wire \<Rightarrow> health \<Rightarrow> 'n json" where
  "health_json w h =
     J_Object [(str ''status'', J_String (str ''ok'')), (str ''version'', J_String package_version),
       (str ''tables'', J_Number (num_usize w (h_tables h))), (str ''rows'', J_Number (num_usize w (h_rows h))),
       (str ''bytes_used'', J_Number (num_usize w (h_bytes h))), (str ''persistent'', J_Bool (h_persistent h)),
       (str ''next_lsn'', J_Number (num_u64 w (h_next_lsn h)))]"

text \<open>\<open>ms\<close> is the time the query took.\<close>

definition query_json :: "'n wire \<Rightarrow> f64 \<Rightarrow> 'n json query_reply \<times> nat \<Rightarrow> 'n json" where
  "query_json w ms r =
     J_Object [(str ''columns'', J_Array (map J_String (r_names (fst r)))),
       (str ''types'', J_Array (map J_String (r_type_names (fst r)))),
       (str ''rows'', J_Array (map J_Array (r_rows (fst r)))),
       (str ''row_count'', J_Number (num_usize w (snd r))), (str ''elapsed_ms'', J_Number (num_f64 w ms))]"

definition record_json :: "'n wire \<Rightarrow> raw_record \<Rightarrow> 'n json" where
  "record_json w r = J_Object [(str ''lsn'', J_Number (num_u64 w (fst r))), (str ''payload'', J_String (hex (snd r)))]"

definition wal_json :: "'n wire \<Rightarrow> u64 \<Rightarrow> raw_record list \<Rightarrow> 'n json" where
  "wal_json w next rs =
     J_Object [(str ''next_lsn'', J_Number (num_u64 w next)), (str ''records'', J_Array (map (record_json w) rs))]"

section \<open>Routes\<close>

definition handle_query :: "engine \<Rightarrow> 'n wire \<Rightarrow> f64 \<Rightarrow> database \<Rightarrow> u8 list \<Rightarrow> database \<times> response" where
  "handle_query eng w ms db text =
     (case sql_body w text of
        None \<Rightarrow> (db, rejection w)
      | Some sql \<Rightarrow>
          (case http_query (value_json w) (run_sql eng) db sql of
             (db', Inl e) \<Rightarrow> (db', api_error w e)
           | (db', Inr r) \<Rightarrow> (db', reply_json w (query_json w ms r))))"

definition handle_insert :: "engine \<Rightarrow> 'n wire \<Rightarrow> database \<Rightarrow> u8 list \<Rightarrow> database \<times> response" where
  "handle_insert eng w db text =
     (case insert_body w text of
        None \<Rightarrow> (db, rejection w)
      | Some (tab, rows) \<Rightarrow>
          (case http_insert (lower_of eng) (order_of eng) (read_i64 w) (read_f64 w) db tab rows of
             (db', Inl e) \<Rightarrow> (db', api_error w e)
           | (db', Inr n) \<Rightarrow> (db', reply_json w (J_Object [(str ''inserted'', J_Number (num_usize w n))]))))"

definition handle_snapshot :: "engine \<Rightarrow> 'n wire \<Rightarrow> database \<Rightarrow> database \<times> response" where
  "handle_snapshot eng w db =
     (case db_snapshot (order_of eng) db of
        (db', Inl e) \<Rightarrow> (db', api_error w e)
      | (db', Inr lsn) \<Rightarrow> (db', reply_json w (J_Object [(str ''lsn'', J_Number (num_u64 w lsn))])))"

definition handle_wal :: "'n wire \<Rightarrow> database \<Rightarrow> rstr \<Rightarrow> database \<times> response" where
  "handle_wal w db query =
     (case after_query w query of
        None \<Rightarrow> (db, rejection w)
      | Some after \<Rightarrow>
          (case wal_since db after of
             Inl e \<Rightarrow> (db, api_error w e)
           | Inr (db', rs) \<Rightarrow> (db', reply_json w (wal_json w (next_lsn db') rs))))"

text \<open>\<open>router\<close>: a known path with the other verb is 405, an unknown path 404, as the routing library does.\<close>

definition on_verb :: "verb \<Rightarrow> request \<Rightarrow> database \<times> response \<Rightarrow> database \<Rightarrow> database \<times> response" where
  "on_verb v rq r db = (if rq_verb rq = v then r else (db, \<lparr>rs_status = 405, rs_body = []\<rparr>))"

definition route :: "engine \<Rightarrow> 'n wire \<Rightarrow> f64 \<Rightarrow> database \<Rightarrow> request \<Rightarrow> database \<times> response" where
  "route eng w ms db rq =
     (let p = rq_path rq; lower = lower_of eng; order = order_of eng in
      if p = str ''/health'' then on_verb Get rq (db, reply_json w (health_json w (http_health lower order db))) db
      else if p = str ''/schema'' then on_verb Get rq (db, reply_json w (schema_json (num_usize w) (http_schema lower order db))) db
      else if p = str ''/query'' then on_verb Post rq (handle_query eng w ms db (rq_body rq)) db
      else if p = str ''/insert'' then on_verb Post rq (handle_insert eng w db (rq_body rq)) db
      else if p = str ''/snapshot'' then on_verb Post rq (handle_snapshot eng w db) db
      else if p = str ''/replication/wal'' then on_verb Get rq (handle_wal w db (rq_query rq)) db
      else if p = str ''/replication/snapshot'' then
        on_verb Get rq (db, \<lparr>rs_status = 200, rs_body = snapshot_bytes order db\<rparr>) db
      else (db, \<lparr>rs_status = 404, rs_body = []\<rparr>))"

section \<open>Events\<close>

text \<open>What happens to a running server: a request over HTTP, with the time it takes, a call over gRPC, a tick.\<close>

datatype event =
    Http request f64
  | Rpc_query rstr
  | Rpc_insert rstr "pb_value list list"
  | Rpc_health
  | Rpc_schema
  | Tick

definition serve :: "engine \<Rightarrow> 'n wire \<Rightarrow> server_args \<Rightarrow> database \<Rightarrow> event \<Rightarrow> database" where
  "serve eng w args db ev =
     (case ev of
        Http rq ms \<Rightarrow> fst (route eng w ms db rq)
      | Rpc_query sql \<Rightarrow> fst (grpc_query (run_sql eng) db sql)
      | Rpc_insert tab rows \<Rightarrow> fst (grpc_insert (lower_of eng) (order_of eng) db tab rows)
      | Tick \<Rightarrow> if auto_snapshots args db then fst (db_snapshot (order_of eng) db) else db
      | _ \<Rightarrow> db)"


definition serve_all :: "engine \<Rightarrow> 'n wire \<Rightarrow> server_args \<Rightarrow> database \<Rightarrow> event list \<Rightarrow> database" where
  "serve_all eng w args db evs = foldl (serve eng w args) db evs"

section \<open>The client's side of a connection\<close>

text \<open>
  \<open>client.rs\<close>: a server is a function on its state; it may give no response at all, when the connection
  fails. What is not a success becomes an error with the message of the body.
\<close>

definition uri_of :: "request \<Rightarrow> rstr" where
  "uri_of rq = (if rq_query rq = [] then rq_path rq else rq_path rq @ str ''?'' @ rq_query rq)"

definition send ::
  "'n wire \<Rightarrow> (u8 list \<Rightarrow> rstr) \<Rightarrow> ('s \<Rightarrow> request \<Rightarrow> 's \<times> response option) \<Rightarrow> rstr \<Rightarrow> request \<Rightarrow> 's \<Rightarrow> 's \<times> u8 list res" where
  "send w lossy srv host rq s =
     (case srv s rq of
        (s', None) \<Rightarrow> (s', Inl Transport)
      | (s', Some r) \<Rightarrow>
          if 200 \<le> rs_status r \<and> rs_status r < 300 then (s', Inr (rs_body r))
          else (s', Inl (Client (Refused host (uri_of rq) (error_text (parse_json w) lossy (rs_body r))))))"

definition http_get ::
  "'n wire \<Rightarrow> (u8 list \<Rightarrow> rstr) \<Rightarrow> ('s \<Rightarrow> request \<Rightarrow> 's \<times> response option) \<Rightarrow> rstr \<Rightarrow> rstr \<Rightarrow> rstr \<Rightarrow> 's \<Rightarrow> 's \<times> u8 list res" where
  "http_get w lossy srv host path query s =
     send w lossy srv host \<lparr>rq_verb = Get, rq_path = path, rq_query = query, rq_body = []\<rparr> s"

definition post_json ::
  "'n wire \<Rightarrow> (u8 list \<Rightarrow> rstr) \<Rightarrow> ('s \<Rightarrow> request \<Rightarrow> 's \<times> response option) \<Rightarrow> rstr \<Rightarrow> rstr \<Rightarrow> 'n json \<Rightarrow> 's \<Rightarrow> 's \<times> u8 list res" where
  "post_json w lossy srv host path j s =
     send w lossy srv host \<lparr>rq_verb = Post, rq_path = path, rq_query = [], rq_body = json_bytes w j\<rparr> s"

text \<open>A server that answers: the routes above; \<open>clock\<close> is the time the request takes.\<close>

definition http_server :: "engine \<Rightarrow> 'n wire \<Rightarrow> f64 \<Rightarrow> database \<Rightarrow> request \<Rightarrow> database \<times> response option" where
  "http_server eng w clock db rq = (case route eng w clock db rq of (db', r) \<Rightarrow> (db', Some r))"

section \<open>The replica's requests\<close>

definition json_u64 :: "'n wire \<Rightarrow> 'n json \<Rightarrow> u64 option" where
  "json_u64 w j = (case j of J_Number n \<Rightarrow> read_u64 w n | _ \<Rightarrow> None)"

definition wal_entries :: "'n wire \<Rightarrow> 'n json \<Rightarrow> wal_entry list option" where
  "wal_entries w v =
     (case json_field v ''records'' of
        J_Array rs \<Rightarrow> Some (map (\<lambda>r. (json_u64 w (json_field r ''lsn''), json_str (json_field r ''payload''))) rs)
      | _ \<Rightarrow> None)"

definition wal_query :: "u64 \<Rightarrow> rstr" where
  "wal_query applied = str ''after='' @ dec_digits (unat applied)"

text \<open>The replies that the loop of \<open>follow\<close> works with, from a server in state \<open>p\<close>.\<close>

definition fetch_snapshot :: "'n wire \<Rightarrow> (u8 list \<Rightarrow> rstr) \<Rightarrow> ('s \<Rightarrow> request \<Rightarrow> 's \<times> response option) \<Rightarrow> rstr \<Rightarrow> 's \<Rightarrow> u8 list res" where
  "fetch_snapshot w lossy srv host p = snd (http_get w lossy srv host (str ''/replication/snapshot'') [] p)"

definition fetch_wal ::
  "'n wire \<Rightarrow> (u8 list \<Rightarrow> rstr) \<Rightarrow> ('s \<Rightarrow> request \<Rightarrow> 's \<times> response option) \<Rightarrow> rstr \<Rightarrow> 's \<Rightarrow> u64 \<Rightarrow> wal_entry list option res" where
  "fetch_wal w lossy srv host p applied =
     and_then (snd (http_get w lossy srv host (str ''/replication/wal'') (wal_query applied) p)) (\<lambda>text.
     and_then (with_context ''reply'' (ok_or (parse_json w text) (Client Not_json))) (\<lambda>v.
     Inr (wal_entries w v)))"

definition follow_http ::
  "(rstr \<Rightarrow> rstr) \<Rightarrow> 'n wire \<Rightarrow> (u8 list \<Rightarrow> rstr) \<Rightarrow> ('s \<Rightarrow> request \<Rightarrow> 's \<times> response option) \<Rightarrow> rstr \<Rightarrow> 's \<Rightarrow> replica \<Rightarrow> replica" where
  "follow_http lower w lossy srv primary p =
     follow_turn lower (fetch_snapshot w lossy srv (normalize_url primary) p)
       (fetch_wal w lossy srv (normalize_url primary) p)"

section \<open>Requests as operations of the database\<close>

text \<open>The operations of \<open>Recovery\<close> that a statement, a request or an event amounts to: at most one.\<close>

definition statement_ops :: "(rstr \<Rightarrow> rstr) \<Rightarrow> database \<Rightarrow> statement \<Rightarrow> op list" where
  "statement_ops lower db st =
     (case st of
        St_CreateTable n s if_not_exists \<Rightarrow>
          if if_not_exists \<and> table_of lower (tables db) n \<noteq> None then [] else [Op_create n s]
      | St_DropTable n _ \<Rightarrow> [Op_drop n]
      | St_Insert tab cols rows \<Rightarrow>
          (case (case cols of None \<Rightarrow> Inr rows | Some names \<Rightarrow> reorder lower db tab names rows) of
             Inl _ \<Rightarrow> []
           | Inr rows' \<Rightarrow> [Op_insert tab rows'])
      | _ \<Rightarrow> [])"

definition sql_ops :: "engine \<Rightarrow> database \<Rightarrow> rstr \<Rightarrow> op list" where
  "sql_ops eng db sql =
     (case plan (sql_parser eng) (sql_printer eng) (schema_of (lower_of eng) (tables db)) sql of
        Inl _ \<Rightarrow> []
      | Inr st \<Rightarrow> statement_ops (lower_of eng) db st)"

definition insert_ops :: "(rstr \<Rightarrow> rstr) \<Rightarrow> ('v \<Rightarrow> data_type \<Rightarrow> rvalue res) \<Rightarrow> database \<Rightarrow> rstr \<Rightarrow> 'v list list \<Rightarrow> op list" where
  "insert_ops lower conv db tab rows =
     (case table_of lower (tables db) tab of
        None \<Rightarrow> []
      | Some t \<Rightarrow> (case convert_rows conv (tschema t) rows of Inl _ \<Rightarrow> [] | Inr rs \<Rightarrow> [Op_insert tab rs]))"

definition request_ops :: "engine \<Rightarrow> 'n wire \<Rightarrow> database \<Rightarrow> request \<Rightarrow> op list" where
  "request_ops eng w db rq =
     (if rq_verb rq \<noteq> Post then []
      else if rq_path rq = str ''/query'' then
        (case sql_body w (rq_body rq) of None \<Rightarrow> [] | Some sql \<Rightarrow> sql_ops eng db sql)
      else if rq_path rq = str ''/insert'' then
        (case insert_body w (rq_body rq) of
           None \<Rightarrow> []
         | Some (tab, rows) \<Rightarrow> insert_ops (lower_of eng) (from_json (read_i64 w) (read_f64 w)) db tab rows)
      else if rq_path rq = str ''/snapshot'' then [Op_snapshot]
      else [])"

definition event_ops :: "engine \<Rightarrow> 'n wire \<Rightarrow> server_args \<Rightarrow> database \<Rightarrow> event \<Rightarrow> op list" where
  "event_ops eng w args db ev =
     (case ev of
        Http rq _ \<Rightarrow> request_ops eng w db rq
      | Rpc_query sql \<Rightarrow> sql_ops eng db sql
      | Rpc_insert tab rows \<Rightarrow> insert_ops (lower_of eng) from_pb db tab rows
      | Tick \<Rightarrow> if auto_snapshots args db then [Op_snapshot] else []
      | _ \<Rightarrow> [])"

lemma statement_effect:
  "fst (run_statement lower upper hash order db st) = foldl (run_op lower order) db (statement_ops lower db st)"
proof (cases st)
  case (St_DropTable n b)
  then show ?thesis
    by (cases "drop_table lower db n") (auto simp: run_statement_def statement_ops_def split: sum.splits)
qed (auto simp: run_statement_def statement_ops_def split: sum.splits prod.splits option.splits)

lemma sql_effect: "fst (run_sql eng db sql) = foldl (run_op (lower_of eng) (order_of eng)) db (sql_ops eng db sql)"
  by (simp add: run_sql_def execute_def sql_ops_def statement_effect split: sum.split)

lemma http_insert_effect:
  "fst (http_insert lower order as_i as_f db tab rows) = foldl (run_op lower order) db (insert_ops lower (from_json as_i as_f) db tab rows)"
  by (simp add: http_insert_def insert_ops_def split: option.split sum.split)

lemma grpc_insert_effect:
  "fst (grpc_insert lower order db tab rows) = foldl (run_op lower order) db (insert_ops lower from_pb db tab rows)"
  by (simp add: grpc_insert_def insert_ops_def split: option.split sum.split prod.split)

lemma grpc_query_effect: "fst (grpc_query run db sql) = fst (run db sql)"
  by (simp add: grpc_query_def split: prod.split sum.split)

lemma handle_query_effect:
  "fst (handle_query eng w ms db text) =
     (case sql_body w text of None \<Rightarrow> db | Some sql \<Rightarrow> fst (run_sql eng db sql))"
  by (simp add: handle_query_def http_query_def split: option.split prod.split sum.split)

lemma handle_insert_effect:
  "fst (handle_insert eng w db text) =
     (case insert_body w text of
        None \<Rightarrow> db
      | Some (tab, rows) \<Rightarrow> fst (http_insert (lower_of eng) (order_of eng) (read_i64 w) (read_f64 w) db tab rows))"
  by (simp add: handle_insert_def split: option.split prod.split sum.split)

lemma handle_snapshot_effect: "fst (handle_snapshot eng w db) = fst (db_snapshot (order_of eng) db)"
  by (simp add: handle_snapshot_def split: prod.split sum.split)

lemma wal_since_same:
  assumes "durable lower db"
  shows "\<exists>rs. wal_since db l = Inr (db, rs)"
  using assms wal_since_durable unfolding durable_def by blast

lemma handle_wal_effect: "durable lower db \<Longrightarrow> fst (handle_wal w db query) = db"
proof (cases "after_query w query")
  case (Some l)
  assume "durable lower db"
  from wal_since_same [OF this, of l] Some show ?thesis by (auto simp: handle_wal_def)
qed (simp add: handle_wal_def)

lemma route_effect:
  assumes "durable (lower_of eng) db"
  shows "fst (route eng w ms db rq) = foldl (run_op (lower_of eng) (order_of eng)) db (request_ops eng w db rq)"
  using handle_wal_effect [OF assms]
  by (cases "rq_verb rq")
    (auto simp: route_def Let_def on_verb_def request_ops_def str_inject handle_query_effect handle_insert_effect
      handle_snapshot_effect sql_effect http_insert_effect split: option.split)

lemma serve_effect:
  assumes "durable (lower_of eng) db"
  shows "serve eng w args db ev = foldl (run_op (lower_of eng) (order_of eng)) db (event_ops eng w args db ev)"
  by (simp add: route_effect [OF assms] serve_def event_ops_def grpc_query_effect sql_effect grpc_insert_effect split: event.split)

section \<open>Runs of a server\<close>

text \<open>Every operation of the run fits the formats and finds an LSN left.\<close>

fun events_ok :: "engine \<Rightarrow> 'n wire \<Rightarrow> server_args \<Rightarrow> database \<Rightarrow> event list \<Rightarrow> bool" where
  "events_ok eng w args db [] \<longleftrightarrow> True"
| "events_ok eng w args db (ev # evs) \<longleftrightarrow>
     ops_ok (lower_of eng) (order_of eng) db (event_ops eng w args db ev) \<and>
     events_ok eng w args (serve eng w args db ev) evs"

fun events_ops :: "engine \<Rightarrow> 'n wire \<Rightarrow> server_args \<Rightarrow> database \<Rightarrow> event list \<Rightarrow> op list" where
  "events_ops eng w args db [] = []"
| "events_ops eng w args db (ev # evs) = event_ops eng w args db ev @ events_ops eng w args (serve eng w args db ev) evs"

lemma ops_ok_append [simp]:
  "ops_ok lower order db (xs @ ys) \<longleftrightarrow> ops_ok lower order db xs \<and> ops_ok lower order (foldl (run_op lower order) db xs) ys"
  by (induction xs arbitrary: db) auto

lemma ops_durable:
  "lists_keys order \<Longrightarrow> durable lower db \<Longrightarrow> ops_ok lower order db xs \<Longrightarrow> durable lower (foldl (run_op lower order) db xs)"
  by (induction xs arbitrary: db) (auto intro: run_op_durable)

lemma served_run:
  assumes ord: "lists_keys (order_of eng)" and "durable (lower_of eng) db" and "events_ok eng w args db evs"
  shows "durable (lower_of eng) (serve_all eng w args db evs)"
    and "serve_all eng w args db evs = foldl (run_op (lower_of eng) (order_of eng)) db (events_ops eng w args db evs)"
    and "ops_ok (lower_of eng) (order_of eng) db (events_ops eng w args db evs)"
  using assms(2,3)
proof (induction evs arbitrary: db)
  case (Cons ev evs)
  { case 1
    with ops_durable [OF ord 1(1)] have "durable (lower_of eng) (serve eng w args db ev)" by (simp add: serve_effect)
    with 1 Cons.IH show ?case by (simp add: serve_all_def)
  next
    case 2
    with ops_durable [OF ord 2(1)] have "durable (lower_of eng) (serve eng w args db ev)" by (simp add: serve_effect)
    with 2 Cons.IH show ?case by (simp add: serve_all_def serve_effect [OF 2(1)])
  next
    case 3
    with ops_durable [OF ord 3(1)] have "durable (lower_of eng) (serve eng w args db ev)" by (simp add: serve_effect)
    with 3 Cons.IH show ?case by (simp add: serve_effect [OF 3(1)])
  }
qed (simp_all add: serve_all_def)

end
