(* ===== verification/Fixed.thy ===== *)
theory Fixed
  imports Decimal
begin

text \<open>
  \<open>format!("{:.d}", x)\<close>: a double with a fixed number of decimals, rounded from its exact value, a tie to the
  even neighbour.
\<close>

text \<open>The digits of \<open>c / 10 ^ d\<close>.\<close>

definition fixed_digits :: "nat \<Rightarrow> nat \<Rightarrow> rstr" where
  "fixed_digits d c =
     (let fp = dec_digits (c mod 10 ^ d) in
      dec_digits (c div 10 ^ d) @
      (if d = 0 then [] else uchar_of 46 # replicate (d - length fp) (uchar_of 48) @ fp))"

definition show_fixed :: "nat \<Rightarrow> f64 \<Rightarrow> rstr" where
  "show_fixed d x =
     (case f64_val x of
        F_NaN \<Rightarrow> str ''NaN''
      | F_Inf s \<Rightarrow> (if s then str ''-inf'' else str ''inf'')
      | F_Fin s m e \<Rightarrow>
          (if s then str ''-'' else []) @
          fixed_digits d (round_half_even ((if 0 \<le> e then m * 2 ^ nat e else m) * 10 ^ d) (if 0 \<le> e then 1 else 2 ^ nat (- e))))"

lemma round_half_even_near:
  assumes "0 < q"
  shows "2 * \<bar>int (round_half_even a q) * int q - int a\<bar> \<le> int q"
proof -
  define k r where "k = a div q" and "r = a mod q"
  have a: "a = k * q + r" and r: "r < q" using assms by (simp_all add: k_def r_def)
  have "round_half_even a q = k \<and> 2 * r \<le> q \<or> round_half_even a q = Suc k \<and> q \<le> 2 * r"
    by (auto simp: round_half_even_def k_def r_def Let_def)
  then show ?thesis
  proof
    assume "round_half_even a q = k \<and> 2 * r \<le> q"
    then show ?thesis by (simp add: a)
  next
    assume h: "round_half_even a q = Suc k \<and> q \<le> 2 * r"
    have "int (Suc k) * int q - int a = int q - int r" by (simp add: a algebra_simps)
    with h r show ?thesis by simp
  qed
qed

section \<open>Digits read back\<close>

lemma digits_value_append:
  "digits_value a (s @ t) = (case digits_value a s of None \<Rightarrow> None | Some b \<Rightarrow> digits_value b t)"
  by (induction a s rule: digits_value.induct) (auto split: option.split)

lemma digit_of_uchar: "k < 10 \<Longrightarrow> digit_of (uchar_of (48 + k)) = Some k"
  by (simp add: digit_of_def Let_def)

lemma digits_value_digits: "digits_value a (dec_digits n) = Some (a * 10 ^ length (dec_digits n) + n)"
proof (induction n rule: dec_digits.induct)
  case (1 n)
  show ?case
  proof (cases "n < 10")
    case False
    have "length (dec_digits n) = Suc (length (dec_digits (n div 10)))"
      using False by (subst dec_digits.simps) simp
    with False 1 show ?thesis
      by (subst dec_digits.simps) (simp add: digits_value_append digit_of_uchar algebra_simps)
  qed (subst dec_digits.simps, subst (2) dec_digits.simps, simp add: digit_of_uchar)
qed

lemma dec_digits_not_Nil: "dec_digits n \<noteq> []"
  by (subst dec_digits.simps) simp

lemma length_dec_digits: "n < 10 ^ k \<Longrightarrow> 0 < k \<Longrightarrow> length (dec_digits n) \<le> k"
proof (induction n arbitrary: k rule: dec_digits.induct)
  case (1 n)
  show ?case
  proof (cases "n < 10")
    case False
    then obtain j where k: "k = Suc j" "0 < j" using 1(2,3) by (cases k; cases "k - 1") auto
    then have "n div 10 < 10 ^ j" using 1(2) by (simp add: less_mult_imp_div_less mult.commute)
    from 1(1) [OF False this k(2)] k(1) False show ?thesis by (subst dec_digits.simps) simp
  qed (use 1(3) in \<open>subst dec_digits.simps, simp\<close>)
qed

lemma digits_value_zeros: "digits_value a (replicate k (uchar_of 48) @ s) = digits_value (a * 10 ^ k) s"
  using digit_of_uchar [of 0] by (induction k arbitrary: a) (simp_all add: algebra_simps)

lemmas digits_value_zeros_only = digits_value_zeros [of _ _ "[]", simplified]

lemma fixed_digits_value:
  "\<exists>ip fp. fixed_digits d c = ip @ (if d = 0 then [] else uchar_of 46 # fp) \<and> ip \<noteq> [] \<and> length fp = d \<and>
     digits_value 0 (ip @ fp) = Some c"
proof (cases "d = 0")
  case True
  then show ?thesis using digits_value_digits [of 0 c] dec_digits_not_Nil [of c] by (auto simp: fixed_digits_def Let_def)
next
  case False
  let ?fp = "dec_digits (c mod 10 ^ d)" and ?ip = "dec_digits (c div 10 ^ d)"
  have len: "length ?fp \<le> d" using False by (intro length_dec_digits) simp_all
  have "digits_value 0 (?ip @ replicate (d - length ?fp) (uchar_of 48) @ ?fp) = Some c"
    using len by (simp add: digits_value_append digits_value_zeros_only digits_value_digits mult.assoc flip: power_add) (rule div_mult_mod_eq)
  with False len dec_digits_not_Nil show ?thesis
    by (intro exI [of _ ?ip] exI [of _ "replicate (d - length ?fp) (uchar_of 48) @ ?fp"]) (simp add: fixed_digits_def Let_def)
qed

text \<open>
  a finite double is printed with exactly \<open>d\<close> decimals, and the printed number is at most half a unit of the
  last decimal away from the exact value \<open>p / q\<close>.
\<close>

theorem fixed_text_nearest:
  assumes "f64_val x = F_Fin s m e"
  shows "\<exists>ip fp c. show_fixed d x = (if s then str ''-'' else []) @ ip @ (if d = 0 then [] else uchar_of 46 # fp) \<and>
    ip \<noteq> [] \<and> length fp = d \<and> digits_value 0 (ip @ fp) = Some c \<and>
    (let p = (if 0 \<le> e then m * 2 ^ nat e else m); q = (if 0 \<le> e then 1 else 2 ^ nat (- e))
     in 2 * \<bar>int c * int q - int (p * 10 ^ d)\<bar> \<le> int q)"
proof -
  define p q :: nat where "p = (if 0 \<le> e then m * 2 ^ nat e else m)" and "q = (if 0 \<le> e then 1 else 2 ^ nat (- e))"
  let ?c = "round_half_even (p * 10 ^ d) q"
  have "0 < q" by (simp add: q_def)
  note near = round_half_even_near [OF this, of "p * 10 ^ d"]
  obtain ip fp where d: "fixed_digits d ?c = ip @ (if d = 0 then [] else uchar_of 46 # fp)" "ip \<noteq> []" "length fp = d"
    "digits_value 0 (ip @ fp) = Some ?c" using fixed_digits_value [of d ?c] by blast
  have "show_fixed d x = (if s then str ''-'' else []) @ fixed_digits d ?c"
    by (simp add: show_fixed_def assms p_def q_def)
  with d near show ?thesis
    unfolding p_def [symmetric] q_def [symmetric] Let_def
    by (intro exI [of _ ip] exI [of _ fp] exI [of _ ?c]) simp
qed

theorem fixed_text_nearest_witness:
  "\<exists>ip fp c. show_fixed 2 0x3FF8000000000000 = [] @ ip @ uchar_of 46 # fp \<and>
    ip \<noteq> [] \<and> length fp = 2 \<and> digits_value 0 (ip @ fp) = Some c \<and> 2 * \<bar>int c * 2 ^ 52 - int (0x18000000000000 * 10 ^ 2)\<bar> \<le> 2 ^ 52"
proof -
  have "f64_val 0x3FF8000000000000 = F_Fin False 0x18000000000000 (- 52)" by code_simp
  from fixed_text_nearest [OF this, of 2] show ?thesis by (simp add: Let_def)
qed

end
