(* ===== verification/Samples.thy ===== *)
theory Samples
  imports Service Fixed
begin

text \<open>
  A concrete engine and a concrete JSON library for the examples: trees are written as tokens in prefix form
  and tokens in unary, so that every tree is read back. The properties hold for any libraries with the laws
  they name; these are ones that have them.
\<close>

section \<open>Numbers and tokens\<close>

type_synonym sample_num = "int + f64"

fun num_tokens :: "sample_num \<Rightarrow> nat list" where
  "num_tokens (Inl i) = [if i < 0 then 0 else 1, nat \<bar>i\<bar>]"
| "num_tokens (Inr d) = [2, unat d]"

definition token_num :: "nat \<Rightarrow> nat \<Rightarrow> sample_num" where
  "token_num k n = (if k = 0 then Inl (- int n) else if k = 1 then Inl (int n) else Inr (word_of_nat n))"

definition text_tokens :: "rstr \<Rightarrow> nat list" where
  "text_tokens s = length s # map code_point s"

fun json_tokens :: "sample_num json \<Rightarrow> nat list" where
  "json_tokens J_Null = [0]"
| "json_tokens (J_Bool b) = [1, if b then 1 else 0]"
| "json_tokens (J_Number n) = 2 # num_tokens n"
| "json_tokens (J_String s) = 3 # text_tokens s"
| "json_tokens (J_Array xs) = 4 # length xs # concat (map json_tokens xs)"
| "json_tokens (J_Object fs) = 5 # length fs # concat (map (\<lambda>(k, v). text_tokens k @ json_tokens v) fs)"

definition read_text :: "nat list \<Rightarrow> (rstr \<times> nat list) option" where
  "read_text ts =
     (case ts of [] \<Rightarrow> None | n # r \<Rightarrow> if n \<le> length r then Some (map uchar_of (take n r), drop n r) else None)"

fun read_times :: "nat \<Rightarrow> (nat list \<Rightarrow> ('a \<times> nat list) option) \<Rightarrow> nat list \<Rightarrow> ('a list \<times> nat list) option" where
  "read_times 0 rd ts = Some ([], ts)"
| "read_times (Suc n) rd ts =
     (case rd ts of
        None \<Rightarrow> None
      | Some (x, r) \<Rightarrow> (case read_times n rd r of None \<Rightarrow> None | Some (xs, r') \<Rightarrow> Some (x # xs, r')))"

definition read_field :: "(nat list \<Rightarrow> (sample_num json \<times> nat list) option) \<Rightarrow> nat list \<Rightarrow> ((rstr \<times> sample_num json) \<times> nat list) option" where
  "read_field rd ts =
     (case read_text ts of
        None \<Rightarrow> None
      | Some (k, r) \<Rightarrow> (case rd r of None \<Rightarrow> None | Some (v, r') \<Rightarrow> Some ((k, v), r')))"

text \<open>The number of tokens bounds the depth.\<close>

primrec read_json :: "nat \<Rightarrow> nat list \<Rightarrow> (sample_num json \<times> nat list) option" where
  "read_json 0 = (\<lambda>ts. None)"
| "read_json (Suc fuel) = (\<lambda>ts.
     (case ts of
        [] \<Rightarrow> None
      | t # r \<Rightarrow>
          if t = 0 then Some (J_Null, r)
          else if t = 1 then (case r of b # r' \<Rightarrow> Some (J_Bool (b \<noteq> 0), r') | [] \<Rightarrow> None)
          else if t = 2 then (case r of k # n # r' \<Rightarrow> Some (J_Number (token_num k n), r') | _ \<Rightarrow> None)
          else if t = 3 then map_option (\<lambda>(s, r'). (J_String s, r')) (read_text r)
          else (case r of
              [] \<Rightarrow> None
            | n # r' \<Rightarrow>
                if t = 4 then map_option (\<lambda>(xs, q). (J_Array xs, q)) (read_times n (read_json fuel) r')
                else map_option (\<lambda>(fs, q). (J_Object fs, q)) (read_times n (read_field (read_json fuel)) r'))))"

lemma read_text_tokens [simp]: "read_text (text_tokens s @ r) = Some (s, r)"
  by (simp add: read_text_def text_tokens_def map_idI)

lemma token_num_tokens: "num_tokens n = [a, b] \<Longrightarrow> token_num a b = n"
  by (cases n) (auto simp: token_num_def split: if_splits)

lemma read_times_all:
  assumes "\<forall>x \<in> set xs. \<forall>r. rd (enc x @ r) = Some (x, r)"
  shows "read_times (length xs) rd (concat (map enc xs) @ r) = Some (xs, r)"
  using assms by (induction xs) auto

lemma part_length: "x \<in> set xs \<Longrightarrow> length (enc x) \<le> length (concat (map enc xs))"
  by (induction xs) auto

lemma read_json_tokens: "length (json_tokens j) \<le> fuel \<Longrightarrow> read_json fuel (json_tokens j @ r) = Some (j, r)"
proof (induction j arbitrary: fuel r)
  case (J_Number n)
  obtain a b where "num_tokens n = [a, b]" by (cases n) auto
  with J_Number token_num_tokens [of n a b] show ?case by (cases fuel) auto
next
  case (J_Array xs)
  then obtain f where f: "fuel = Suc f" "length (concat (map json_tokens xs)) \<le> f" by (cases fuel) auto
  have "read_json f (json_tokens x @ q) = Some (x, q)" if "x \<in> set xs" for x q
    using J_Array.IH [OF that, of f q] part_length [OF that, of json_tokens] f(2) by simp
  with f show ?case by (simp add: read_times_all)
next
  case (J_Object fs)
  let ?enc = "\<lambda>(k, v). text_tokens k @ json_tokens v"
  from J_Object obtain f where f: "fuel = Suc f" "length (concat (map ?enc fs)) \<le> f" by (cases fuel) auto
  have "read_field (read_json f) (?enc x @ q) = Some (x, q)" if "x \<in> set fs" for x q
  proof (cases x)
    case (Pair k v)
    have "read_json f (json_tokens v @ q) = Some (v, q)"
      using J_Object.IH [of x v f q] that part_length [OF that, of ?enc] f(2) Pair by simp
    with Pair show ?thesis by (simp add: read_field_def)
  qed
  then have "read_times (length fs) (read_field (read_json f)) (concat (map ?enc fs) @ r) = Some (fs, r)"
    by (intro read_times_all) blast
  with f show ?case by simp
next
  case (J_String s)
  then obtain f where "fuel = Suc f" by (cases fuel) auto
  then show ?case by simp
next
  case (J_Bool b)
  then obtain f where "fuel = Suc f" by (cases fuel) auto
  then show ?case by simp
next
  case J_Null
  then obtain f where "fuel = Suc f" by (cases fuel) auto
  then show ?case by simp
qed

section \<open>Bytes\<close>

definition token_bytes :: "nat list \<Rightarrow> u8 list" where
  "token_bytes ts = concat (map (\<lambda>k. replicate k 1 @ [0]) ts)"

fun bytes_tokens :: "nat \<Rightarrow> u8 list \<Rightarrow> nat list" where
  "bytes_tokens k [] = []"
| "bytes_tokens k (b # bs) = (if b = 0 then k # bytes_tokens 0 bs else bytes_tokens (Suc k) bs)"

lemma bytes_tokens_all: "bytes_tokens 0 (token_bytes ts) = ts"
proof -
  have "bytes_tokens k (replicate n 1 @ 0 # bs) = (k + n) # bytes_tokens 0 bs" for k n bs
    by (induction n arbitrary: k) auto
  from this [of 0] show ?thesis by (induction ts) (simp_all add: token_bytes_def)
qed

definition sample_bytes :: "sample_num json \<Rightarrow> u8 list" where
  "sample_bytes j = token_bytes (json_tokens j)"

definition sample_parse :: "u8 list \<Rightarrow> sample_num json option" where
  "sample_parse bs = (let ts = bytes_tokens 0 bs in map_option fst (read_json (length ts) ts))"

lemma sample_roundtrip: "sample_parse (sample_bytes j) = Some j"
  using read_json_tokens [of j "length (json_tokens j)" "[]"]
  by (simp add: sample_parse_def sample_bytes_def bytes_tokens_all Let_def)

section \<open>The libraries\<close>

definition sample_f64 :: "sample_num \<Rightarrow> f64 option" where
  "sample_f64 n = (case n of Inl i \<Rightarrow> Some (f64_of_int i) | Inr d \<Rightarrow> Some d)"

definition sample_sql_body :: "u8 list \<Rightarrow> rstr option" where
  "sample_sql_body bs = (case sample_parse bs of None \<Rightarrow> None | Some v \<Rightarrow> json_str (json_field v ''sql''))"

definition sample_insert_body :: "u8 list \<Rightarrow> (rstr \<times> sample_num json list list) option" where
  "sample_insert_body bs =
     (case sample_parse bs of
        None \<Rightarrow> None
      | Some v \<Rightarrow>
          (case json_str (json_field v ''table'') of
             None \<Rightarrow> None
           | Some tab \<Rightarrow> Some (tab, map json_array (json_array (json_field v ''rows'')))))"

definition sample_after :: "rstr \<Rightarrow> u64 option" where
  "sample_after q = (if starts_with (str ''after='') q then parse_usize (drop 6 q) else Some 0)"

definition sample_wire :: "sample_num wire" where
  "sample_wire =
     \<lparr>read_i64 = (\<lambda>n. case n of Inl i \<Rightarrow> if - (2 ^ 63) \<le> i \<and> i < 2 ^ 63 then Some (word_of_int i) else None | Inr _ \<Rightarrow> None),
      read_f64 = sample_f64,
      read_u64 = (\<lambda>n. case n of Inl i \<Rightarrow> if 0 \<le> i \<and> i < 2 ^ 64 then Some (word_of_int i) else None | Inr _ \<Rightarrow> None),
      num_i64 = Inl \<circ> sint, num_f64 = Inr, num_u64 = Inl \<circ> uint, elem_f32 = (\<lambda>x. J_Number (Inr (f64_of_f32 x))),
      json_bytes = sample_bytes, parse_json = sample_parse, sql_body = sample_sql_body,
      insert_body = sample_insert_body, after_query = sample_after,
      rejection = \<lparr>rs_status = 422, rs_body = []\<rparr>, error_message = (\<lambda>_. str ''error'')\<rparr>"

lemma dec_digits_head: "\<exists>k < 10. hd (dec_digits n) = uchar_of (48 + k)"
proof (induction n rule: dec_digits.induct)
  case (1 n)
  show ?case
  proof (cases "n < 10")
    case False
    with 1 dec_digits_not_Nil [of "n div 10"] show ?thesis by (subst dec_digits.simps) (simp add: hd_append)
  qed (subst dec_digits.simps, auto)
qed

lemma parse_usize_digits: "n < 2 ^ 64 \<Longrightarrow> parse_usize (dec_digits n) = Some (word_of_nat n)"
proof -
  assume n: "n < 2 ^ 64"
  obtain c cs where c: "dec_digits n = c # cs" using dec_digits_not_Nil [of n] by (cases "dec_digits n") auto
  with dec_digits_head [of n] have "code_point c \<noteq> 43" by auto
  with c n digits_value_digits [of 0 n] show ?thesis by (simp add: parse_usize_def Let_def)
qed

text \<open>The laws the properties ask for.\<close>

lemma sample_laws:
  "parse_json sample_wire (json_bytes sample_wire j) = Some j"
  "read_u64 sample_wire (num_u64 sample_wire x) = Some x"
  "after_query sample_wire (wal_query x) = Some x"
  "sql_body sample_wire (json_bytes sample_wire (J_Object [(str ''sql'', J_String s)])) = Some s"
proof -
  show "parse_json sample_wire (json_bytes sample_wire j) = Some j" by (simp add: sample_wire_def sample_roundtrip)
  show "read_u64 sample_wire (num_u64 sample_wire x) = Some x"
    using uint_bounded [of x] by (simp add: sample_wire_def)
  have "length (str ''after='') = 6" by (simp add: str_def)
  then show "after_query sample_wire (wal_query x) = Some x"
    using unat_u64_less [of x]
    by (simp add: sample_wire_def sample_after_def wal_query_def starts_with_def parse_usize_digits)
  show "sql_body sample_wire (json_bytes sample_wire (J_Object [(str ''sql'', J_String s)])) = Some s"
    by (simp add: sample_wire_def sample_sql_body_def sample_roundtrip json_field_def json_str_def)
qed

text \<open>An engine whose SQL knows the statements of a list.\<close>

definition sample_engine :: "(rstr \<times> sql_statement) list \<Rightarrow> engine" where
  "sample_engine known =
     \<lparr>sql_parser = (\<lambda>s. map_option (\<lambda>st. [st]) (map_of known s)), sql_printer = (\<lambda>_. []), lower_of = to_ascii_lowercase,
      upper_of = to_ascii_lowercase, hash_of = (\<lambda>_. 0), order_of = demo_order\<rparr>"

end
