(* ===== verification/Sessions.thy ===== *)
theory Sessions
  imports Samples Concurrency
begin

text \<open>
  Sessions of a server from its start to the next one: a run of requests ended by a kill, by a crash inside the
  last of them or by a regular stop; a replica that follows the run over HTTP; and the second session, in which
  the log starts again at LSN 1 beside a snapshot with a higher one.
\<close>

section \<open>One session\<close>

text \<open>
  What a process that ends during an event can leave on disk: a state inside the writes of its operation, or
  the files after it.
\<close>

definition event_disks :: "engine \<Rightarrow> 'n wire \<Rightarrow> server_args \<Rightarrow> database \<Rightarrow> event \<Rightarrow> disk set" where
  "event_disks eng w args db ev =
     insert (disk_of (serve eng w args db ev))
       (\<Union>x \<in> set (event_ops eng w args db ev). op_crashes (lower_of eng) (order_of eng) db x)"

lemma one_op: "length (statement_ops lower db st) \<le> Suc 0" "length (insert_ops lower conv db tab rows) \<le> Suc 0"
  by (auto simp: statement_ops_def insert_ops_def split: statement.split sum.split option.split)

lemma event_one_op: "event_ops eng w args db ev = [] \<or> (\<exists>x. event_ops eng w args db ev = [x])"
proof -
  have sql: "length (sql_ops eng db sql) \<le> Suc 0" for sql by (simp add: sql_ops_def one_op split: sum.split)
  have "length (request_ops eng w db rq) \<le> Suc 0" for rq
    by (simp add: request_ops_def sql one_op split: option.split prod.split)
  then have "length (event_ops eng w args db ev) \<le> Suc 0"
    by (simp add: event_ops_def sql one_op split: event.split)
  then show ?thesis by (cases "event_ops eng w args db ev") auto
qed

lemma start_recovered:
  assumes "recovered lower dsk = Some m" and "a_data args = Some dsk" and "parse_durability (a_durability args) = Inr d"
    and "a_max_memory args = None"
  shows "\<exists>db. start_up lower args = Inr db \<and> tables db = m"
proof -
  from assms(1) obtain db where "db_open lower d dsk = Inr db" "tables db = m"
    by (auto simp: recovered_durability [of lower dsk d] split: sum.splits)
  with assms show ?thesis by (simp add: start_up_def with_context_def)
qed

lemma event_recovers:
  assumes ord: "lists_keys (order_of eng)" and dur: "durable (lower_of eng) db"
    and ok: "ops_ok (lower_of eng) (order_of eng) db (event_ops eng w args db ev)"
    and dsk: "dsk \<in> event_disks eng w args db ev" "\<not> torn_header dsk"
  shows "recovered (lower_of eng) dsk = Some (tables db) \<or>
    recovered (lower_of eng) dsk = Some (tables (serve eng w args db ev))"
proof -
  have "durable (lower_of eng) (serve eng w args db ev)"
    using ops_durable [OF ord dur ok] by (simp add: serve_effect [OF dur])
  note image = recovered_image [OF this]
  show ?thesis
  proof (cases "dsk = disk_of (serve eng w args db ev)")
    case False
    with dsk event_one_op [of eng w args db ev] obtain x where x: "event_ops eng w args db ev = [x]"
      "dsk \<in> op_crashes (lower_of eng) (order_of eng) db x" by (auto simp: event_disks_def)
    with ok have "op_ok (lower_of eng) db x" by simp
    from dbr.recover_crash [OF dur this, of dsk "order_of eng"] x dsk(2) ord show ?thesis
      by (simp add: db_crashes_def serve_effect [OF dur])
  qed (use image in simp)
qed


section \<open>A replica over HTTP\<close>

text \<open>What a replica relies on: integers and the WAL reply survive the JSON library, the query string is read back.\<close>

definition faithful_wire :: "'n wire \<Rightarrow> bool" where
  "faithful_wire w \<longleftrightarrow>
     (\<forall>x. read_u64 w (num_u64 w x) = Some x) \<and> (\<forall>x. after_query w (wal_query x) = Some x) \<and>
     (\<forall>n rs. parse_json w (json_bytes w (wal_json w n rs)) = Some (wal_json w n rs))"

lemma snapshot_fetched:
  "fetch_snapshot w lossy (http_server eng w clock) host p = snapshot_from (order_of eng) p"
  by (simp add: fetch_snapshot_def http_get_def send_def http_server_def route_def on_verb_def Let_def str_inject snapshot_from_def)

lemma entries_read:
  assumes "faithful_wire w"
  shows "wal_entries w (wal_json w n rs) = Some (map (\<lambda>(lsn, p). (Some lsn, Some (hex p))) rs)"
  using assms
  by (simp add: wal_entries_def wal_json_def json_field_def record_json_def json_u64_def json_str_def str_inject
      faithful_wire_def split_def)

lemma wal_fetched:
  assumes w: "faithful_wire w" and dur: "durable lower p"
  shows "fetch_wal w lossy (http_server eng w clock) host p l = wal_from p l"
proof -
  obtain rs where rs: "wal_since p l = Inr (p, rs)" using wal_since_same [OF dur] by blast
  have "after_query w (wal_query l) = Some l" "parse_json w (json_bytes w (wal_json w n rs)) = Some (wal_json w n rs)" for n
    using w by (simp_all add: faithful_wire_def)
  then have "fetch_wal w lossy (http_server eng w clock) host p l = Inr (wal_entries w (wal_json w (next_lsn p) rs))"
    by (simp add: fetch_wal_def http_get_def send_def http_server_def route_def on_verb_def Let_def str_inject
        handle_wal_def rs reply_json_def ok_or_def)
  with rs show ?thesis by (simp add: entries_read [OF w] wal_from_def wal_reply_def)
qed

lemma turn_over_http:
  assumes "faithful_wire w" and "durable (lower_of eng) p"
  shows "follow_http (lower_of eng) w lossy (http_server eng w clock) primary p r =
    follow_turn (lower_of eng) (snapshot_from (order_of eng) p) (wal_from p) r"
proof -
  have "fetch_wal w lossy (http_server eng w clock) host p = wal_from p" for host by (rule ext) (rule wal_fetched [OF assms])
  then show ?thesis by (simp add: follow_http_def snapshot_fetched)
qed


section \<open>The second session\<close>

text \<open>The log of a database whose records are numbered from 1, and the operations that add to it.\<close>

definition log_of :: "database \<Rightarrow> raw_record list \<Rightarrow> bool" where
  "log_of db rs \<longleftrightarrow>
     (\<exists>s. store db = Some s \<and> wal_rep (store_wal s) rs \<and> consecutive 1 rs \<and> unat (wnext (store_wal s)) = Suc (length rs))"

definition snapshot_of :: "database \<Rightarrow> u8 list option" where
  "snapshot_of db = snapshot_file (disk_of db)"

lemma insert_loop_schema: "tschema (fst (insert_rows_loop t rows)) = tschema t"
proof (induction rows arbitrary: t)
  case (Cons r rows)
  have "tschema (fst (table_insert t r)) = tschema t"
    by (auto simp: table_insert_def split: sum.split prod.split)
  with Cons show ?case by (auto split: prod.split sum.split)
qed simp

lemma insert_many_schema: "tschema (fst (insert_many t rows)) = tschema t"
  using insert_loop_schema [of t rows] by (auto simp: insert_many_def split: prod.split sum.split)

lemma insert_inner_schemas:
  assumes "insert_inner lower m n rows = (m', r)"
  shows "schema_of lower m' = schema_of lower m"
proof (cases "table_of lower m n")
  case (Some t)
  then have "m' = m(key lower n \<mapsto> fst (insert_many t rows))"
    using assms by (auto simp: insert_inner_def split: prod.splits)
  with Some insert_many_schema [of t rows] show ?thesis by (simp add: fun_eq_iff schema_of_def table_of_def)
qed (use assms in \<open>simp add: insert_inner_def\<close>)

lemma log_record_frame:
  assumes "log_record lower db rec = (db', r)"
    and "\<forall>p. wal_encode (schema_of lower (tables db)) rec = Inr p \<longrightarrow> payload_small p"
  shows "one_frame db db'"
  using assms by (auto simp: log_record_def one_frame_def split: option.splits sum.splits)

lemma one_frame_tables [simp]: "one_frame (db\<lparr>tables := m\<rparr>) db' = one_frame db db'"
  by (simp add: one_frame_def)

lemma one_frame_refl [simp]: "one_frame db (db\<lparr>tables := m\<rparr>)" "one_frame db db"
  by (simp_all add: one_frame_def)

lemma create_frame:
  assumes "payload_fits so (CreateTable n sc)" and "create_table lower db n sc = (db', r)"
  shows "one_frame db db'"
proof -
  have "\<forall>p. wal_encode so' (CreateTable n sc) = Inr p \<longrightarrow> payload_small p" for so'
    using assms(1) by (simp add: payload_fits_def wal_encode_def)
  with assms(2) log_record_frame [of lower "db\<lparr>tables := m\<rparr>" "CreateTable n sc" db' r for m] show ?thesis
    by (auto simp: create_table_def split: sum.splits if_splits)
qed

lemma drop_frame:
  assumes "payload_fits so (DropTable n)" and "drop_table lower db n = (db', r)"
  shows "one_frame db db'"
proof -
  have "\<forall>p. wal_encode so' (DropTable n) = Inr p \<longrightarrow> payload_small p" for so'
    using assms(1) by (simp add: payload_fits_def wal_encode_def)
  with assms(2) log_record_frame [of lower "db\<lparr>tables := m\<rparr>" "DropTable n" for m] show ?thesis
    by (auto simp: drop_table_def split: sum.splits if_splits prod.splits bool.splits)
qed

lemma insert_frame:
  assumes "op_fits lower db (Op_insert n rows)" and "insert_rows lower order db n rows = (db', r)"
  shows "one_frame db db'"
proof -
  obtain m q where i: "insert_inner lower (tables db) n rows = (m, q)" by (cases "insert_inner lower (tables db) n rows")
  show ?thesis
  proof (cases "table_of lower (tables db) n")
    case (Some t)
    with assms(1) have "\<forall>p. wal_encode (schema_of lower m) (InsertRows n rows) = Inr p \<longrightarrow> payload_small p"
      by (simp add: payload_fits_def insert_inner_schemas [OF i])
    with assms(2) i log_record_frame [of lower "db\<lparr>tables := m\<rparr>" "InsertRows n rows"] show ?thesis
      by (auto simp: insert_rows_def split: sum.splits if_splits prod.splits)
  qed (use assms(2) in \<open>auto simp: insert_rows_def insert_inner_def split: sum.splits if_splits prod.splits\<close>)
qed

lemma op_frame:
  assumes "op_fits lower db x" and "x \<noteq> Op_snapshot"
  shows "one_frame db (run_op lower order db x)"
proof (cases x)
  case (Op_create n s)
  with assms(1) show ?thesis by (cases "create_table lower db n s") (auto intro: create_frame)
next
  case (Op_drop n)
  with assms(1) show ?thesis by (cases "drop_table lower db n") (auto intro: drop_frame)
next
  case (Op_insert n rows)
  with assms(1) show ?thesis
    by (cases "insert_rows lower order db n rows") (auto simp del: op_fits.simps intro: insert_frame)
qed (use assms(2) in \<open>simp_all add: one_frame_def set_read_only_def set_memory_limit_def\<close>)

lemma log_grows:
  assumes log: "log_of db rs" and one: "one_frame db db'" and lsn: "lsn_left db"
  shows "(\<exists>rs'. log_of db' (rs @ rs')) \<and> snapshot_of db' = snapshot_of db"
proof -
  obtain s where s: "store db = Some s" "wal_rep (store_wal s) rs" "consecutive 1 rs"
    "unat (wnext (store_wal s)) = Suc (length rs)" using log by (auto simp: log_of_def)
  from one s(1) consider "store db' = Some s" |
    p where "payload_small p" "store db' = Some (s\<lparr>store_wal := fst (wal_append (store_wal s) p)\<rparr>)"
    by (auto simp: one_frame_def)
  then show ?thesis
  proof cases
    case 1
    with s have "log_of db' (rs @ [])" by (simp add: log_of_def)
    with 1 s(1) show ?thesis by (intro conjI exI) (assumption, simp add: snapshot_of_def disk_of_def)
  next
    case (2 p)
    have up: "unat (wnext (store_wal s) + 1) = Suc (Suc (length rs))"
      using lsn s by (simp add: lsn_left_def next_lsn_def unat_word_ariths)
    have "1 + word_of_nat (length rs) = wnext (store_wal s)"
      using s(4) by (intro lsn_sum) simp
    then have "log_of db' (rs @ [(wnext (store_wal s), p)])"
      using 2 s up wal_rep_append [OF s(2) 2(1)] by (simp add: log_of_def consecutive_append wal_append_def)
    with 2 s(1) show ?thesis by (auto simp: snapshot_of_def disk_of_def)
  qed
qed

lemma log_run:
  assumes "log_of db rs" and "ops_ok lower order db xs" and "Op_snapshot \<notin> set xs"
  shows "(\<exists>rs'. log_of (foldl (run_op lower order) db xs) rs') \<and> snapshot_of (foldl (run_op lower order) db xs) = snapshot_of db"
  using assms
proof (induction xs arbitrary: db rs)
  case Nil
  then show ?case by auto
next
  case (Cons x xs)
  let ?db = "run_op lower order db x"
  from Cons.prems have x: "op_fits lower db x" "lsn_left db" "x \<noteq> Op_snapshot"
    by (auto simp: op_ok_def simp del: op_fits.simps)
  obtain rs' where "log_of ?db rs'" "snapshot_of ?db = snapshot_of db"
    using log_grows [OF Cons.prems(1) op_frame [OF x(1,3)] x(2)] by blast
  with Cons.IH [of ?db rs'] Cons.prems show ?case by simp
qed

lemma replay_fails_last:
  assumes "consecutive 1 rs" and "unat b = length rs" and "apply_payload lower m p = (m', Inl e)" and "b < l"
  shows "replay lower b m (rs @ [(l, p)]) = Inl e"
proof -
  have n: "unat (1 :: u64) + length rs < 2 ^ 64"
    using assms(2,4) unat_u64_less [of l] by (simp add: word_less_nat_alt)
  have "x \<le> b" if "(x, q) \<in> set rs" for x q
    using consecutive_bounds [OF assms(1) n that] assms(2) by (simp add: word_le_nat_alt)
  then have "replay lower b m rs = Inr m" by (intro replay_skipped) auto
  with assms(3,4) show ?thesis by (simp add: replay_append not_le)
qed

text \<open>
  C6: a server that was stopped regularly numbers its records from 1 again, and the next start skips those up to
  the LSN of the snapshot. When the second session creates a table and then writes so much that an insert
  into it gets a higher LSN, the creation is skipped and the insert is not: after a kill, the server refuses
  to start on its own files, although every call was acknowledged.
\<close>

theorem second_session_locks_out:
  assumes ord: "lists_keys order" and dur: "durable lower db" and small: "catalog_small (tables db)" and "\<not> a_replica args"
    and start: "a_data args2 = Some (disk_of (shut_down order args db))" "a_max_memory args2 = None"
      "start_up lower args2 = Inr db2"
    and create: "create_table lower db2 n sc = (db3, Inr ())"
    and ops: "ops_ok lower order db2 (Op_create n sc # xs)" "Op_snapshot \<notin> set xs"
    and lsn: "next_lsn (foldl (run_op lower order) db3 xs) = next_lsn db"
    and insert: "op_ok lower (foldl (run_op lower order) db3 xs) (Op_insert n rows)"
      "insert_rows lower order (foldl (run_op lower order) db3 xs) n rows = (db5, Inr k)"
    and kill: "a_data args3 = Some (disk_of db5)" "parse_durability (a_durability args3) = Inr d"
  shows "start_up lower args3 = Inl (Context ''opening the data directory'' (Context ''WAL record'' (Wal_unknown_table n)))"
proof -
  let ?db4 = "foldl (run_op lower order) db3 xs"
  obtain s where s: "store db = Some s" using durable_store [OF dur] by auto
  let ?snap = "Some (encode_snapshot (values_of order (tables db)) (next_lsn db - 1))"
  obtain d2 where "db2 = \<lparr>tables = tables db, store = Some \<lparr>store_snapshot = ?snap,
      store_wal = \<lparr>wfile = wal_header, wnext = 1, wdurability = d2\<rparr>\<rparr>, read_only = False, memory_limit = 0\<rparr>"
    using start open_after_snapshot [OF ord dur small s] s assms(4)
    by (auto simp: start_up_def shut_down_def is_persistent_def and_then_Inr with_context_def split: sum.splits)
  then have db2: "log_of db2 []" "snapshot_of db2 = ?snap" "tables db2 = tables db"
    by (simp_all add: log_of_def snapshot_of_def disk_of_def wal_rep_def)
  have base: "load_base lower ?snap = Inr (tables db, next_lsn db - 1)"
    using durable_snapshot_as [OF dur ord small s] by (simp add: durable_as_def)
  have new: "tables db (key lower n) = None"
    using create db2(3) by (auto simp: create_table_def deny_if_read_only_def split: sum.splits if_splits)
  have run: "foldl (run_op lower order) db2 (Op_create n sc # xs) = ?db4" using create by simp
  obtain rs where rs: "log_of ?db4 rs" "snapshot_of ?db4 = ?snap"
    using log_run [OF db2(1) ops(1)] ops(2) db2(2) unfolding run by auto
  obtain s4 where s4: "store ?db4 = Some s4" "wal_rep (store_wal s4) rs" "consecutive 1 rs"
    "unat (wnext (store_wal s4)) = Suc (length rs)" using rs(1) by (auto simp: log_of_def)
  then have upto: "wnext (store_wal s4) = next_lsn db" using lsn by (simp add: next_lsn_def)
  obtain m where i: "insert_inner lower (tables ?db4) n rows = (m, Inr k)"
    and log: "log_record lower (?db4\<lparr>tables := m\<rparr>) (InsertRows n rows) = (db5, Inr ())"
    using insert(2) by (auto simp: insert_rows_def split: sum.splits if_splits prod.splits)
  have pf: "payload_fits (schema_of lower m) (InsertRows n rows)"
    using insert(1) i insert_inner_schemas [OF i] by (auto simp: op_ok_def insert_inner_def split: option.splits)
  then obtain p where p: "wal_encode (schema_of lower m) (InsertRows n rows) = Inr p"
    "wal_decode (schema_of lower m) p = Inr (InsertRows n rows)" "payload_small p"
    using record_roundtrip unfolding payload_fits_def by blast
  have db5: "store db5 = Some (s4\<lparr>store_wal := fst (wal_append (store_wal s4) p)\<rparr>)"
    using log s4(1) p(1) by (auto simp: log_record_def)
  have "schema_of lower (tables db) n = None" using new by (simp add: schema_of_def table_of_def)
  then have "wal_decode (schema_of lower (tables db)) p = Inl (Wal_unknown_table n)"
    by (rule unknown_table_decoded [OF p(2)])
  then have fail: "apply_payload lower (tables db) p = (tables db, Inl (Context ''WAL record'' (Wal_unknown_table n)))"
    by (simp add: apply_payload_def)
  have gt: "next_lsn db - 1 < next_lsn db" "unat (next_lsn db - 1) = length rs"
  proof -
    have "next_lsn db \<noteq> 0" using upto s4(4) by auto
    then show "unat (next_lsn db - 1) = length rs" using upto s4(4) by (simp add: unat_minus_one)
    then show "next_lsn db - 1 < next_lsn db" using upto s4(4) by (simp add: word_less_nat_alt)
  qed
  have "wal_rep (fst (wal_append (store_wal s4) p)) (rs @ [(next_lsn db, p)])"
    using wal_rep_append [OF s4(2) p(3)] upto by simp
  from wal_open_rep [OF this] obtain w where
    "wal_open (wfile (fst (wal_append (store_wal s4) p))) d = Inr (w, rs @ [(next_lsn db, p)])" by blast
  with replay_fails_last [OF s4(3) gt(2) fail gt(1)] base rs(2) s4(1) db5
  have "db_open lower d (disk_of db5) = Inl (Context ''WAL record'' (Wal_unknown_table n))"
    by (simp add: db_open_def disk_of_def snapshot_of_def)
  with kill show ?thesis by (simp add: start_up_def)
qed

section \<open>The example database served\<close>

definition demo_args :: server_args where
  "demo_args = \<lparr>a_data = Some fresh_disk, a_durability = str ''fsync'', a_max_memory = None, a_interval = 300, a_replica = False\<rparr>"

abbreviation demo_eng :: engine where
  "demo_eng \<equiv> sample_engine []"

definition demo_call :: event where
  "demo_call = Rpc_insert (str ''t'') [[Some (Kind_I 7), Some (Kind_S (str ''ab''))]]"

lemma demo_eng_simps [simp]:
  "lower_of (sample_engine ks) = to_ascii_lowercase" "order_of (sample_engine ks) = demo_order"
  by (simp_all add: sample_engine_def)

lemma demo_durability: "parse_durability (a_durability demo_args) = Inr Fsync" "a_max_memory demo_args = None" "\<not> a_replica demo_args"
  by (simp_all add: demo_args_def parse_durability_def)

lemma demo_tick: "serve demo_eng sample_wire demo_args demo_created Tick = demo_snapped"
  using demo_created_store
  by (auto simp: serve_def auto_snapshots_def demo_args_def is_persistent_def demo_snapped_def)

lemma demo_tick_ops: "event_ops demo_eng sample_wire demo_args demo_created Tick = [Op_snapshot]"
  using demo_created_store by (auto simp: event_ops_def auto_snapshots_def demo_args_def is_persistent_def)

lemma demo_call_ops:
  assumes "tables db = tables demo_created"
  shows "event_ops demo_eng w args db demo_call = [Op_insert (str ''t'') [demo_row]]"
  using served_rows_fit(2) assms
  by (simp add: event_ops_def demo_call_def insert_ops_def table_of_def key_def demo_key demo_created_tables)

lemma demo_call_ok:
  assumes "tables db = tables demo_created" and "lsn_left db"
  shows "op_ok to_ascii_lowercase db (Op_insert (str ''t'') [demo_row])"
  using demo_op_fits assms(2) unfolding op_ok_def op_fits.simps assms(1) by blast

lemma demo_snapped_simps: "tables demo_snapped = tables demo_created" "next_lsn demo_snapped = 2"
  using demo_snapped_state demo_created_tables by simp_all

lemma demo_run_ok: "events_ok demo_eng sample_wire demo_args demo_created [Tick, demo_call]"
proof -
  have "op_ok to_ascii_lowercase demo_created Op_snapshot"
    using demo_created_small demo_created_lsn by (simp add: op_ok_def lsn_left_def)
  moreover have "op_ok to_ascii_lowercase demo_snapped (Op_insert (str ''t'') [demo_row])"
    by (rule demo_call_ok) (simp_all add: demo_snapped_simps lsn_left_def)
  ultimately show ?thesis
    by (simp add: demo_tick demo_tick_ops demo_call_ops demo_snapped_simps del: op_fits.simps)
qed

lemma durable_not_torn: "durable lower db \<Longrightarrow> \<not> torn_header (disk_of db)"
  by (auto simp: durable_def durable_as_def wal_rep_def torn_header_def disk_of_def)

lemma demo_served: "tables (serve_all demo_eng sample_wire demo_args demo_created [Tick, demo_call]) = [str ''t'' \<mapsto> demo_filled]"
proof -
  have dur: "durable (lower_of demo_eng) demo_snapped" using demo_snapped_durable by simp
  have w: "\<not> read_only demo_snapped" "memory_limit demo_snapped = 0" "store demo_snapped \<noteq> None"
    using demo_created_rest demo_created_store by (auto simp: demo_snapped_def db_snapshot_def Let_def)
  obtain db' r where i: "insert_rows to_ascii_lowercase demo_order demo_snapped (str ''t'') [demo_row] = (db', r)" by fastforce
  have "tables db' = [str ''t'' \<mapsto> demo_filled]"
    using i w demo_inner
    by (auto simp: insert_rows_def deny_if_read_only_def demo_snapped_simps log_record_def split: option.splits sum.splits prod.splits)
  with i show ?thesis
    by (simp add: serve_all_def demo_tick serve_effect [OF dur] demo_call_ops demo_snapped_simps)
qed



text \<open>The second session of the example: a table \<open>u\<close> and a row in it.\<close>

lemma create_logged:
  assumes "create_table lower db n sc = (db', Inr ())" and "store db = Some s"
  shows "\<exists>p. store db' = Some (s\<lparr>store_wal := fst (wal_append (store_wal s) p)\<rparr>)"
    and "\<exists>t. table_new n sc = Inr t \<and> tables db' = (tables db)(key lower n \<mapsto> t)"
    and "read_only db' = read_only db" and "memory_limit db' = memory_limit db"
  using assms by (auto simp: create_table_def log_record_def split: sum.splits if_splits)

lemma demo_u:
  obtains t t' where "table_of to_ascii_lowercase (tables demo_lost) (str ''u'') = Some t" "tschema t = demo_schema"
    "batch_fits t [demo_row]" "insert_many t [demo_row] = (t', Inr 1)"
proof -
  let ?new = "table_new (str ''u'') demo_schema"
  have c: "is_ok ?new" "case ?new of Inl _ \<Rightarrow> False | Inr t \<Rightarrow> tschema t = demo_schema"
    "case ?new of Inl _ \<Rightarrow> False | Inr t \<Rightarrow> batch_fits t [demo_row]"
    "case ?new of Inl _ \<Rightarrow> False | Inr t \<Rightarrow> snd (insert_many t [demo_row]) = Inr 1"
    by code_simp+
  then obtain t where t: "?new = Inr t" by (auto simp: is_ok_def split: sum.splits)
  have "table_of to_ascii_lowercase (tables demo_lost) (str ''u'') = Some t"
    using create_logged(2) [OF demo_lost_created] t demo_restarted_simps(3) by (auto simp: table_of_def)
  with t c that [of t "fst (insert_many t [demo_row])"] show thesis by (simp add: prod_eq_iff)
qed

lemma demo_u_fits: "payload_fits (schema_of to_ascii_lowercase (tables demo_lost)) (InsertRows (str ''u'') [demo_row])"
proof -
  have so: "schema_of to_ascii_lowercase (tables demo_lost) (str ''u'') = Some demo_schema"
    using demo_u by (auto simp: schema_of_def)
  have "row_exact (sfields demo_schema) demo_row" by code_simp
  then have "record_exact (schema_of to_ascii_lowercase (tables demo_lost)) (InsertRows (str ''u'') [demo_row])"
    by (simp add: record_exact_def so) code_simp
  moreover have "case encode_row demo_schema demo_row of Inl _ \<Rightarrow> True
     | Inr b \<Rightarrow> length (w_u8 3 @ w_str (str ''u'') @ w_u64 1 @ b) < 2 ^ 32"
    by code_simp
  ultimately show ?thesis
    by (auto simp: payload_fits_def payload_small_def wal_encode_def so and_then_def split: sum.splits)
qed

lemma demo_lost_lsn: "next_lsn demo_lost = 2" "\<not> read_only demo_lost" "memory_limit demo_lost = 0"
proof -
  obtain s where s: "store demo_restarted = Some s" "wnext (store_wal s) = 1" by (simp add: demo_restarted_def)
  note c = create_logged [OF demo_lost_created s(1)]
  show "next_lsn demo_lost = 2" using c(1) s(2) by (auto simp: next_lsn_def wal_append_def)
  show "\<not> read_only demo_lost" "memory_limit demo_lost = 0" using c(3,4) by (simp_all add: demo_restarted_def)
qed

lemma demo_u_inserted: "\<exists>db. insert_rows to_ascii_lowercase demo_order demo_lost (str ''u'') [demo_row] = (db, Inr 1)"
proof -
  obtain t t' where t: "table_of to_ascii_lowercase (tables demo_lost) (str ''u'') = Some t" "insert_many t [demo_row] = (t', Inr 1)"
    using demo_u by metis
  then have i: "insert_inner to_ascii_lowercase (tables demo_lost) (str ''u'') [demo_row] =
      ((tables demo_lost)(key to_ascii_lowercase (str ''u'') \<mapsto> t'), Inr 1)"
    by (simp add: insert_inner_def)
  obtain p where "wal_encode (schema_of to_ascii_lowercase (tables demo_lost)) (InsertRows (str ''u'') [demo_row]) = Inr p"
    using demo_u_fits record_roundtrip unfolding payload_fits_def by blast
  with i demo_lost_lsn show ?thesis
    by (simp add: insert_rows_def deny_if_read_only_def log_record_def insert_inner_schemas [OF i] split: option.split)
qed

theorem second_session_locks_out_witness:
  "\<exists>db. insert_rows to_ascii_lowercase demo_order demo_lost (str ''u'') [demo_row] = (db, Inr 1) \<and>
    start_up to_ascii_lowercase (demo_args\<lparr>a_data := Some (disk_of db)\<rparr>) =
      Inl (Context ''opening the data directory'' (Context ''WAL record'' (Wal_unknown_table (str ''u''))))"
proof -
  obtain db where db: "insert_rows to_ascii_lowercase demo_order demo_lost (str ''u'') [demo_row] = (db, Inr 1)"
    using demo_u_inserted by blast
  let ?args = "demo_args\<lparr>a_data := Some (disk_of (shut_down demo_order demo_args demo_created))\<rparr>"
  have start: "start_up to_ascii_lowercase ?args = Inr demo_restarted"
    using demo_restart demo_created_store demo_durability
    by (auto simp: start_up_def shut_down_def is_persistent_def with_context_def)
  have "op_ok to_ascii_lowercase demo_restarted (Op_create (str ''u'') demo_schema)"
    using demo_lost_fits by (simp add: op_ok_def lsn_left_def next_lsn_def demo_restarted_def)
  then have ops: "ops_ok to_ascii_lowercase demo_order demo_restarted [Op_create (str ''u'') demo_schema]" by simp
  obtain t t' where "table_of to_ascii_lowercase (tables demo_lost) (str ''u'') = Some t" "batch_fits t [demo_row]"
    using demo_u by metis
  then have ins: "op_ok to_ascii_lowercase demo_lost (Op_insert (str ''u'') [demo_row])"
    using demo_u_fits demo_lost_lsn(1) by (simp add: op_ok_def lsn_left_def)
  show ?thesis
    using second_session_locks_out [OF demo_order_keys demo_created_durable demo_created_small demo_durability(3),
        of ?args demo_restarted "str ''u''" demo_schema demo_lost "[]" "[demo_row]" db 1 "demo_args\<lparr>a_data := Some (disk_of db)\<rparr>" Fsync]
      start demo_lost_created ops demo_lost_lsn demo_created_lsn ins db demo_durability
    by simp
qed

end
