(* ===== verification/Outage.thy ===== *)
theory Outage
  imports Sessions
begin

text \<open>
  Statements on a disk that refuses a write. The other theories let every write succeed; here the outcome of
  the one write of a log record is an argument, and the operations of \<open>db.rs\<close> pass its error on. The tables
  have been changed by then: an error reply means an unchanged database unless the log was the reason, and a
  record that follows a cut one is lost.
\<close>

section \<open>The log\<close>

text \<open>
  \<open>write_all\<close> succeeds, or some first bytes of the frame have reached the file when it fails, or it succeeds and
  \<open>sync_data\<close> fails.
\<close>

datatype disk_write = Written | Cut_short nat | Not_synced

text \<open>\<open>Wal::append\<close>: the LSN goes up only at its end.\<close>

definition append_io :: "disk_write \<Rightarrow> wal \<Rightarrow> u8 list \<Rightarrow> wal \<times> u64 res" where
  "append_io out w p =
     (let f = frame (wnext w) p in
      case out of
        Cut_short k \<Rightarrow> (w\<lparr>wfile := wfile w @ take k (butlast f)\<rparr>, Inl Log_write)
      | _ \<Rightarrow>
          (let w' = w\<lparr>wfile := wfile w @ f\<rparr> in
           if wdurability w = Fsync \<and> out = Not_synced then (w', Inl Log_write)
           else (w'\<lparr>wnext := wnext w + 1\<rparr>, Inr (wnext w))))"

definition log_io :: "disk_write \<Rightarrow> (rstr \<Rightarrow> rstr) \<Rightarrow> database \<Rightarrow> wal_record \<Rightarrow> database \<times> unit res" where
  "log_io out lower db rec =
     (case store db of
        None \<Rightarrow> (db, Inr ())
      | Some s \<Rightarrow>
          (case wal_encode (schema_of lower (tables db)) rec of
             Inl e \<Rightarrow> (db, Inl e)
           | Inr p \<Rightarrow>
               (case append_io out (store_wal s) p of
                  (w, Inl e) \<Rightarrow> (db\<lparr>store := Some (s\<lparr>store_wal := w\<rparr>)\<rparr>, Inl e)
                | (w, Inr _) \<Rightarrow> (db\<lparr>store := Some (s\<lparr>store_wal := w\<rparr>)\<rparr>, Inr ()))))"

section \<open>Statements\<close>

definition create_table_io :: "disk_write \<Rightarrow> (rstr \<Rightarrow> rstr) \<Rightarrow> database \<Rightarrow> rstr \<Rightarrow> schema \<Rightarrow> database \<times> unit res" where
  "create_table_io out lower db name s =
     (case deny_if_read_only ''CREATE TABLE'' db of
        Inl e \<Rightarrow> (db, Inl e)
      | Inr _ \<Rightarrow>
          (case table_new name s of
             Inl e \<Rightarrow> (db, Inl e)
           | Inr t \<Rightarrow>
               if tables db (key lower name) \<noteq> None then (db, Inl (Table_exists name))
               else log_io out lower (db\<lparr>tables := (tables db)(key lower name \<mapsto> t)\<rparr>) (CreateTable name s)))"

definition drop_table_io :: "disk_write \<Rightarrow> (rstr \<Rightarrow> rstr) \<Rightarrow> database \<Rightarrow> rstr \<Rightarrow> database \<times> bool res" where
  "drop_table_io out lower db name =
     (case deny_if_read_only ''DROP TABLE'' db of
        Inl e \<Rightarrow> (db, Inl e)
      | Inr _ \<Rightarrow>
          (case drop_table_inner lower (tables db) name of
             (m, False) \<Rightarrow> (db\<lparr>tables := m\<rparr>, Inr False)
           | (m, True) \<Rightarrow>
               (case log_io out lower (db\<lparr>tables := m\<rparr>) (DropTable name) of
                  (db', Inl e) \<Rightarrow> (db', Inl e)
                | (db', Inr _) \<Rightarrow> (db', Inr True))))"

definition insert_rows_io ::
  "disk_write \<Rightarrow> (rstr \<Rightarrow> rstr) \<Rightarrow> (rstr set \<Rightarrow> rstr list) \<Rightarrow> database \<Rightarrow> rstr \<Rightarrow> rvalue list list \<Rightarrow> database \<times> nat res" where
  "insert_rows_io out lower order db name rows =
     (case deny_if_read_only ''INSERT'' db of
        Inl e \<Rightarrow> (db, Inl e)
      | Inr _ \<Rightarrow>
          if 0 < memory_limit db \<and> unat (memory_limit db) \<le> bytes_used order db
          then (db, Inl (Memory_limit (bytes_used order db) (memory_limit db)))
          else
            (case insert_inner lower (tables db) name rows of
               (m, Inl e) \<Rightarrow> (db\<lparr>tables := m\<rparr>, Inl e)
             | (m, Inr n) \<Rightarrow>
                 (case log_io out lower (db\<lparr>tables := m\<rparr>) (InsertRows name rows) of
                    (db', Inl e) \<Rightarrow> (db', Inl e)
                  | (db', Inr _) \<Rightarrow> (db', Inr n))))"

text \<open>\<open>Database::run\<close>; a statement that reads is as before.\<close>

definition run_statement_io ::
  "disk_write \<Rightarrow> (rstr \<Rightarrow> rstr) \<Rightarrow> (rstr \<Rightarrow> rstr) \<Rightarrow> (rstr \<Rightarrow> u64) \<Rightarrow> (rstr set \<Rightarrow> rstr list) \<Rightarrow> database \<Rightarrow> statement \<Rightarrow>
   database \<times> query_result res" where
  "run_statement_io out lower upper hash order db st =
     (case st of
        St_CreateTable name s if_not_exists \<Rightarrow>
          if if_not_exists \<and> table_of lower (tables db) name \<noteq> None
          then run_statement lower upper hash order db st
          else
            (case create_table_io out lower db name s of
               (db', Inl e) \<Rightarrow> (db', Inl e)
             | (db', Inr _) \<Rightarrow> (db', Inr (quoted name (uni [1089, 1086, 1079, 1076, 1072, 1085, 1072]))))
      | St_DropTable name if_exists \<Rightarrow>
          (case drop_table_io out lower db name of
             (db', Inl e) \<Rightarrow> (db', Inl e)
           | (db', Inr found) \<Rightarrow>
               if \<not> found \<and> \<not> if_exists then (db', Inl (Table_missing name))
               else (db', Inr (quoted name (uni [1091, 1076, 1072, 1083, 1077, 1085, 1072]))))
      | St_Insert tab cols rows \<Rightarrow>
          (case (case cols of None \<Rightarrow> Inr rows | Some names \<Rightarrow> reorder lower db tab names rows) of
             Inl e \<Rightarrow> (db, Inl e)
           | Inr rows' \<Rightarrow>
               (case insert_rows_io out lower order db tab rows' of
                  (db', Inl e) \<Rightarrow> (db', Inl e)
                | (db', Inr n) \<Rightarrow> (db', Inr (message (uni [1074, 1089, 1090, 1072, 1074, 1083, 1077, 1085, 1086, 32, 1089, 1090, 1088, 1086, 1082] @ str '': '' @ dec_digits n)))))
      | _ \<Rightarrow> run_statement lower upper hash order db st)"

section \<open>A failed write\<close>

text \<open>
  \<open>unlogged out s p db' dbs\<close>: what a failed write leaves. The tables are those of the statement on a working
  disk, \<open>dbs\<close>, but the file ends with the part of the frame that was written and the LSN is the old one.
\<close>

definition reached :: "disk_write \<Rightarrow> u8 list \<Rightarrow> u8 list" where
  "reached out f = (case out of Cut_short k \<Rightarrow> take k (butlast f) | _ \<Rightarrow> f)"

definition unlogged :: "disk_write \<Rightarrow> store \<Rightarrow> u8 list \<Rightarrow> database \<Rightarrow> database \<Rightarrow> bool" where
  "unlogged out s p db' dbs \<longleftrightarrow>
     tables db' = tables dbs \<and> store dbs = Some (s\<lparr>store_wal := fst (wal_append (store_wal s) p)\<rparr>) \<and>
     store db' = Some (s\<lparr>store_wal := (store_wal s)\<lparr>wfile := wfile (store_wal s) @ reached out (frame (wnext (store_wal s)) p)\<rparr>\<rparr>)"

lemma log_io_cases:
  assumes "log_io out lower db rec = (db', r)"
  shows "log_record lower db rec = (db', r) \<or>
    (\<exists>s p. store db = Some s \<and> out \<noteq> Written \<and> r = Inl Log_write \<and>
       (\<exists>dbs. log_record lower db rec = (dbs, Inr ()) \<and> unlogged out s p db' dbs))"
  using assms
  by (cases out)
    (auto simp: log_io_def log_record_def append_io_def wal_append_def unlogged_def reached_def Let_def
      split: option.splits sum.splits if_splits)

lemma create_table_io_cases:
  assumes "create_table_io out lower db n sc = (db', r)"
  shows "create_table lower db n sc = (db', r) \<or>
    (\<exists>s p. store db = Some s \<and> out \<noteq> Written \<and> r = Inl Log_write \<and>
       (\<exists>dbs. create_table lower db n sc = (dbs, Inr ()) \<and> unlogged out s p db' dbs))"
  using assms log_io_cases [of out lower "db\<lparr>tables := (tables db)(key lower n \<mapsto> t)\<rparr>" "CreateTable n sc" db' r for t]
  by (auto simp: create_table_io_def create_table_def split: sum.splits if_splits)

lemma drop_table_io_cases:
  assumes "drop_table_io out lower db n = (db', r)"
  shows "drop_table lower db n = (db', r) \<or>
    (\<exists>s p. store db = Some s \<and> out \<noteq> Written \<and> r = Inl Log_write \<and>
       (\<exists>dbs. drop_table lower db n = (dbs, Inr True) \<and> unlogged out s p db' dbs))"
proof -
  obtain m b where m: "drop_table_inner lower (tables db) n = (m, b)" by fastforce
  obtain db1 r1 where l: "log_io out lower (db\<lparr>tables := m\<rparr>) (DropTable n) = (db1, r1)" by fastforce
  from log_io_cases [OF l] l m assms show ?thesis
    by (cases b) (auto simp: drop_table_io_def drop_table_def split: sum.splits)
qed

lemma insert_rows_io_cases:
  assumes "insert_rows_io out lower order db n rows = (db', r)"
  shows "insert_rows lower order db n rows = (db', r) \<or>
    (\<exists>s p. store db = Some s \<and> out \<noteq> Written \<and> r = Inl Log_write \<and>
       (\<exists>dbs k. insert_rows lower order db n rows = (dbs, Inr k) \<and> unlogged out s p db' dbs))"
proof -
  obtain m q where m: "insert_inner lower (tables db) n rows = (m, q)" by fastforce
  obtain db1 r1 where l: "log_io out lower (db\<lparr>tables := m\<rparr>) (InsertRows n rows) = (db1, r1)" by fastforce
  from log_io_cases [OF l] l m assms show ?thesis
    by (cases q) (auto simp: insert_rows_io_def insert_rows_def split: sum.splits if_splits)
qed

lemma run_statement_io_cases:
  assumes run: "run_statement_io out lower upper hash order db st = (db', r)"
  shows "run_statement lower upper hash order db st = (db', r) \<or>
    (\<exists>s p. store db = Some s \<and> out \<noteq> Written \<and> r = Inl Log_write \<and>
       (\<exists>dbs q. run_statement lower upper hash order db st = (dbs, Inr q) \<and> unlogged out s p db' dbs))"
proof (cases st)
  case (St_CreateTable n sc b)
  obtain db1 r1 where c: "create_table_io out lower db n sc = (db1, r1)" by fastforce
  from create_table_io_cases [OF c] c run St_CreateTable show ?thesis
    by (auto simp: run_statement_io_def run_statement_def split: sum.splits if_splits)
next
  case (St_DropTable n b)
  obtain db1 r1 where c: "drop_table_io out lower db n = (db1, r1)" by fastforce
  from drop_table_io_cases [OF c] c run St_DropTable show ?thesis
    by (auto simp: run_statement_io_def run_statement_def split: sum.splits if_splits)
next
  case (St_Insert n cols rows)
  show ?thesis
  proof (cases "case cols of None \<Rightarrow> Inr rows | Some names \<Rightarrow> reorder lower db n names rows")
    case (Inl e)
    then have "run_statement_io out lower upper hash order db st = (db, Inl e)" "run_statement lower upper hash order db st = (db, Inl e)"
      using St_Insert by (simp_all add: run_statement_io_def run_statement_def)
    with run show ?thesis by simp
  next
    case (Inr rows')
    obtain db1 r1 where c: "insert_rows_io out lower order db n rows' = (db1, r1)" by fastforce
    from insert_rows_io_cases [OF c] c run St_Insert Inr show ?thesis
      by (auto simp: run_statement_io_def run_statement_def split: sum.splits)
  qed
qed (use run in \<open>simp_all add: run_statement_io_def\<close>)

lemma frame_not_Nil: "frame l p \<noteq> []"
  using length_frame [of l p] by (auto simp: frame_header_def)

text \<open>The frame that the statement would have written is the one of the statement on a working disk.\<close>

lemma unlogged_frame:
  assumes one: "one_frame db dbs" and s: "store db = Some s" and u: "unlogged out s p db' dbs"
  shows "payload_small p"
proof -
  let ?w = "store_wal s"
  have eq: "store dbs = Some (s\<lparr>store_wal := fst (wal_append ?w p)\<rparr>)" using u by (simp add: unlogged_def)
  have "wfile (fst (wal_append ?w p)) \<noteq> wfile ?w" by (simp add: wal_append_def frame_not_Nil)
  then have "store dbs \<noteq> store db" using eq s by (metis option.inject store.select_convs(2) store.surjective store.update_convs(2))
  with one s obtain q where q: "payload_small q" "store dbs = Some (s\<lparr>store_wal := fst (wal_append ?w q)\<rparr>)"
    unfolding one_frame_def by auto
  with eq have "fst (wal_append ?w p) = fst (wal_append ?w q)" by (cases s) simp
  then have "frame (wnext ?w) p = frame (wnext ?w) q" by (cases ?w) (simp add: wal_append_def)
  then have "drop 16 (frame (wnext ?w) p) = drop 16 (frame (wnext ?w) q)" by simp
  with q(1) show ?thesis by (simp add: frame_def Let_def)
qed

lemma unlogged_restart:
  assumes dur: "durable lower db" "durable lower dbs" and s: "store db = Some s" and p: "payload_small p"
    and u: "unlogged out s p db' dbs" and out: "out \<noteq> Written"
  shows "\<exists>db''. db_open lower d (disk_of db') = Inr db'' \<and> tables db'' = (if out = Not_synced then tables dbs else tables db)"
proof -
  let ?w = "store_wal s" and ?f = "frame (wnext (store_wal s)) p"
  have disk: "disk_of db' = (disk_of db)\<lparr>wal_file := wfile ?w @ reached out ?f\<rparr>"
    using u s by (simp add: unlogged_def disk_of_def)
  have "recovered lower (disk_of db') = Some (if out = Not_synced then tables dbs else tables db)"
  proof (cases out)
    case (Cut_short k)
    have "?f \<noteq> []" by (rule frame_not_Nil)
    then have "take k (butlast ?f) = take (min k (length ?f - 1)) ?f" "min k (length ?f - 1) < length ?f"
      by (simp_all add: butlast_conv_take min_less_iff_disj)
    with recovered_wal_prefix [OF dur(1) s p] Cut_short show ?thesis by (simp add: disk reached_def)
  next
    case Not_synced
    have "disk_of db' = disk_of dbs"
      using u s Not_synced by (simp add: unlogged_def disk_of_def reached_def wal_append_def)
    with recovered_image [OF dur(2)] Not_synced show ?thesis by simp
  qed (use out in simp)
  then show ?thesis by (auto simp: recovered_durability [of lower _ d] split: sum.splits)
qed

text \<open>
  C33: what an error reply says about the database, for any outcome of the write to the log. A statement that
  reads, or any statement on a replica, changes nothing. A \<open>CREATE\<close> or \<open>DROP\<close> that fails on a working disk, too,
  changes nothing. A statement that fails only because its record could not be written has changed the tables
  in memory as if it had succeeded; after a restart of a database whose log was in order they are as before it
  if a part of the record is missing, and as after it if only the \<open>fsync\<close> failed.
\<close>

theorem error_reply_and_state:
  assumes run: "run_statement_io out lower upper hash order db st = (db', r)"
    and works: "run_statement lower upper hash order db st = (dbs, rs)"
  shows "(reads st \<or> read_only db \<longrightarrow> db' = db) \<and>
    (\<not> is_insert st \<and> \<not> is_ok rs \<longrightarrow> db' = db \<and> r = rs) \<and>
    (is_ok rs \<and> \<not> is_ok r \<and> lists_keys order \<and> durable lower db \<and> ops_ok lower order db (statement_ops lower db st) \<longrightarrow>
      tables db' = tables dbs \<and> (\<exists>db''. db_open lower d (disk_of db') = Inr db'' \<and>
        tables db'' = (if out = Not_synced then tables dbs else tables db)))"
proof (intro conjI impI)
  note io = run_statement_io_cases [OF run]
  note same = refused_statement_changes_nothing [OF works]
  show "db' = db" if "reads st \<or> read_only db"
  proof (cases "run_statement lower upper hash order db st = (db', r)")
    case True
    with same that works show ?thesis by auto
  next
    case False
    with io obtain s p dbs' q where u: "store db = Some s" "run_statement lower upper hash order db st = (dbs', Inr q)"
      "unlogged out s p db' dbs'" by auto
    with works same that have "dbs' = db" by auto
    with u(1,3) have "s = s\<lparr>store_wal := fst (wal_append (store_wal s) p)\<rparr>" by (simp add: unlogged_def)
    then have "wfile (store_wal s) = wfile (fst (wal_append (store_wal s) p))" by (metis store.select_convs(2) store.surjective store.update_convs(2))
    then show ?thesis by (simp add: wal_append_def frame_not_Nil)
  qed
  show "db' = db" "r = rs" if "\<not> is_insert st \<and> \<not> is_ok rs" using io same works that by auto
  assume a: "is_ok rs \<and> \<not> is_ok r \<and> lists_keys order \<and> durable lower db \<and> ops_ok lower order db (statement_ops lower db st)"
  then have "run_statement lower upper hash order db st \<noteq> (db', r)" using works by auto
  with io works obtain s p where u: "store db = Some s" "unlogged out s p db' dbs" "out \<noteq> Written" by auto
  have dbs: "dbs = foldl (run_op lower order) db (statement_ops lower db st)"
    using statement_effect [of lower upper hash order db st] works by simp
  have dur: "durable lower dbs" using ops_durable [of order lower db "statement_ops lower db st"] a dbs by simp
  have "one_frame db dbs"
  proof (cases "statement_ops lower db st")
    case Nil
    with dbs show ?thesis by (simp add: one_frame_def)
  next
    case (Cons x xs)
    with one_op(1) [of lower db st] have "xs = []" by simp
    moreover have "x \<noteq> Op_snapshot"
      using Cons by (auto simp: statement_ops_def split: statement.splits if_splits sum.splits)
    moreover have "op_fits lower db x" using a Cons by (simp add: op_ok_def del: op_fits.simps)
    ultimately show ?thesis using op_frame dbs Cons by simp
  qed
  note small = unlogged_frame [OF this u(1,2)]
  show "tables db' = tables dbs" using u(2) by (simp add: unlogged_def)
  show "\<exists>db''. db_open lower d (disk_of db') = Inr db'' \<and> tables db'' = (if out = Not_synced then tables dbs else tables db)"
    using unlogged_restart [OF _ dur u(1) small u(2,3)] a by blast
qed

text \<open>\<open>DROP TABLE\<close> with three bytes of its record written: the table is gone until the next start.\<close>

lemma demo_drop_works:
  "\<exists>dbs q. run_statement to_ascii_lowercase (\<lambda>s. s) (\<lambda>_. 0) demo_order demo_created (St_DropTable (str ''t'') False) = (dbs, Inr q) \<and>
     tables dbs = (\<lambda>_. None)"
  by (auto simp: run_statement_def drop_table_def drop_table_inner_def deny_if_read_only_def demo_created_rest
      demo_created_tables key_def demo_key log_record_def wal_encode_def split: option.split)

lemma demo_drop_fails:
  "\<exists>db'. run_statement_io (Cut_short 3) to_ascii_lowercase (\<lambda>s. s) (\<lambda>_. 0) demo_order demo_created (St_DropTable (str ''t'') False) =
     (db', Inl Log_write)"
proof -
  obtain s where "store demo_created = Some s" using demo_created_store by blast
  then show ?thesis
    by (simp add: run_statement_io_def drop_table_io_def drop_table_inner_def deny_if_read_only_def demo_created_rest
        demo_created_tables key_def demo_key log_io_def wal_encode_def append_io_def Let_def)
qed

lemma demo_drop_ok: "ops_ok to_ascii_lowercase demo_order demo_created (statement_ops to_ascii_lowercase demo_created (St_DropTable (str ''t'') False))"
proof -
  have "record_exact so (DropTable (str ''t''))" for so by (simp add: record_exact_def) code_simp
  moreover have "length (w_u8 2 @ w_str (str ''t'')) < 2 ^ 32" by code_simp
  ultimately have "payload_fits so (DropTable (str ''t''))" for so
    by (simp add: payload_fits_def payload_small_def wal_encode_def)
  with demo_lsn_left show ?thesis by (simp add: statement_ops_def op_ok_def)
qed

theorem error_reply_and_state_witness:
  "\<exists>db' db''. run_statement_io (Cut_short 3) to_ascii_lowercase (\<lambda>s. s) (\<lambda>_. 0) demo_order demo_created (St_DropTable (str ''t'') False) =
      (db', Inl Log_write) \<and> tables db' = (\<lambda>_. None) \<and>
    db_open to_ascii_lowercase Fsync (disk_of db') = Inr db'' \<and> tables db'' = tables demo_created"
proof -
  obtain dbs q where works: "run_statement to_ascii_lowercase (\<lambda>s. s) (\<lambda>_. 0) demo_order demo_created (St_DropTable (str ''t'') False) = (dbs, Inr q)"
    "tables dbs = (\<lambda>_. None)" using demo_drop_works by blast
  obtain db' where fails: "run_statement_io (Cut_short 3) to_ascii_lowercase (\<lambda>s. s) (\<lambda>_. 0) demo_order demo_created (St_DropTable (str ''t'') False) =
      (db', Inl Log_write)" using demo_drop_fails by blast
  from error_reply_and_state [OF fails works(1), of Fsync] works(2) demo_order_keys demo_created_durable demo_drop_ok fails
  show ?thesis by (auto simp: is_ok_def)
qed

section \<open>After a failed write\<close>

text \<open>
  the next record goes behind the piece that was left. Whenever that piece and what follows it do not happen to
  read as a frame with a right checksum, recovery stops in front of it: a statement that was acknowledged after
  a failed one is lost at the next start.
\<close>

theorem record_behind_piece_lost:
  assumes dur: "durable lower db" and disk: "dsk = (disk_of db)\<lparr>wal_file := wal_file (disk_of db) @ tail\<rparr>"
    and piece: "scan_frames tail = ([], 0)"
  shows "\<exists>db''. db_open lower d dsk = Inr db'' \<and> tables db'' = tables db"
proof -
  from dur obtain s rs first m b where d: "durable_as lower db s rs first m b" by (auto simp: durable_def)
  then have "wal_open (wfile (store_wal s) @ tail) d =
      Inr (\<lparr>wfile = wal_header @ frames rs, wnext = next_after rs, wdurability = d\<rparr>, rs)"
    using wal_open_tail [OF _ piece] by (auto simp: durable_as_def wal_rep_def)
  with d show ?thesis by (simp add: disk durable_as_def db_open_def disk_of_def)
qed

text \<open>The record of an insert, cut after three bytes and written again as a whole.\<close>

lemma demo_piece:
  "scan_frames (take 3 (butlast (frame 2 (w_u8 3 @ w_str (str ''t'') @ w_u64 1 @ concat (map w_value demo_row)))) @
     frame 2 (w_u8 3 @ w_str (str ''t'') @ w_u64 1 @ concat (map w_value demo_row))) = ([], 0)"
proof -
  let ?p = "w_u8 3 @ w_str (str ''t'') @ w_u64 1 @ concat (map w_value demo_row)"
  have n: "length ?p = 36" by code_simp
  have len: "w_u32 36 = [36, 0, 0, 0]" by code_simp
  define x where "x = w_u32 (crc32 (w_u64 2 @ ?p)) @ w_u64 2 @ ?p"
  have "frame 2 ?p = w_u32 (word_of_nat (length ?p)) @ x" by (simp only: frame_def Let_def x_def)
  also have "w_u32 (word_of_nat (length ?p)) = [36, 0, 0, 0]" using len by (simp only: n) simp
  finally have f1: "frame 2 ?p = [36, 0, 0, 0] @ x" .
  have f2: "length x = 48" unfolding x_def length_append [of "w_u32 _"] length_append [of "w_u64 2"] n by simp
  note f = f1 f2
  have "take 3 (butlast ([36, 0, 0, 0] @ x)) = [36, 0, 0]" using f(2) by (cases x) simp_all
  then have bs: "take 3 (butlast (frame 2 ?p)) @ frame 2 ?p = [36, 0, 0, 36, 0, 0, 0] @ x" by (simp only: f(1)) simp
  have "unat (le_u32 [36, 0, 0, 36]) = 36 + 36 * 2 ^ 24" by code_simp
  then show ?thesis unfolding bs using f(2) by (subst scan_frames.simps) (simp add: frame_header_def Let_def)
qed

theorem record_behind_piece_lost_witness:
  "\<exists>db1 db2 q db''. run_statement_io (Cut_short 3) to_ascii_lowercase (\<lambda>s. s) (\<lambda>_. 0) demo_order demo_created
      (St_Insert (str ''t'') None [demo_row]) = (db1, Inl Log_write) \<and>
    run_statement to_ascii_lowercase (\<lambda>s. s) (\<lambda>_. 0) demo_order db1 (St_Insert (str ''t'') None [demo_row]) = (db2, Inr q) \<and>
    db_open to_ascii_lowercase Fsync (disk_of db2) = Inr db'' \<and> tables db'' = tables demo_created"
proof -
  let ?p = "w_u8 3 @ w_str (str ''t'') @ w_u64 1 @ concat (map w_value demo_row)"
  obtain s where s: "store demo_created = Some s" "wnext (store_wal s) = 2" using demo_created_store by blast
  let ?s1 = "s\<lparr>store_wal := (store_wal s)\<lparr>wfile := wfile (store_wal s) @ take 3 (butlast (frame 2 ?p))\<rparr>\<rparr>"
  let ?db1 = "demo_created\<lparr>tables := [str ''t'' \<mapsto> demo_filled], store := Some ?s1\<rparr>"
  have fails: "run_statement_io (Cut_short 3) to_ascii_lowercase (\<lambda>s. s) (\<lambda>_. 0) demo_order demo_created
      (St_Insert (str ''t'') None [demo_row]) = (?db1, Inl Log_write)"
    using s demo_inner
    by (simp add: run_statement_io_def insert_rows_io_def deny_if_read_only_def demo_created_rest log_io_def wal_encode_def
        schema_of_def table_of_def key_def demo_key demo_filled_schema demo_row_encodes append_io_def Let_def)
  obtain t' where t': "insert_many demo_filled [demo_row] = (t', Inr 1)" "tschema t' = demo_schema"
    using insert_many_ok [OF demo_filled_rep _ demo_twice_fits] demo_row_ok demo_filled_schema by auto
  let ?db2 = "?db1\<lparr>tables := [str ''t'' \<mapsto> t'], store := Some (?s1\<lparr>store_wal := fst (wal_append (store_wal ?s1) ?p)\<rparr>)\<rparr>"
  have again: "run_statement to_ascii_lowercase (\<lambda>s. s) (\<lambda>_. 0) demo_order ?db1 (St_Insert (str ''t'') None [demo_row]) =
      (?db2, Inr (message (uni [1074, 1089, 1090, 1072, 1074, 1083, 1077, 1085, 1086, 32, 1089, 1090, 1088, 1086, 1082] @ str '': '' @ dec_digits 1)))"
    using s t'
    by (simp add: run_statement_def insert_rows_def insert_inner_def deny_if_read_only_def demo_created_rest log_record_def wal_encode_def
        schema_of_def table_of_def key_def demo_key demo_row_encodes)
  have "disk_of ?db2 = (disk_of demo_created)\<lparr>wal_file := wal_file (disk_of demo_created) @
      (take 3 (butlast (frame 2 ?p)) @ frame 2 ?p)\<rparr>"
    using s by (simp add: disk_of_def wal_append_def)
  from record_behind_piece_lost [OF demo_created_durable this demo_piece, of Fsync] fails again show ?thesis by blast
qed

end
