(* ===== verification/Terminal.thy ===== *)
theory Terminal
  imports Samples
begin

text \<open>
  The command-line client as a program: \<open>main\<close>, \<open>repl\<close>, \<open>meta\<close> and \<open>run_and_print\<close> of \<open>bin/cli.rs\<close> against a
  server, which is a function on its state. The result of a call is the new state of the server and what was
  printed. The last part runs the client against the routes of \<open>Service\<close>: a file of statements is executed by
  the database in order, and what is printed are the results of the database.
\<close>

section \<open>One statement\<close>

text \<open>
  What a client works with: the JSON library, the text of bytes that are not a message, the printing of JSON,
  lower case, the connection and the host in its messages.
\<close>

record ('n, 's) link =
  link_wire :: "'n wire"
  link_lossy :: "u8 list \<Rightarrow> rstr"
  link_print :: "'n json \<Rightarrow> rstr"
  link_lower :: "rstr \<Rightarrow> rstr"
  link_server :: "'s \<Rightarrow> request \<Rightarrow> 's \<times> response option"
  link_host :: rstr

definition ask_get :: "('n, 's) link \<Rightarrow> string \<Rightarrow> 's \<Rightarrow> 's \<times> u8 list res" where
  "ask_get k path s = http_get (link_wire k) (link_lossy k) (link_server k) (link_host k) (str path) [] s"

definition ask_post :: "('n, 's) link \<Rightarrow> string \<Rightarrow> 'n json \<Rightarrow> 's \<Rightarrow> 's \<times> u8 list res" where
  "ask_post k path j s = post_json (link_wire k) (link_lossy k) (link_server k) (link_host k) (str path) j s"

text \<open>The line below a table; the time is printed with two decimals, 0 where the reply has none.\<close>

definition elapsed_of :: "'n wire \<Rightarrow> 'n json \<Rightarrow> f64" where
  "elapsed_of w v = (case json_f64 (read_f64 w) (json_field v ''elapsed_ms'') of Some x \<Rightarrow> x | None \<Rightarrow> 0)"

definition count_line :: "'n wire \<Rightarrow> bool \<Rightarrow> 'n json \<Rightarrow> nat \<Rightarrow> rstr" where
  "count_line w timed v n =
     uni [1089, 1090, 1088, 1086, 1082] @ str '': '' @ dec_digits n @
     (if timed then str '' ('' @ show_fixed 2 (elapsed_of w v) @ str '' '' @ uni [1084, 1089] @ str '')'' else [])"

definition reply_lines :: "('n, 's) link \<Rightarrow> bool \<Rightarrow> 'n json \<Rightarrow> rstr list res" where
  "reply_lines k timed v =
     and_then (printed_reply (link_print k) v) (\<lambda>(t, n).
     Inr (t # (case n of None \<Rightarrow> [] | Some r \<Rightarrow> [count_line (link_wire k) timed v r])))"

definition run_and_print :: "('n, 's) link \<Rightarrow> rstr \<Rightarrow> bool \<Rightarrow> 's \<Rightarrow> 's \<times> rstr list res" where
  "run_and_print k sql timed s =
     (case ask_post k ''/query'' (J_Object [(str ''sql'', J_String sql)]) s of
        (s', Inl e) \<Rightarrow> (s', Inl e)
      | (s', Inr text) \<Rightarrow>
          (s', and_then (ok_or (parse_json (link_wire k) text) (Client Not_json)) (reply_lines k timed)))"

definition fetch_catalog :: "('n, 's) link \<Rightarrow> 's \<Rightarrow> 's \<times> schema_cache res" where
  "fetch_catalog k s =
     (case ask_get k ''/schema'' s of
        (s', Inl e) \<Rightarrow> (s', Inl e)
      | (s', Inr text) \<Rightarrow>
          (s', and_then (ok_or (parse_json (link_wire k) text) (Client Not_json)) (\<lambda>v.
               Inr (from_schema_json (link_lower k) v))))"

section \<open>The interactive loop\<close>

text \<open>
  A text on the output; on the error output an error, after the words in front of it, or a text.
\<close>

datatype shown = Out rstr | Err rstr err | Note rstr

definition failed_text :: rstr where
  "failed_text = uni [1086, 1096, 1080, 1073, 1082, 1072] @ str '': ''"

definition show_result :: "rstr list res \<Rightarrow> shown list" where
  "show_result r = (case r of Inl e \<Rightarrow> [Err failed_text e] | Inr ls \<Rightarrow> map Out ls)"

record session =
  ses_console :: console
  ses_cache :: schema_cache

definition help_text :: rstr where
  "help_text =
     join_with [newline]
       [backslash # str ''dt              '' @ uni [1089, 1087, 1080, 1089, 1086, 1082, 32, 1090, 1072, 1073,
         1083, 1080, 1094],
        backslash # str ''d <'' @ uni [1090, 1072, 1073, 1083, 1080, 1094, 1072] @ str ''>     '' @ uni [1082,
         1086, 1083, 1086, 1085, 1082, 1080, 32, 1090, 1072, 1073, 1083, 1080, 1094, 1099],
        backslash # str ''timing          '' @ uni [1079, 1072, 1084, 1077, 1088, 32, 1074, 1088, 1077, 1084,
         1077, 1085, 1080, 32, 1079, 1072, 1087, 1088, 1086, 1089, 1072],
        backslash # str ''snapshot        '' @ uni [1089, 1073, 1088, 1086, 1089, 1080, 1090, 1100, 32, 1089,
         1086, 1089, 1090, 1086, 1103, 1085, 1080, 1077, 32, 1085, 1072, 32, 1076, 1080, 1089, 1082],
        backslash # str ''refresh         '' @ uni [1087, 1077, 1088, 1077, 1095, 1080, 1090, 1072, 1090, 1100,
         32, 1089, 1093, 1077, 1084, 1091, 32, 1076, 1083, 1103, 32, 1072, 1074, 1090, 1086, 1076, 1086,
         1087, 1086, 1083, 1085, 1077, 1085, 1080, 1103],
        backslash # str ''q               '' @ uni [1074, 1099, 1093, 1086, 1076],
        [],
        uni [1047, 1072, 1087, 1088, 1086, 1089, 32, 1074, 1099, 1087, 1086, 1083, 1085, 1103, 1077, 1090, 1089,
         1103, 32, 1087, 1086, 32, 96] @ str '';'' @ uni [96] @ str ''. '' @ uni [1055, 1091, 1089,
         1090, 1072, 1103, 32, 1089, 1090, 1088, 1086, 1082, 1072, 32, 1090, 1086, 1078, 1077, 32, 1074,
         1099, 1087, 1086, 1083, 1085, 1103, 1077, 1090, 32, 1074, 1074, 1077, 1076, 1105, 1085, 1085,
         1086, 1077] @ str ''.'',
        str ''Tab '' @ uni [8212, 32, 1072, 1074, 1090, 1086, 1076, 1086, 1087, 1086, 1083, 1085, 1077, 1085,
         1080, 1077] @ str '', Ctrl-C '' @ uni [8212, 32, 1089, 1073, 1088, 1086, 1089, 1080, 1090,
         1100, 32, 1074, 1074, 1086, 1076] @ str ''.'']"

definition timing_text :: "bool \<Rightarrow> rstr" where
  "timing_text on =
     uni [1079, 1072, 1084, 1077, 1088, 32, 1074, 1088, 1077, 1084, 1077, 1085, 1080] @ str '': '' @
     (if on then uni [1074, 1082, 1083, 1102, 1095, 1105, 1085] else uni [1074, 1099, 1082, 1083, 1102, 1095, 1077, 1085])"

definition unknown_text :: "rstr \<Rightarrow> rstr" where
  "unknown_text w =
     uni [1085, 1077, 1080, 1079, 1074, 1077, 1089, 1090, 1085, 1072, 1103, 32, 1082, 1086, 1084, 1072, 1085, 1076, 1072, 32, 39] @
     w @ uni [39] @ str '', '' @ uni [1089, 1084] @ str ''. '' @ uni [92] @ str ''help''"

text \<open>The commands with a backslash; \<open>timing\<close> has been switched when it is reported.\<close>

definition meta_action :: "('n, 's) link \<Rightarrow> session \<Rightarrow> command \<Rightarrow> 's \<Rightarrow> 's \<times> session \<times> shown list" where
  "meta_action k ses cmd s =
     (case cmd of
        C_quit \<Rightarrow> (s, ses, [])
      | C_query sql \<Rightarrow> (case run_and_print k sql False s of (s', r) \<Rightarrow> (s', ses, show_result r))
      | C_timing \<Rightarrow> (s, ses, [Out (timing_text (timing (ses_console ses)))])
      | C_refresh \<Rightarrow>
          (case fetch_catalog k s of
             (s', Inl e) \<Rightarrow> (s', ses, [Err failed_text e])
           | (s', Inr c) \<Rightarrow> (s', ses\<lparr>ses_cache := c\<rparr>, [Out (uni [1089, 1093, 1077, 1084, 1072, 32, 1086, 1073, 1085, 1086, 1074, 1083, 1077, 1085, 1072])]))
      | C_snapshot \<Rightarrow>
          (case ask_post k ''/snapshot'' (J_Object []) s of
             (s', Inl e) \<Rightarrow> (s', ses, [Err failed_text e])
           | (s', Inr text) \<Rightarrow> (s', ses, [Out (link_lossy k text)]))
      | C_help \<Rightarrow> (s, ses, [Out help_text])
      | C_unknown w \<Rightarrow> (s, ses, [Out (unknown_text w)]))"

text \<open>A statement; after one that looks like DDL the schema is read again, and kept where that fails.\<close>

definition statement_action :: "('n, 's) link \<Rightarrow> session \<Rightarrow> rstr \<Rightarrow> bool \<Rightarrow> 's \<Rightarrow> 's \<times> session \<times> shown list" where
  "statement_action k ses stmt ddl s =
     (case run_and_print k stmt (timing (ses_console ses)) s of
        (s', r) \<Rightarrow>
          if ddl then
            (case fetch_catalog k s' of
               (s'', Inl _) \<Rightarrow> (s'', ses, show_result r)
             | (s'', Inr c) \<Rightarrow> (s'', ses\<lparr>ses_cache := c\<rparr>, show_result r))
          else (s', ses, show_result r))"

text \<open>
  One turn: what the line asks for is done; the last component is the result of the loop when it ends.
\<close>

definition session_turn :: "('n, 's) link \<Rightarrow> session \<Rightarrow> input \<Rightarrow> 's \<Rightarrow> 's \<times> session \<times> shown list \<times> unit res option" where
  "session_turn k ses inp s =
     (case repl_turn (link_lower k) (ses_console ses) inp of
        (con, act) \<Rightarrow>
          let ses1 = ses\<lparr>ses_console := con\<rparr> in
          (case act of
             Prompt \<Rightarrow> (s, ses1, if inp = Interrupted then [Out (str ''^C'')] else [], None)
           | Meta cmd \<Rightarrow> (case meta_action k ses1 cmd s of (s', ses', out) \<Rightarrow> (s', ses', out, None))
           | Run stmt ddl \<Rightarrow> (case statement_action k ses1 stmt ddl s of (s', ses', out) \<Rightarrow> (s', ses', out, None))
           | Quit \<Rightarrow> (s, ses1, [], Some (Inr ()))
           | Give_up \<Rightarrow> (s, ses1, [], Some (Inl (Client Input_failed)))))"

fun session_loop :: "('n, 's) link \<Rightarrow> session \<Rightarrow> input list \<Rightarrow> 's \<Rightarrow> 's \<times> shown list \<times> unit res option" where
  "session_loop k ses [] s = (s, [], None)"
| "session_loop k ses (inp # rest) s =
     (case session_turn k ses inp s of
        (s', ses', out, Some r) \<Rightarrow> (s', out, Some r)
      | (s', ses', out, None) \<Rightarrow>
          (case session_loop k ses' rest s' of (s'', out', r) \<Rightarrow> (s'', out @ out', r)))"

text \<open>What \<open>repl\<close> prints first.\<close>

definition banner :: rstr where
  "banner =
     str ''veldb '' @ package_version @ str '' '' @ uni [8212, 32] @ backslash # str ''help '' @ uni [1076, 1083, 1103, 32, 1089, 1087, 1088, 1072, 1074,
       1082, 1080] @ str '', '' @ backslash # str ''q '' @ uni [1076, 1083, 1103, 32, 1074, 1099, 1093, 1086, 1076,
       1072]"

definition no_schema_text :: rstr where
  "no_schema_text =
     uni [1085, 1077, 32, 1091, 1076, 1072, 1083, 1086, 1089, 1100, 32, 1087, 1086, 1083, 1091, 1095, 1080, 1090,
       1100, 32, 1089, 1093, 1077, 1084, 1091] @ str '': ''"

definition no_server_text :: rstr where
  "no_server_text = uni [1089, 1077, 1088, 1074, 1077, 1088, 32, 1079, 1072, 1087, 1091, 1097, 1077, 1085] @ str ''? veldb --http ''"

text \<open>The completions that the line editor offers, with what each of them shows.\<close>

definition offer ::
  "(uchar \<Rightarrow> bool) \<Rightarrow> (rstr \<Rightarrow> rstr) \<Rightarrow> (rstr set \<Rightarrow> rstr list) \<Rightarrow> session \<Rightarrow> rstr \<Rightarrow> nat \<Rightarrow> (nat \<times> (rstr \<times> rstr) list) res" where
  "offer alnum lower order ses line pos =
     and_then (complete alnum lower order line pos (ses_cache ses)) (\<lambda>(start, words).
     Inr (start, map (\<lambda>w. (w, w)) words))"

definition repl :: "('n, 's) link \<Rightarrow> input list \<Rightarrow> 's \<Rightarrow> 's \<times> shown list \<times> unit res option" where
  "repl k inputs s =
     (case fetch_catalog k s of
        (s', Inl e) \<Rightarrow> (s', [Err no_schema_text e, Note (no_server_text @ link_host k)], Some (Inl e))
      | (s', Inr c) \<Rightarrow>
          (case session_loop k \<lparr>ses_console = \<lparr>buffer = [], timing = False\<rparr>, ses_cache = c\<rparr> inputs s' of
             (s'', out, r) \<Rightarrow> (s'', Out banner # out, r)))"

section \<open>The program\<close>

fun run_script :: "('n, 's) link \<Rightarrow> rstr list \<Rightarrow> 's \<Rightarrow> 's \<times> shown list \<times> unit res" where
  "run_script k [] s = (s, [], Inr ())"
| "run_script k (sql # rest) s =
     (case run_and_print k sql False s of
        (s', Inl e) \<Rightarrow> (s', [], Inl e)
      | (s', Inr ls) \<Rightarrow> (case run_script k rest s' of (s'', out, r) \<Rightarrow> (s'', map Out ls @ out, r)))"

record ctl_args =
  c_url :: rstr
  c_execute :: "rstr option"
  c_file :: "rstr option"

text \<open>\<open>main\<close>: a statement of \<open>-e\<close>, the statements of a file, or the loop; \<open>files\<close> gives the text of a file.\<close>

definition ctl_main ::
  "(rstr \<Rightarrow> rstr option) \<Rightarrow> ('n, 's) link \<Rightarrow> ctl_args \<Rightarrow> input list \<Rightarrow> 's \<Rightarrow> 's \<times> shown list \<times> unit res option" where
  "ctl_main files k args inputs s =
     (let k = k\<lparr>link_host := normalize_url (c_url args)\<rparr> in
      case c_execute args of
        Some sql \<Rightarrow>
          (case run_and_print k sql False s of
             (s', Inl e) \<Rightarrow> (s', [], Some (Inl e))
           | (s', Inr ls) \<Rightarrow> (s', map Out ls, Some (Inr ())))
      | None \<Rightarrow>
          (case c_file args of
             Some path \<Rightarrow>
               (case files path of
                  None \<Rightarrow> (s, [], Some (Inl (Context ''reading the file'' (Client (Unreadable_file path)))))
                | Some text \<Rightarrow> (case run_script k (split_statements text) s of (s', out, r) \<Rightarrow> (s', out, Some r)))
           | None \<Rightarrow> repl k inputs s))"

section \<open>A client of the database\<close>

definition http_link :: "engine \<Rightarrow> 'n wire \<Rightarrow> f64 \<Rightarrow> (u8 list \<Rightarrow> rstr) \<Rightarrow> ('n json \<Rightarrow> rstr) \<Rightarrow> ('n, database) link" where
  "http_link eng w clock lossy print =
     \<lparr>link_wire = w, link_lossy = lossy, link_print = print, link_lower = lower_of eng,
      link_server = http_server eng w clock, link_host = []\<rparr>"

text \<open>Statements on the database itself, up to the first that fails.\<close>

fun exec_script :: "engine \<Rightarrow> rstr list \<Rightarrow> database \<Rightarrow> database \<times> query_result list \<times> err option" where
  "exec_script eng [] db = (db, [], None)"
| "exec_script eng (sql # rest) db =
     (case run_sql eng db sql of
        (db', Inl e) \<Rightarrow> (db', [], Some e)
      | (db', Inr r) \<Rightarrow> (case exec_script eng rest db' of (db'', rs, e) \<Rightarrow> (db'', r # rs, e)))"

definition result_json :: "'n wire \<Rightarrow> f64 \<Rightarrow> query_result \<Rightarrow> 'n json" where
  "result_json w clock r = query_json w clock (reply_of (value_json w) r, length (qrows r))"

text \<open>The cells of a result as the terminal shows them, and its lines.\<close>

definition result_cells :: "'n wire \<Rightarrow> ('n json \<Rightarrow> rstr) \<Rightarrow> query_result \<Rightarrow> rstr list list" where
  "result_cells w print r = map (map (render_cell print \<circ> value_json w)) (qrows r)"

definition result_lines :: "'n wire \<Rightarrow> f64 \<Rightarrow> ('n json \<Rightarrow> rstr) \<Rightarrow> query_result \<Rightarrow> rstr list" where
  "result_lines w clock print r =
     (if qcolumns r = [] then [print (result_json w clock r)]
      else
        (case format_table (qcolumns r) (result_cells w print r) of
           Inl _ \<Rightarrow> []
         | Inr t \<Rightarrow> [t, uni [1089, 1090, 1088, 1086, 1082] @ str '': '' @ dec_digits (length (qrows r))]))"

lemma result_rows_width:
  assumes "result_rows arrays n = Inr rows" and "row \<in> set rows"
  shows "length row = length arrays"
proof -
  have "list_all2 (\<lambda>i row. map_res (\<lambda>a. arr_value a i) arrays = Inr row) [0..<n] rows"
    using assms(1) by (simp add: result_rows_def map_res_Inr)
  moreover obtain j where "j < length rows" "row = rows ! j" using assms(2) by (auto simp: in_set_conv_nth)
  ultimately have "map_res (\<lambda>a. arr_value a ([0..<n] ! j)) arrays = Inr row"
    by (simp add: list_all2_conv_all_nth)
  then show ?thesis by (rule map_res_length)
qed

lemma run_select_rectangular:
  assumes "run_select lower upper hash q tab = Inr r" and "row \<in> set (qrows r)"
  shows "length row = length (qcolumns r)"
proof -
  from assms(1) obtain frame s arrays and ps :: "projection list" where a: "map_res (\<lambda>p. eval lower upper frame s (proj_expr p)) ps = Inr arrays"
    "result_rows arrays (sel_len s) = Inr (qrows r)" "qcolumns r = map proj_alias ps"
    by (auto simp: run_select_def Let_def and_then_Inr split: prod.splits)
  with result_rows_width [OF a(2) assms(2)] map_res_length [OF a(1)] show ?thesis by simp
qed

lemma run_sql_rectangular:
  assumes "run_sql eng db sql = (db', Inr r)" and "row \<in> set (qrows r)"
  shows "length row = length (qcolumns r)"
proof -
  from assms(1) obtain st where "run_statement (lower_of eng) (upper_of eng) (hash_of eng) (order_of eng) db st = (db', Inr r)"
    by (auto simp: run_sql_def execute_def split: sum.splits)
  with assms(2) show ?thesis
    by (cases st) (auto simp: run_statement_def quoted_def message_def and_then_Inr run_select_rectangular
        split: sum.splits prod.splits if_splits option.splits)
qed

lemma result_printed:
  assumes "\<forall>row \<in> set (qrows r). length row = length (qcolumns r)" and "qcolumns r \<noteq> []"
  shows "\<exists>t. format_table (qcolumns r) (result_cells w print r) = Inr t"
proof -
  have "\<forall>row \<in> set (result_cells w print r). length row = length (qcolumns r)" using assms(1) by (auto simp: result_cells_def)
  from table_aligned [OF assms(2) this] show ?thesis by (auto simp: format_table_def)
qed

lemma result_fields:
  "reply_columns (result_json w clock r) = qcolumns r"
  "reply_rows print (result_json w clock r) = result_cells w print r"
  by (simp_all add: reply_columns_def reply_rows_def result_cells_def result_json_def query_json_def reply_of_def
      json_field_def json_str_def json_array_def str_inject comp_def)

text \<open>
  What the client needs of a reply: its text is JSON with the columns and the rows that were sent. The time
  need not be read back to the last bit.
\<close>

definition reply_read :: "'n wire \<Rightarrow> f64 \<Rightarrow> query_result \<Rightarrow> 'n json \<Rightarrow> bool" where
  "reply_read w clock r v \<longleftrightarrow>
     parse_json w (json_bytes w (result_json w clock r)) = Some v \<and>
     json_field v ''columns'' = json_field (result_json w clock r) ''columns'' \<and>
     json_field v ''rows'' = json_field (result_json w clock r) ''rows'' \<and>
     (qcolumns r = [] \<longrightarrow> v = result_json w clock r)"

lemma reply_shown:
  assumes "\<forall>row \<in> set (qrows r). length row = length (qcolumns r)" and v: "reply_read w clock r v"
  shows "reply_lines k False v = Inr (result_lines w clock (link_print k) r)"
proof (cases "qcolumns r = []")
  case True
  with v show ?thesis by (simp add: reply_read_def reply_lines_def printed_reply_def result_fields result_lines_def)
next
  case False
  have same: "reply_columns v = qcolumns r" "reply_rows (link_print k) v = result_cells w (link_print k) r"
    using v result_fields(1) [where w = w and clock = clock and r = r] result_fields(2) [where w = w and clock = clock and r = r]
    by (simp_all add: reply_read_def reply_columns_def reply_rows_def)
  from result_printed [OF assms(1) False, of w "link_print k"] obtain t where
    "format_table (qcolumns r) (result_cells w (link_print k) r) = Inr t" by blast
  moreover have "length (result_cells w (link_print k) r) = length (qrows r)" by (simp add: result_cells_def)
  ultimately show ?thesis using False
    by (simp add: reply_lines_def printed_reply_def same result_lines_def count_line_def)
qed

text \<open>
  The laws of the libraries: the server reads a query from a body of at most two mebibytes, which is what the
  HTTP library accepts unless the router says otherwise (it does not), and the client reads the message of an
  error.
\<close>

definition body_limit :: nat where
  "body_limit = 2 * 1024 * 1024"

definition query_body :: "'n wire \<Rightarrow> rstr \<Rightarrow> u8 list" where
  "query_body w sql = json_bytes w (J_Object [(str ''sql'', J_String sql)])"

definition faithful_queries :: "'n wire \<Rightarrow> bool" where
  "faithful_queries w \<longleftrightarrow>
     (\<forall>sql. length (query_body w sql) \<le> body_limit \<longrightarrow> sql_body w (query_body w sql) = Some sql) \<and>
     (\<forall>e. parse_json w (rs_body (api_error w e)) = Some (J_Object [(str ''error'', J_String (error_message w e))]))"

lemma error_shown:
  "faithful_queries w \<Longrightarrow> error_text (parse_json w) lossy (rs_body (api_error w e)) = error_message w e"
  by (simp add: faithful_queries_def error_text_def json_field_def json_str_def)

lemma query_over_http:
  assumes w: "faithful_queries w" and k: "k = (http_link eng w clock lossy print)\<lparr>link_host := host\<rparr>"
    and run: "run_sql eng db sql = (db', q)" and size: "length (query_body w sql) \<le> body_limit"
    and reply: "\<And>r. q = Inr r \<Longrightarrow> \<exists>v. reply_read w clock r v"
  shows "run_and_print k sql False db =
    (db', case q of Inl e \<Rightarrow> Inl (Client (Refused host (str ''/query'') (error_message w e))) | Inr r \<Rightarrow> Inr (result_lines w clock print r))"
proof -
  have sql: "sql_body w (json_bytes w (J_Object [(str ''sql'', J_String sql)])) = Some sql"
    using w size by (simp add: faithful_queries_def query_body_def)
  let ?rq = "\<lparr>rq_verb = Post, rq_path = str ''/query'', rq_query = [], rq_body = json_bytes w (J_Object [(str ''sql'', J_String sql)])\<rparr>"
  have route: "route eng w clock db ?rq =
      (db', case q of Inl e \<Rightarrow> api_error w e | Inr r \<Rightarrow> reply_json w (result_json w clock r))"
    using run by (simp add: route_def Let_def str_inject on_verb_def handle_query_def http_query_def sql result_json_def split: sum.split)
  show ?thesis
  proof (cases q)
    case (Inl e)
    have "rs_status (api_error w e) = 400" by (simp add: api_error_def)
    with Inl route error_shown [OF w] show ?thesis
      by (simp add: k http_link_def run_and_print_def ask_post_def post_json_def send_def http_server_def uri_of_def)
  next
    case (Inr r)
    have rect: "\<forall>row \<in> set (qrows r). length row = length (qcolumns r)"
      using run_sql_rectangular [of eng db sql db' r] run Inr by blast
    from reply [OF Inr] obtain v where v: "reply_read w clock r v" by blast
    from reply_shown [OF rect v, of k] v Inr route show ?thesis
      by (simp add: reply_read_def k http_link_def run_and_print_def ask_post_def post_json_def send_def http_server_def reply_json_def ok_or_def)
  qed
qed

lemma script_over_http:
  assumes w: "faithful_queries w" and k: "k = (http_link eng w clock lossy print)\<lparr>link_host := host\<rparr>"
    and "exec_script eng sqls db = (db', rs, e)"
    and "\<forall>r \<in> set rs. \<exists>v. reply_read w clock r v" and "\<forall>s \<in> set sqls. length (query_body w s) \<le> body_limit"
  shows "run_script k sqls db =
    (db', map Out (concat (map (result_lines w clock print) rs)),
     case e of None \<Rightarrow> Inr () | Some e \<Rightarrow> Inl (Client (Refused host (str ''/query'') (error_message w e)))) \<and>
    (\<forall>r \<in> set rs. \<forall>row \<in> set (qrows r). length row = length (qcolumns r))"
  using assms(3-5)
proof (induction sqls arbitrary: db rs)
  case (Cons sql sqls)
  obtain db1 q where run: "run_sql eng db sql = (db1, q)" by fastforce
  note one = query_over_http [OF w k run]
  show ?case
  proof (cases q)
    case (Inl x)
    with Cons.prems run one show ?thesis by auto
  next
    case (Inr r)
    obtain rs1 where rs1: "exec_script eng sqls db1 = (db', rs1, e)" "rs = r # rs1"
      using Cons.prems(1) run Inr by (auto split: prod.splits)
    have "run_and_print k sql False db = (db1, Inr (result_lines w clock print r))"
      using one Cons.prems(2,3) rs1(2) Inr by simp
    with Cons.IH [OF rs1(1)] Cons.prems(2,3) rs1(2) run_sql_rectangular [of eng db sql db1 r] run Inr show ?thesis by auto
  qed
qed auto

text \<open>
  C38: a file of statements that the client sends to a server, none of them longer than the two mebibytes that
  the server accepts, is executed by the database in its order, up to the first statement that fails; what is
  printed is a table and a count of rows for every result of the database, the table is never ragged, and the
  client ends with the database's message of the failure. The replies are those whose columns and rows the
  JSON library reads back.
\<close>

theorem script_runs_in_order:
  assumes stmts: "\<forall>s \<in> set sqls. lone_statement s"
    and content: "files path = Some (concat (map (\<lambda>s. s @ [semicolon, newline]) sqls))" and w: "faithful_queries w"
    and run: "exec_script eng sqls db = (db', rs, e)"
    and sizes: "\<forall>s \<in> set sqls. length (query_body w s) \<le> body_limit"
    and replies: "\<forall>r \<in> set rs. \<exists>v. reply_read w clock r v"
  shows "ctl_main files (http_link eng w clock lossy print) \<lparr>c_url = url, c_execute = None, c_file = Some path\<rparr> inputs db =
    (db', map Out (concat (map (result_lines w clock print) rs)),
     Some (case e of None \<Rightarrow> Inr () | Some e \<Rightarrow> Inl (Client (Refused (normalize_url url) (str ''/query'') (error_message w e))))) \<and>
    (\<forall>r \<in> set rs. qcolumns r \<noteq> [] \<longrightarrow> (\<exists>t. format_table (qcolumns r) (result_cells w print r) = Inr t))"
  using script_over_http [OF w refl run replies sizes, of "normalize_url url" lossy print] file_statements [OF stmts] content
    result_printed [of _ w print]
  by (simp add: ctl_main_def Let_def)

text \<open>Two statements against the example database; the second is not SQL of the example engine.\<close>

definition demo_sql :: engine where
  "demo_sql = sample_engine [(str ''SHOW TABLES'', SS_ShowTables)]"

lemma demo_faithful: "faithful_queries sample_wire"
  by (simp add: faithful_queries_def query_body_def sample_laws api_error_def)

lemma demo_listing: "run_sql demo_sql demo_created (str ''SHOW TABLES'') =
   (demo_created, Inr \<lparr>qcolumns = [str ''name'', str ''rows''], qtypes = [DT_Str, DT_I64], qrows = [[V_Str (str ''t''), V_I64 0]]\<rparr>)"
proof -
  have "table_names demo_order demo_created = [str ''t'']"
    by (simp add: table_names_def values_of_def demo_created_tables demo_order_def) (simp add: demo_table_def)
  moreover have "table_of to_ascii_lowercase (tables demo_created) (str ''t'') = Some Recovery.demo_table"
    by (simp add: table_of_def key_def demo_key demo_created_tables)
  ultimately show ?thesis
    by (simp add: run_sql_def demo_sql_def sample_engine_def execute_def plan_def plan_statement_def run_statement_def)
      (simp add: Recovery.demo_table_def)
qed

theorem script_runs_in_order_witness:
  "ctl_main (\<lambda>_. Some (str ''SHOW TABLES'' @ [semicolon, newline] @ str ''SHOW US'' @ [semicolon, newline]))
     (http_link demo_sql sample_wire 0 (\<lambda>_. []) (\<lambda>_. str ''0'')) \<lparr>c_url = str ''http://db'', c_execute = None, c_file = Some (str ''f'')\<rparr> [] demo_created =
   (demo_created,
    map Out (result_lines sample_wire 0 (\<lambda>_. str ''0'')
      \<lparr>qcolumns = [str ''name'', str ''rows''], qtypes = [DT_Str, DT_I64], qrows = [[V_Str (str ''t''), V_I64 0]]\<rparr>),
    Some (Inl (Client (Refused (normalize_url (str ''http://db'')) (str ''/query'') (str ''error'')))))"
proof -
  have "lone_statement (str ''SHOW TABLES'')" "lone_statement (str ''SHOW US'')"
    by (rule lone_statement_closed; code_simp)+
  then have stmts: "\<forall>s \<in> set [str ''SHOW TABLES'', str ''SHOW US'']. lone_statement s" by simp
  have "run_sql demo_sql demo_created (str ''SHOW US'') = (demo_created, Inl (Context ''parsing SQL'' (Sql Parser)))"
    by (simp add: run_sql_def demo_sql_def sample_engine_def execute_def plan_def str_inject)
  then have run: "exec_script demo_sql [str ''SHOW TABLES'', str ''SHOW US''] demo_created =
      (demo_created, [\<lparr>qcolumns = [str ''name'', str ''rows''], qtypes = [DT_Str, DT_I64], qrows = [[V_Str (str ''t''), V_I64 0]]\<rparr>],
       Some (Context ''parsing SQL'' (Sql Parser)))"
    by (simp add: demo_listing)
  have "error_message sample_wire e = str ''error''" for e by (simp add: sample_wire_def)
  moreover have "length (query_body sample_wire (str ''SHOW TABLES'')) \<le> body_limit"
    "length (query_body sample_wire (str ''SHOW US'')) \<le> body_limit" by code_simp+
  moreover have "\<exists>v. reply_read sample_wire 0 r v" for r by (auto simp: reply_read_def sample_laws)
  ultimately show ?thesis
    using script_runs_in_order [OF stmts _ demo_faithful run, of "\<lambda>_. Some (str ''SHOW TABLES'' @ [semicolon, newline] @ str ''SHOW US'' @ [semicolon, newline])"
      "str ''f''" 0 "\<lambda>_. []" "\<lambda>_. str ''0''" "str ''http://db''" "[]"]
    by simp
qed

end
