(* ===== verification/Calendar.thy ===== *)
theory Calendar
  imports Exec
begin

text \<open>
  The calendar behind \<open>EXTRACT\<close>: \<open>civil_from_days\<close> against the Gregorian calendar, given by the length
  of its months and its leap years.
\<close>


section \<open>The Gregorian calendar\<close>

definition leap :: "int \<Rightarrow> bool" where
  "leap y \<longleftrightarrow> y mod 4 = 0 \<and> y mod 100 \<noteq> 0 \<or> y mod 400 = 0"

definition days_in :: "int \<Rightarrow> int \<Rightarrow> int" where
  "days_in y m = (if m = 2 then (if leap y then 29 else 28) else if m \<in> {4, 6, 9, 11} then 30 else 31)"

definition next_day :: "int \<times> int \<times> int \<Rightarrow> int \<times> int \<times> int" where
  "next_day date =
     (case date of (y, m, d) \<Rightarrow>
        if d < days_in y m then (y, m, d + 1)
        else if m < 12 then (y, m + 1, 1) else (y + 1, 1, 1))"

text \<open>The days before year \<open>y\<close> of an era, for years that begin in March.\<close>

definition year_start :: "int \<Rightarrow> int" where
  "year_start y = 365 * y + y div 4 - y div 100 + y div 400"

definition year_number :: "int \<Rightarrow> int" where
  "year_number doe = (doe - doe div 1460 + doe div 36524 - doe div 146096)"

definition month_day :: "int \<Rightarrow> int \<times> int" where
  "month_day doy =
     (let mp = (5 * doy + 2) div 153 in
      (if mp < 10 then mp + 3 else mp - 9, doy - (153 * mp + 2) div 5 + 1))"

lemma div_step:
  assumes "0 < (k :: int)"
  shows "(y + 1) div k = y div k + (if (y + 1) mod k = 0 then 1 else 0)"
proof (cases "y mod k + 1 = k")
  case True
  then have "y + 1 = k * (y div k + 1)"
    by (metis add.assoc mult_div_mod_eq distrib_left mult.right_neutral)
  then show ?thesis using assms by simp
next
  case False
  moreover have "0 \<le> y mod k" "y mod k < k" using assms by simp_all
  ultimately have r: "0 \<le> y mod k + 1" "y mod k + 1 < k" by linarith+
  have e: "y + 1 = k * (y div k) + (y mod k + 1)" by simp
  have "(y + 1) div k = y div k" by (rule int_div_pos_eq [OF e r])
  moreover have "(y + 1) mod k = y mod k + 1" by (rule int_mod_pos_eq [OF e r])
  moreover have "y mod k + 1 \<noteq> 0" using assms by (smt (verit) pos_mod_sign)
  ultimately show ?thesis by simp
qed

lemma div_step_le: "0 < (k :: int) \<Longrightarrow> (y + 1) div k \<le> y div k + 1"
  by (simp add: div_step)

lemma div_step_same: "0 < (k :: int) \<Longrightarrow> (y + 1) mod k \<noteq> 0 \<Longrightarrow> (y + 1) div k = y div k"
  by (simp add: div_step)

lemma div_step_dvd:
  assumes "0 < (k :: int)" "0 < m" "k dvd m"
  shows "(y + 1) div m - y div m \<le> (y + 1) div k - y div k"
proof -
  have "(y + 1) mod m = 0 \<Longrightarrow> (y + 1) mod k = 0"
    using assms(3) by (metis dvd_imp_mod_0 dvd_trans mod_0_imp_dvd)
  then show ?thesis by (simp add: div_step assms)
qed

lemma year_length: "year_start (y + 1) - year_start y = (if leap (y + 1) then 366 else 365)"
proof -
  have "(y + 1) mod 400 = 0 \<Longrightarrow> (y + 1) mod 100 = 0" "(y + 1) mod 100 = 0 \<Longrightarrow> (y + 1) mod 4 = 0"
    by presburger+
  then show ?thesis by (simp add: year_start_def leap_def div_step)
qed

lemma year_number_mono: "0 \<le> a \<Longrightarrow> a \<le> b \<Longrightarrow> year_number a \<le> year_number b"
proof -
  have step: "year_number a \<le> year_number (a + 1)" for a
  proof -
    have "(a + 1) div 1460 \<le> a div 1460 + 1" by (rule div_step_le) simp
    moreover have "(a + 1) div 146096 - a div 146096 \<le> (a + 1) div 36524 - a div 36524"
      by (rule div_step_dvd) simp_all
    ultimately show ?thesis unfolding year_number_def by linarith
  qed
  have "year_number a \<le> year_number (a + int k)" for a k
  proof (induction k)
    case (Suc k)
    with step [of "a + int k"] show ?case by (simp add: algebra_simps)
  qed simp
  from this [of a "nat (b - a)"] show "0 \<le> a \<Longrightarrow> a \<le> b \<Longrightarrow> year_number a \<le> year_number b" by simp
qed

lemma start_divs:
  assumes "0 \<le> y" "y < 400"
  shows "year_start y div 1460 = y div 4" and "year_start y div 36524 = y div 100"
    and "year_start y div 146096 = 0" and "0 < y \<Longrightarrow> year_start y mod 1460 \<noteq> 0"
    and "0 \<le> year_start y" and "year_start y < 146096"
proof -
  define q s c r where "q = y div 4" and "s = y mod 4" and "c = y div 100" and "r = y mod 100"
  have y4: "y = 4 * q + s" "0 \<le> s" "s < 4" and y100: "y = 100 * c + r" "0 \<le> r" "r < 100"
    by (simp_all add: q_def s_def c_def r_def)
  have q: "q = 25 * c + r div 4"
  proof -
    have "y div 4 = (25 * c * 4 + r) div 4" using y100 by simp
    then show ?thesis by (simp add: q_def)
  qed
  have b: "0 \<le> c" "c < 4" "0 \<le> r div 4" "r div 4 < 25" using assms y100 by linarith+
  have S: "year_start y = 365 * y + q - c"
    using assms by (simp add: year_start_def q_def c_def)
  have e1: "year_start y = 1460 * q + (365 * s + q - c)" and e2: "year_start y = 36524 * c + (365 * r + r div 4)"
    using S y4(1) y100(1) q by linarith+
  have r1: "0 \<le> 365 * s + q - c" "365 * s + q - c < 1460" and r2: "0 \<le> 365 * r + r div 4" "365 * r + r div 4 < 36524"
    using b y4 y100 q by linarith+
  show "year_start y div 1460 = y div 4" using int_div_pos_eq [OF e1 r1] by (simp add: q_def)
  show "year_start y div 36524 = y div 100" using int_div_pos_eq [OF e2 r2] by (simp add: c_def)
  show lt: "year_start y < 146096" "0 \<le> year_start y" using e2 r2 b by linarith+
  then show "year_start y div 146096 = 0" by (intro div_pos_pos_trivial)
  show "year_start y mod 1460 \<noteq> 0" if "0 < y"
  proof -
    have "365 * s + q - c \<noteq> 0" using that b y4 y100 q by linarith
    then show ?thesis using int_mod_pos_eq [OF e1 r1] by simp
  qed
qed

lemma year_number_start: "0 \<le> y \<Longrightarrow> y < 400 \<Longrightarrow> year_number (year_start y) = 365 * y"
  by (simp add: year_number_def start_divs) (simp add: year_start_def)

lemma year_number_last:
  assumes "0 \<le> y" "y < 400"
  shows "year_number (year_start (y + 1) - 1) < 365 * (y + 1)"
proof (cases "y = 399")
  case True
  then show ?thesis by (simp add: year_number_def year_start_def)
next
  case False
  then have y: "0 \<le> y + 1" "y + 1 < 400" "0 < y + 1" using assms by linarith+
  let ?d = "year_start (y + 1) - 1"
  have "(?d + 1) div 1460 = ?d div 1460"
    by (rule div_step_same) (use start_divs(4) [OF y] in simp_all)
  moreover have "(?d + 1) div 146096 - ?d div 146096 \<le> (?d + 1) div 36524 - ?d div 36524"
    by (rule div_step_dvd) simp_all
  ultimately have "year_number ?d < year_number (?d + 1)"
    unfolding year_number_def by linarith
  then show ?thesis using year_number_start [OF y(1,2)] by simp
qed

lemma year_of:
  assumes y: "0 \<le> y" "y < 400" and d: "year_start y \<le> doe" "doe < year_start (y + 1)"
  shows "year_number doe div 365 = y"
proof -
  have "0 \<le> doe" using start_divs(5) [OF y] d by linarith
  then have "year_number (year_start y) \<le> year_number doe" "year_number doe \<le> year_number (year_start (y + 1) - 1)"
    using year_number_mono [of "year_start y" doe] year_number_mono [of doe "year_start (y + 1) - 1"]
      start_divs(5) [OF y] d by auto
  then have "365 * y \<le> year_number doe" "year_number doe < 365 * (y + 1)"
    using year_number_start [OF y] year_number_last [OF y] by linarith+
  then show ?thesis by (intro int_div_pos_eq [of _ 365 y "year_number doe - 365 * y"]) auto
qed

lemma year_exists:
  assumes "0 \<le> doe" "doe < 146097"
  shows "\<exists>y. 0 \<le> y \<and> y < 400 \<and> year_start y \<le> doe \<and> doe < year_start (y + 1)"
proof -
  have "\<exists>y. 0 \<le> y \<and> y < int n \<and> year_start y \<le> doe \<and> doe < year_start (y + 1)" if "doe < year_start (int n)" for n
    using that
  proof (induction n)
    case 0
    then show ?case using assms by (simp add: year_start_def)
  next
    case (Suc n)
    then show ?case
    proof (cases "doe < year_start (int n)")
      case True
      with Suc.IH show ?thesis by fastforce
    next
      case False
      then show ?thesis using Suc.prems by (intro exI [of _ "int n"]) (simp add: add.commute)
    qed
  qed
  from this [of 400] assms(2) show ?thesis by (simp add: year_start_def)
qed

section \<open>Months\<close>

text \<open>The days of a year that begins on 1 March; the last one is 28 or 29 February.\<close>

definition step_ok :: "int \<Rightarrow> bool" where
  "step_ok doy \<longleftrightarrow>
     (case month_day doy of (m, d) \<Rightarrow> case month_day (doy + 1) of (m', d') \<Rightarrow>
        1 \<le> m \<and> m \<le> 12 \<and> 1 \<le> d \<and>
        (if d < days_in 4 m then m' = m \<and> d' = d + 1 else m' = (if m = 12 then 1 else m + 1) \<and> d' = 1))"

lemma months_ok: "list_all step_ok [0..364]"
  by code_simp


lemma step_okD: "0 \<le> doy \<Longrightarrow> doy \<le> 364 \<Longrightarrow> step_ok doy"
  using months_ok unfolding list_all_iff set_upto by (metis atLeastAtMost_iff)

definition march_date :: "int \<Rightarrow> int \<Rightarrow> int \<times> int \<times> int" where
  "march_date Y doy = (case month_day doy of (m, d) \<Rightarrow> (if m \<le> 2 then Y + 1 else Y, m, d))"

lemma leap_era: "leap (y + era * 400) = leap y"
proof -
  have "(y + era * 400) mod 4 = y mod 4" "(y + era * 400) mod 100 = y mod 100" "(y + era * 400) mod 400 = y mod 400"
    using mod_mult_self2 [of y 4 "era * 100"] mod_mult_self2 [of y 100 "era * 4"] mod_mult_self1 [of y era 400]
    by (simp_all add: algebra_simps)
  then show ?thesis by (simp only: leap_def)
qed

lemma civil_march:
  assumes "z + 719468 = 146097 * era + doe" "0 \<le> doe" "doe < 146097"
    and y: "0 \<le> y" "y < 400" "year_start y \<le> doe" "doe < year_start (y + 1)"
  shows "civil_from_days z = march_date (y + era * 400) (doe - year_start y)"
proof -
  have e: "(z + 719468) div 146097 = era" "(z + 719468) mod 146097 = doe"
    using int_div_pos_eq [OF assms(1-3)] int_mod_pos_eq [OF assms(1-3)] by simp_all
  have yoe: "(doe - doe div 1460 + doe div 36524 - doe div 146096) div 365 = y"
    using year_of [OF y] by (simp add: year_number_def)
  have ys: "365 * y + y div 4 - y div 100 = year_start y"
    using y by (simp add: year_start_def)
  show ?thesis
    by (simp only: civil_from_days_def march_date_def month_day_def e Let_def yoe ys prod.case)
qed

lemma month_day_feb:
  assumes "month_day doy = (2, d)" "0 \<le> doy"
  shows "d = doy - 336"
proof -
  define mp where "mp = (5 * doy + 2) div 153"
  have "0 \<le> mp" unfolding mp_def using assms(2) by (intro pos_imp_zdiv_nonneg_iff [THEN iffD2]) simp_all
  moreover have "(if mp < 10 then mp + 3 else mp - 9) = 2" "d = doy - (153 * mp + 2) div 5 + 1"
    using assms(1) unfolding month_day_def mp_def [symmetric] Let_def by auto
  ultimately have "mp = 11" by (simp split: if_splits)
  with \<open>d = _\<close> show ?thesis by simp
qed

lemma next_march:
  assumes "0 \<le> doy" "doy \<le> 364" "doy = 364 \<longrightarrow> leap (Y + 1)"
  shows "march_date Y (doy + 1) = next_day (march_date Y doy)"
proof -
  obtain m d m' d' where md: "month_day doy = (m, d)" "month_day (doy + 1) = (m', d')" by fastforce
  have ok: "1 \<le> m" "m \<le> 12" "1 \<le> d"
    "if d < days_in 4 m then m' = m \<and> d' = d + 1 else m' = (if m = 12 then 1 else m + 1) \<and> d' = 1"
    using step_okD [OF assms(1,2)] md by (simp_all add: step_ok_def)
  show ?thesis
  proof (cases "m = 2")
    case True
    have d: "d = doy - 336" using month_day_feb md True assms(1) by simp
    then have lt: "d < 29" "d = 28 \<longrightarrow> leap (Y + 1)" using assms by auto
    moreover have "days_in 4 2 = 29" by (simp add: days_in_def leap_def)
    ultimately have "m' = 2 \<and> d' = d + 1" using ok(4) True by simp
    moreover have "d < days_in (Y + 1) 2" using lt by (auto simp: days_in_def)
    ultimately show ?thesis using md True by (simp add: march_date_def next_day_def)
  next
    case False
    then have "days_in y m = days_in 4 m" for y by (simp add: days_in_def)
    then have dm: "days_in (if m \<le> 2 then Y + 1 else Y) m = days_in 4 m" by simp
    show ?thesis
    proof (cases "d < days_in 4 m")
      case True
      with ok(4) dm md show ?thesis by (simp add: march_date_def next_day_def)
    next
      case False
      with ok(4) have "m' = (if m = 12 then 1 else m + 1)" "d' = 1" by simp_all
      with False dm md ok(1,2) \<open>m \<noteq> 2\<close> show ?thesis
        by (auto simp: march_date_def next_day_def)
    qed
  qed
qed

lemma march_values: "month_day 0 = (3, 1)" "month_day 364 = (2, 28)" "month_day 365 = (2, 29)"
  by (simp_all add: month_day_def)

lemma civil_next: "civil_from_days (z + 1) = next_day (civil_from_days z)"
proof -
  define era doe where "era = (z + 719468) div 146097" and "doe = (z + 719468) mod 146097"
  have z: "z + 719468 = 146097 * era + doe" "0 \<le> doe" "doe < 146097"
    by (simp_all add: era_def doe_def)
  obtain y where y: "0 \<le> y" "y < 400" "year_start y \<le> doe" "doe < year_start (y + 1)"
    using year_exists [OF z(2,3)] by blast
  let ?Y = "y + era * 400"
  have civil: "civil_from_days z = march_date ?Y (doe - year_start y)"
    by (rule civil_march [OF z y])
  have len: "year_start (y + 1) - year_start y = (if leap (?Y + 1) then 366 else 365)"
    using year_length [of y] leap_era [of "y + 1" era] by (simp add: algebra_simps)
  have last: "year_start 400 = 146097" by (simp add: year_start_def)
  show ?thesis
  proof (cases "doe + 1 < year_start (y + 1)")
    case True
    have "year_start (y + 1) \<le> 146097"
    proof (cases "y = 399")
      case False
      then show ?thesis using start_divs(6) [of "y + 1"] y by simp
    qed (simp add: last)
    with True have lt: "doe + 1 < 146097" by simp
    have z1: "z + 1 + 719468 = 146097 * era + (doe + 1)" using z(1) by simp
    have "civil_from_days (z + 1) = march_date ?Y (doe + 1 - year_start y)"
      by (rule civil_march [OF z1 _ lt y(1,2) _ True]) (use z y in simp_all)
    also have "\<dots> = march_date ?Y ((doe - year_start y) + 1)" by (simp add: algebra_simps)
    also have "\<dots> = next_day (march_date ?Y (doe - year_start y))"
      by (rule next_march) (use True y len in \<open>auto split: if_splits\<close>)
    finally show ?thesis by (simp add: civil)
  next
    case False
    then have d: "doe + 1 = year_start (y + 1)" using y by simp
    then have doy: "doe - year_start y = (if leap (?Y + 1) then 365 else 364)" using len by (auto split: if_splits)
    have "next_day (civil_from_days z) = (?Y + 1, 3, 1)"
      unfolding civil doy by (simp add: march_date_def march_values next_day_def days_in_def)
    moreover have "civil_from_days (z + 1) = march_date (?Y + 1) 0"
    proof (cases "y = 399")
      case True
      then have z1: "z + 1 + 719468 = 146097 * (era + 1) + 0" using d last z(1) by simp
      have "year_start 0 = 0" "year_start (0 + 1) = 365" by (simp_all add: year_start_def)
      then have "civil_from_days (z + 1) = march_date (0 + (era + 1) * 400) (0 - year_start 0)"
        by (intro civil_march [OF z1]) simp_all
      then show ?thesis using True \<open>year_start 0 = 0\<close> by (simp add: algebra_simps)
    next
      case False
      then have y1: "0 \<le> y + 1" "y + 1 < 400" using y by simp_all
      have z1: "z + 1 + 719468 = 146097 * era + (doe + 1)" using z(1) by simp
      have "doe + 1 < 146097" using start_divs(6) [OF y1] d by simp
      moreover have "doe + 1 < year_start (y + 1 + 1)" using d year_length [of "y + 1"] by (auto split: if_splits)
      ultimately have "civil_from_days (z + 1) = march_date (y + 1 + era * 400) (doe + 1 - year_start (y + 1))"
        using d z(2) y1 by (intro civil_march [OF z1]) simp_all
      then show ?thesis using d by (simp add: algebra_simps)
    qed
    ultimately show ?thesis by (simp add: march_date_def march_values)
  qed
qed

text \<open>
  C24: \<open>civil_from_days\<close> is the Gregorian calendar. Day 0 is 1 January 1970, and the date of the day
  after any day, before or after the epoch, is the next date of the calendar with its leap years.
\<close>
theorem civil_from_days_calendar:
  "civil_from_days 0 = (1970, 1, 1) \<and> civil_from_days (z + 1) = next_day (civil_from_days z)"
proof
  show "civil_from_days 0 = (1970, 1, 1)" by code_simp
qed (rule civil_next)

end
