(* ===== verification/Kernels.thy ===== *)
theory Kernels
  imports Exec
begin

text \<open>
  The rest of \<open>simd.rs\<close>: norms, the variants of the two vector kernels for NEON, and the aggregates of whole
  columns. The executor has its own loops for the aggregates; these are for users of the library. Below one
  block of sixteen numbers the NEON kernels are plain sums; the aggregates are exact until they saturate.
\<close>

section \<open>Norms\<close>

definition norm_f32 :: "f32 list \<Rightarrow> f32" where
  "norm_f32 a = f32_sqrt (dot a a)"

definition f32_positive :: "f32 \<Rightarrow> bool" where
  "f32_positive x \<longleftrightarrow> f64_partial_cmp (f64_of_f32 x) 0 = Some Greater"

definition normalize_f32 :: "f32 list \<Rightarrow> f32 list" where
  "normalize_f32 a =
     (let n = norm_f32 a in
      if f32_positive n then (let inv = f32_div f32_one n in map (\<lambda>x. f32_mul x inv) a) else a)"

section \<open>The kernels for NEON\<close>

text \<open>A register holds four numbers; \<open>vfmaq_f32\<close> rounds the product and the sum once.\<close>

definition lanes :: nat where
  "lanes = 16"

definition f32_fma :: "f32 \<Rightarrow> f32 \<Rightarrow> f32 \<Rightarrow> f32" where
  "f32_fma acc x y = f32_bits (fv_add (f32_val acc) (fv_mul (f32_val x) (f32_val y)))"

definition load4 :: "f32 list \<Rightarrow> nat \<Rightarrow> f32 list" where
  "load4 a i = take 4 (drop i a)"

definition vfma :: "f32 list \<Rightarrow> f32 list \<Rightarrow> f32 list \<Rightarrow> f32 list" where
  "vfma acc x y = map2 (\<lambda>c (a, b). f32_fma c a b) acc (zip x y)"

definition vadd :: "f32 list \<Rightarrow> f32 list \<Rightarrow> f32 list" where
  "vadd x y = map2 f32_add x y"

definition vsub :: "f32 list \<Rightarrow> f32 list \<Rightarrow> f32 list" where
  "vsub x y = map2 f32_sub x y"

text \<open>\<open>vaddvq_f32\<close> adds the four numbers in pairs.\<close>

definition vaddv :: "f32 list \<Rightarrow> f32" where
  "vaddv x = f32_add (f32_add (x ! 0) (x ! 1)) (f32_add (x ! 2) (x ! 3))"

text \<open>
  The main loop over blocks of sixteen, with its four accumulators, and the loop over the rest. Both
  slices have the length \<open>n\<close> of the first; the source does not check it in a release build.
\<close>

function neon_blocks ::
  "(f32 list \<Rightarrow> f32 list \<Rightarrow> f32 list \<Rightarrow> f32 list) \<Rightarrow> f32 list \<Rightarrow> f32 list \<Rightarrow> nat \<Rightarrow> f32 list list \<Rightarrow> f32 list list \<times> nat" where
  "neon_blocks upd a b i acc =
     (if i + lanes \<le> length a
      then neon_blocks upd a b (i + lanes)
        (map (\<lambda>(k, c). upd c (load4 a (i + k * 4)) (load4 b (i + k * 4))) (enumerate 0 acc))
      else (acc, i))"
  by pat_completeness auto
termination
  by (relation "measure (\<lambda>(upd, a, b, i, acc). length a - i)") (auto simp: lanes_def)

declare neon_blocks.simps [simp del]

definition neon_kernel ::
  "(f32 list \<Rightarrow> f32 list \<Rightarrow> f32 list \<Rightarrow> f32 list) \<Rightarrow> (f32 \<Rightarrow> f32 \<Rightarrow> f32) \<Rightarrow> f32 list \<Rightarrow> f32 list \<Rightarrow> f32" where
  "neon_kernel upd term a b =
     (case neon_blocks upd a b 0 (replicate 4 (replicate 4 0)) of (acc, i) \<Rightarrow>
        foldl (\<lambda>s j. f32_add s (term (a ! j) (b ! j)))
          (vaddv (vadd (vadd (acc ! 0) (acc ! 1)) (vadd (acc ! 2) (acc ! 3)))) [i..<length a])"

definition dot_neon :: "f32 list \<Rightarrow> f32 list \<Rightarrow> f32" where
  "dot_neon a b = neon_kernel vfma f32_mul a b"

definition l2_sq_neon :: "f32 list \<Rightarrow> f32 list \<Rightarrow> f32" where
  "l2_sq_neon a b =
     neon_kernel (\<lambda>c x y. let d = vsub x y in vfma c d d) (\<lambda>x y. let d = f32_sub x y in f32_mul d d) a b"

section \<open>Aggregates of columns\<close>

definition sum_i64 :: "i64 list \<Rightarrow> i64" where
  "sum_i64 v = foldl sat_add 0 v"

definition sum_f64 :: "f64 list \<Rightarrow> f64" where
  "sum_f64 v = foldl f64_add (f64_neg 0) v"

definition min_i64 :: "i64 \<Rightarrow> i64 \<Rightarrow> i64" where
  "min_i64 a b = (if sint b < sint a then b else a)"

definition max_i64 :: "i64 \<Rightarrow> i64 \<Rightarrow> i64" where
  "max_i64 a b = (if sint b < sint a then a else b)"

definition min_max_i64 :: "i64 list \<Rightarrow> (i64 \<times> i64) option" where
  "min_max_i64 v =
     (case v of [] \<Rightarrow> None | x # xs \<Rightarrow> Some (foldl (\<lambda>(lo, hi) y. (min_i64 lo y, max_i64 hi y)) (x, x) xs))"

definition min_max_f64 :: "f64 list \<Rightarrow> (f64 \<times> f64) option" where
  "min_max_f64 v =
     (case filter (\<lambda>x. \<not> is_nan64 x) v of
        [] \<Rightarrow> None
      | x # xs \<Rightarrow> Some (foldl (\<lambda>(lo, hi) y. (f64_min lo y, f64_max hi y)) (x, x) xs))"

section \<open>Short vectors\<close>

text \<open>Below sixteen elements the NEON kernels add the products one by one, from plus zero.\<close>

text \<open>
  on vectors of less than sixteen numbers the NEON kernels compute the sum of the rounded products from left to
  right, as the portable kernels do; only the number they start from differs (plus zero here, minus zero there).
\<close>

theorem short_vectors:
  assumes "length a < lanes" and "length b = length a"
  shows "dot_neon a b = foldl f32_add (dot_neon [] []) (map (\<lambda>(x, y). f32_mul x y) (zip a b)) \<and>
    l2_sq_neon a b = foldl f32_add (l2_sq_neon [] []) (map (\<lambda>(x, y). f32_mul (f32_sub x y) (f32_sub x y)) (zip a b))"
proof -
  have z: "neon_blocks upd c d 0 acc = (acc, 0)" if "length c < lanes" for upd c d acc
    using that by (subst neon_blocks.simps) simp
  have "foldl (\<lambda>s j. f32_add s (g (a ! j) (b ! j))) z [0..<length a] = foldl f32_add z (map (\<lambda>(x, y). g x y) (zip a b))" for g z
  proof -
    have "map (\<lambda>(x, y). g x y) (zip a b) = map (\<lambda>j. g (a ! j) (b ! j)) [0..<length a]"
      using assms(2) by (auto intro!: nth_equalityI)
    then show ?thesis by (simp add: foldl_map)
  qed
  then show ?thesis
    using assms(1) z [of "[]"] by (simp add: dot_neon_def l2_sq_neon_def neon_kernel_def z lanes_def Let_def)
qed

section \<open>Sums and extrema\<close>

lemma sint_of_small: "- (2 ^ 63) \<le> k \<Longrightarrow> k < 2 ^ 63 \<Longrightarrow> sint (word_of_int k :: i64) = k"
  by (simp add: sint_uint unsigned_of_int signed_take_bit_take_bit signed_take_bit_int_eq_self)

lemma sint_range: "- (2 ^ 63) \<le> sint (x :: i64)" "sint (x :: i64) < 2 ^ 63"
  using sint_ge [of x] sint_lt [of x] by simp_all

lemma sint_clamp: "sint (clamp_i64 i) = max (- (2 ^ 63)) (min (2 ^ 63 - 1) i)"
  unfolding clamp_i64_def by (rule sint_of_small) auto

lemma sum_nonneg:
  "0 \<le> sint a \<Longrightarrow> \<forall>x \<in> set v. 0 \<le> sint x \<Longrightarrow>
   sint (foldl sat_add a v) = min (2 ^ 63 - 1) (sint a + sum_list (map sint v))"
proof (induction v arbitrary: a)
  case Nil
  then show ?case using sint_range(2) [of a] by simp
next
  case (Cons x v)
  have s: "sint (sat_add a x) = min (2 ^ 63 - 1) (sint a + sint x)" "0 \<le> sint x"
    using Cons.prems by (simp_all add: sat_add_def sint_clamp)
  moreover have "0 \<le> sum_list (map sint v)" using Cons.prems(2) by (intro sum_list_nonneg) auto
  ultimately show ?case using Cons.IH [of "sat_add a x"] Cons.prems by auto
qed

lemma sum_exact:
  "\<forall>k \<le> length v. - (2 ^ 63) \<le> sint a + sum_list (map sint (take k v)) \<and> sint a + sum_list (map sint (take k v)) < 2 ^ 63 \<Longrightarrow>
   sint (foldl sat_add a v) = sint a + sum_list (map sint v)"
proof (induction v arbitrary: a)
  case (Cons x v)
  have "- (2 ^ 63) \<le> sint a + sint x" "sint a + sint x < 2 ^ 63" using Cons.prems [rule_format, of 1] by simp_all
  then have s: "sint (sat_add a x) = sint a + sint x" by (simp add: sat_add_def sint_clamp)
  have "\<forall>k \<le> length v. - (2 ^ 63) \<le> sint (sat_add a x) + sum_list (map sint (take k v)) \<and>
      sint (sat_add a x) + sum_list (map sint (take k v)) < 2 ^ 63"
  proof (intro allI impI)
    fix k assume "k \<le> length v"
    then show "- (2 ^ 63) \<le> sint (sat_add a x) + sum_list (map sint (take k v)) \<and>
        sint (sat_add a x) + sum_list (map sint (take k v)) < 2 ^ 63"
      using Cons.prems [rule_format, of "Suc k"] s by (simp add: add.assoc)
  qed
  from Cons.IH [OF this] s show ?case by simp
qed simp

text \<open>The sums of the first elements, all of them within 64 bits.\<close>

definition sums_fit :: "i64 list \<Rightarrow> bool" where
  "sums_fit v \<longleftrightarrow>
     (\<forall>k \<le> length v. - (2 ^ 63) \<le> sum_list (map sint (take k v)) \<and> sum_list (map sint (take k v)) < 2 ^ 63)"

lemma sum_nonpos:
  "sint a \<le> 0 \<Longrightarrow> \<forall>x \<in> set v. sint x \<le> 0 \<Longrightarrow>
   sint (foldl sat_add a v) = max (- (2 ^ 63)) (sint a + sum_list (map sint v))"
proof (induction v arbitrary: a)
  case Nil
  then show ?case using sint_range(1) [of a] by simp
next
  case (Cons x v)
  have s: "sint (sat_add a x) = max (- (2 ^ 63)) (sint a + sint x)" "sint x \<le> 0"
    using Cons.prems by (simp_all add: sat_add_def sint_clamp)
  moreover have "sum_list (map sint v) \<le> 0" using Cons.prems(2) by (intro sum_list_nonpos) auto
  ultimately show ?case using Cons.IH [of "sat_add a x"] Cons.prems by auto
qed

lemma sum_clamps:
  "sint (foldl sat_add a v) = foldl (\<lambda>s x. max (- (2 ^ 63)) (min (2 ^ 63 - 1) (s + x))) (sint a) (map sint v)"
  by (induction v arbitrary: a) (simp_all add: sat_add_def sint_clamp)

text \<open>
  C35: the sum of a column never wraps, at either end of the 64-bit integers: it is the running sum of the
  numbers as integers, held between the two ends after every addition. So the sum is exact as long as all
  partial sums fit; without negative numbers it is the exact sum or, beyond it, the greatest integer; without
  positive numbers the exact sum or the least. Where signs are mixed and a partial sum does not fit, only the
  first statement holds: \<open>MAX, 1, -5\<close> sums to \<open>MAX - 5\<close>.
\<close>

theorem saturating_sum:
  "sint (sum_i64 v) = foldl (\<lambda>s x. max (- (2 ^ 63)) (min (2 ^ 63 - 1) (s + x))) 0 (map sint v) \<and>
   (sums_fit v \<longrightarrow> sint (sum_i64 v) = sum_list (map sint v)) \<and>
   ((\<forall>x \<in> set v. 0 \<le> sint x) \<longrightarrow> sint (sum_i64 v) = min (2 ^ 63 - 1) (sum_list (map sint v))) \<and>
   ((\<forall>x \<in> set v. sint x \<le> 0) \<longrightarrow> sint (sum_i64 v) = max (- (2 ^ 63)) (sum_list (map sint v)))"
  using sum_clamps [of 0 v] sum_exact [of v 0] sum_nonneg [of 0 v] sum_nonpos [of 0 v]
  by (simp add: sum_i64_def sums_fit_def)

lemma extrema_fold:
  "foldl (\<lambda>(lo, hi) y. (min_i64 lo y, max_i64 hi y)) (lo, hi) xs = (lo', hi') \<Longrightarrow>
   sint lo' = Min (insert (sint lo) (sint ` set xs)) \<and> sint hi' = Max (insert (sint hi) (sint ` set xs))"
proof (induction xs arbitrary: lo hi)
  case (Cons y xs)
  have m: "sint (min_i64 lo y) = min (sint lo) (sint y)" "sint (max_i64 hi y) = max (sint hi) (sint y)"
    by (auto simp: min_i64_def max_i64_def)
  from Cons.IH [of "min_i64 lo y" "max_i64 hi y"] Cons.prems show ?case
    by (cases "set xs = {}") (auto simp: m min.assoc max.assoc)
qed simp

theorem column_extrema:
  assumes "v \<noteq> []"
  shows "\<exists>lo hi. min_max_i64 v = Some (lo, hi) \<and> sint lo = Min (sint ` set v) \<and> sint hi = Max (sint ` set v)"
proof -
  obtain x xs where v: "v = x # xs" using assms by (cases v) auto
  obtain lo hi where f: "foldl (\<lambda>(lo, hi) y. (min_i64 lo y, max_i64 hi y)) (x, x) xs = (lo, hi)" by force
  from extrema_fold [OF f] f v show ?thesis by (simp add: min_max_i64_def)
qed

theorem short_vectors_witness:
  "dot_neon [0x3F800000, 0] [0x40000000, 0] =
     foldl f32_add (dot_neon [] []) (map (\<lambda>(x, y). f32_mul x y) (zip [0x3F800000, 0] [0x40000000, 0])) \<and>
   l2_sq_neon [0x3F800000, 0] [0x40000000, 0] = foldl f32_add (l2_sq_neon [] [])
     (map (\<lambda>(x, y). f32_mul (f32_sub x y) (f32_sub x y)) (zip [0x3F800000, 0] [0x40000000, 0]))"
  by (rule short_vectors) (simp_all add: lanes_def)

theorem saturating_sum_witness:
  "sint (sum_i64 [2 ^ 63 - 1, 5]) = 2 ^ 63 - 1 \<and> sint (sum_i64 [- (2 ^ 63), - 1]) = - (2 ^ 63) \<and>
   sint (sum_i64 [2 ^ 63 - 1, 1, - 5]) = 2 ^ 63 - 6"
  using saturating_sum [of "[2 ^ 63 - 1, 5]"] saturating_sum [of "[- (2 ^ 63), - 1]"] saturating_sum [of "[2 ^ 63 - 1, 1, - 5]"]
  by simp

end
