(* ===== verification/Loader.thy ===== *)
theory Loader
  imports Console Calendar Kernels
begin

text \<open>
  \<open>bin/bench.rs\<close>: the parts between its files and its report. Splitting a file of queries, reading the lines of
  a TSV file into batches, the generator of synthetic rows with its random numbers, and the times of the
  queries; the program around them is in \<open>Report\<close>. The fields of a TSV line are a third front end of the kind
  described by the locale \<open>front_end\<close>.
\<close>

section \<open>Queries of a file\<close>

text \<open>\<open>str::lines\<close>: a carriage return goes only in front of a line feed.\<close>

definition strip_cr :: "rstr \<Rightarrow> rstr" where
  "strip_cr s = (if s \<noteq> [] \<and> code_point (last s) = 13 then butlast s else s)"

fun text_lines_from :: "rstr \<Rightarrow> rstr \<Rightarrow> rstr list" where
  "text_lines_from cur [] = (if cur = [] then [] else [cur])"
| "text_lines_from cur (c # s) =
     (if c = newline then strip_cr cur # text_lines_from [] s else text_lines_from (cur @ [c]) s)"

definition text_lines :: "rstr \<Rightarrow> rstr list" where
  "text_lines s = text_lines_from [] s"

definition split_sql :: "rstr \<Rightarrow> rstr list" where
  "split_sql text =
     (let cleaned = join_with [newline]
        (filter (\<lambda>l. \<not> starts_with (str ''--'') (trim_start_matches is_white l)) (text_lines text))
      in split_loop cleaned False [] [])"

definition short_sql :: "rstr \<Rightarrow> rstr" where
  "short_sql sql =
     (let one = join_with [uchar_of 32] (split_whitespace sql) in
      if 110 < length one then take 110 one @ [uchar_of 8230] else one)"

section \<open>Fields of a TSV line\<close>

fun unescape_tsv :: "rstr \<Rightarrow> rstr" where
  "unescape_tsv [] = []"
| "unescape_tsv (c # s) =
     (if c \<noteq> backslash then c # unescape_tsv s
      else case s of
        [] \<Rightarrow> [backslash]
      | d # r \<Rightarrow>
          (let n = code_point d in
           (if n = 116 then uchar_of 9
            else if n = 110 then newline
            else if n = 114 then uchar_of 13
            else if n = 48 then uchar_of 0
            else d) # unescape_tsv r))"

definition parse_field :: "rstr \<Rightarrow> data_type \<Rightarrow> rvalue res" where
  "parse_field f ty =
     (case ty of
        DT_I64 \<Rightarrow> Inr (V_I64 (if f = [] then 0 else case parse_i64 f of Some i \<Rightarrow> i | None \<Rightarrow> 0))
      | DT_F64 \<Rightarrow> Inr (V_F64 (case parse_f64 f of Some d \<Rightarrow> d | None \<Rightarrow> 0))
      | DT_Bool \<Rightarrow> Inr (V_Bool (f = str ''1'' \<or> eq_ignore_ascii_case f (str ''true'')))
      | DT_Str \<Rightarrow> Inr (V_Str (unescape_tsv f))
      | DT_Vector _ \<Rightarrow> Inl (Load No_vector_column))"

section \<open>Loading\<close>

definition batch_size :: nat where
  "batch_size = 65536"

definition hits :: rstr where
  "hits = str ''hits''"

definition fields_of_line :: "rstr \<Rightarrow> rstr" where
  "fields_of_line line = trim_end_matches (\<lambda>c. code_point c = 13) (trim_end_matches (\<lambda>c. c = newline) line)"

text \<open>One line, already without its line ending: its values, or the error with the number of the line.\<close>

definition line_values :: "data_type list \<Rightarrow> nat \<Rightarrow> rstr \<Rightarrow> rvalue list res" where
  "line_values types loaded row =
     (let cols = Like.split_on (uchar_of 9) row in
      if length cols \<noteq> length types then Inl (Load (Field_count (loaded + 1) (length cols) (length types)))
      else map_res (\<lambda>(f, ty). parse_field f ty) (zip cols types))"

text \<open>
  The loop of \<open>load_tsv\<close> over the lines as \<open>read_line\<close> gives them, with the batch under way and the rows
  inserted so far, and the insert of the last batch.
\<close>

fun load_lines ::
  "(rstr \<Rightarrow> rstr) \<Rightarrow> (rstr set \<Rightarrow> rstr list) \<Rightarrow> data_type list \<Rightarrow> nat option \<Rightarrow> rstr list \<Rightarrow> database \<Rightarrow>
   rvalue list list \<Rightarrow> nat \<Rightarrow> database \<times> nat res" where
  "load_lines lower order types cap [] db batch loaded =
     (if batch = [] then (db, Inr loaded)
      else case insert_rows lower order db hits batch of
        (db', Inl e) \<Rightarrow> (db', Inl e)
      | (db', Inr n) \<Rightarrow> (db', Inr (loaded + n)))"
| "load_lines lower order types cap (line # rest) db batch loaded =
     (if fields_of_line line = [] then load_lines lower order types cap rest db batch loaded
      else case line_values types loaded (fields_of_line line) of
        Inl e \<Rightarrow> (db, Inl e)
      | Inr vs \<Rightarrow>
          if length (batch @ [vs]) < batch_size then load_lines lower order types cap rest db (batch @ [vs]) loaded
          else case insert_rows lower order db hits (batch @ [vs]) of
            (db', Inl e) \<Rightarrow> (db', Inl e)
          | (db', Inr n) \<Rightarrow>
              if (case cap of None \<Rightarrow> False | Some l \<Rightarrow> l \<le> loaded + n) then (db', Inr (loaded + n))
              else load_lines lower order types cap rest db' [] (loaded + n))"

definition load_tsv ::
  "(rstr \<Rightarrow> rstr) \<Rightarrow> (rstr set \<Rightarrow> rstr list) \<Rightarrow> database \<Rightarrow> rstr list \<Rightarrow> nat option \<Rightarrow> database \<times> nat res" where
  "load_tsv lower order db lines cap =
     (case table_of lower (tables db) hits of
        None \<Rightarrow> (db, Inl (Load No_hits))
      | Some t \<Rightarrow> load_lines lower order (map fty (sfields (tschema t))) cap lines db [] 0)"

section \<open>Random numbers\<close>

text \<open>\<open>Lcg\<close>: the state is the word, \<open>next\<close> returns it without its lowest bit.\<close>

definition lcg_state :: "u64 \<Rightarrow> u64" where
  "lcg_state s = s * 6364136223846793005 + 1442695040888963407"

definition lcg_next :: "u64 \<Rightarrow> u64 \<times> u64" where
  "lcg_next s = (let s' = lcg_state s in (drop_bit 1 s', s'))"

definition next_below :: "u64 \<Rightarrow> u64 \<Rightarrow> u64 \<times> u64" where
  "next_below n s = (if n = 0 then (0, s) else case lcg_next s of (x, s') \<Rightarrow> (x mod n, s'))"

section \<open>Generated rows\<close>

definition hosts :: "rstr list" where
  "hosts = map str [''google.com'', ''yandex.ru'', ''vk.com'', ''example.org'', ''shop.test'']"

definition phrases :: "rstr list" where
  "phrases =
     [uni [1082, 1091, 1087, 1080, 1090, 1100, 32, 1095, 1072, 1081],
      uni [1087, 1086, 1075, 1086, 1076, 1072, 32, 1095, 1080, 1090, 1072],
      str ''google translate'',
      uni [1088, 1077, 1094, 1077, 1087, 1090, 32, 1082, 1072, 1082, 1072, 1086], []]"

record visit_data =
  v_user :: i64
  v_host :: rstr
  v_path :: u64
  v_phrase :: rstr
  v_counter :: i64
  v_time :: i64

definition gen_visit :: "nat \<Rightarrow> u64 \<Rightarrow> visit_data \<times> u64" where
  "gen_visit i s0 =
     (let (user, s1) = next_below 1000000 s0;
          (h, s2) = next_below (word_of_nat (length hosts)) s1;
          (path, s3) = next_below 10000 s2;
          (ph, s4) = next_below (word_of_nat (length phrases)) s3;
          (counter, s5) = (if i mod 3 = 0 then (62, s4) else next_below 1000 s4);
          (t, s6) = next_below (30 * 86400) s5
      in (\<lparr>v_user = user, v_host = hosts ! unat h, v_path = path, v_phrase = phrases ! unat ph,
           v_counter = counter, v_time = 1372636800 + t\<rparr>, s6))"

definition show_u64 :: "u64 \<Rightarrow> rstr" where
  "show_u64 x = dec_digits (unat x)"

definition gen_bool :: "u64 \<Rightarrow> u64 \<Rightarrow> rvalue \<times> u64" where
  "gen_bool n s = (case next_below n s of (x, s') \<Rightarrow> (V_I64 (if x = 0 then 1 else 0), s'))"

text \<open>Integer division truncates.\<close>

definition quot_i64 :: "i64 \<Rightarrow> i64 \<Rightarrow> i64" where
  "quot_i64 a b = word_of_int (sgn (sint a) * sgn (sint b) * (\<bar>sint a\<bar> div \<bar>sint b\<bar>))"

text \<open>The match on the name and the type of a column.\<close>

definition gen_cell :: "visit_data \<Rightarrow> field \<Rightarrow> u64 \<Rightarrow> rvalue \<times> u64" where
  "gen_cell v f s =
     (let named = (\<lambda>ns. fname f \<in> set (map str ns)) in
      if named [''WatchID''] then (case lcg_next s of (x, s') \<Rightarrow> (V_I64 x, s'))
      else if named [''UserID''] then (V_I64 (v_user v), s)
      else if named [''CounterID''] then (V_I64 (v_counter v), s)
      else if named [''EventTime'', ''ClientEventTime'', ''LocalEventTime''] then (V_I64 (v_time v), s)
      else if named [''EventDate''] then (V_I64 (quot_i64 (v_time v) 86400), s)
      else if named [''URL'', ''OriginalURL''] then (V_Str (str ''http://'' @ v_host v @ str ''/page/'' @ show_u64 (v_path v)), s)
      else if named [''Referer''] then (V_Str (str ''http://'' @ v_host v @ str ''/''), s)
      else if named [''Title''] then
        (V_Str (uni [1057, 1090, 1088, 1072, 1085, 1080, 1094, 1072, 32] @ show_u64 (v_path v) @ uni [32, 8212, 32] @ v_host v), s)
      else if named [''SearchPhrase''] then (V_Str (v_phrase v), s)
      else if named [''URLHash''] then (V_I64 (v_path v * 1000003), s)
      else if named [''RefererHash''] then (V_I64 3594120000172545465, s)
      else if named [''TraficSourceID''] then (case next_below 8 s of (x, s') \<Rightarrow> (V_I64 (x - 1), s'))
      else if named [''ResolutionWidth''] then (case next_below 1200 s of (x, s') \<Rightarrow> (V_I64 (800 + x), s'))
      else if named [''IsRefresh'', ''DontCountHits'', ''IsDownload'', ''IsArtifical''] then gen_bool 20 s
      else if named [''IsLink''] then gen_bool 3 s
      else case fty f of
        DT_I64 \<Rightarrow> (case next_below 100 s of (x, s') \<Rightarrow> (V_I64 x, s'))
      | DT_F64 \<Rightarrow> (case next_below 100 s of (x, s') \<Rightarrow> (V_F64 (f64_of_int (uint x)), s'))
      | DT_Bool \<Rightarrow> (case next_below 2 s of (x, s') \<Rightarrow> (V_Bool (x = 1), s'))
      | DT_Str \<Rightarrow> (V_Str [], s)
      | DT_Vector d \<Rightarrow> (V_Vector (replicate (unat d) 0), s))"

fun gen_cells :: "visit_data \<Rightarrow> field list \<Rightarrow> u64 \<Rightarrow> rvalue list \<times> u64" where
  "gen_cells v [] s = ([], s)"
| "gen_cells v (f # fs) s =
     (case gen_cell v f s of (x, s') \<Rightarrow> case gen_cells v fs s' of (xs, s'') \<Rightarrow> (x # xs, s''))"

definition gen_row :: "field list \<Rightarrow> nat \<Rightarrow> u64 \<Rightarrow> rvalue list \<times> u64" where
  "gen_row cols i s = (case gen_visit i s of (v, s') \<Rightarrow> gen_cells v cols s')"

text \<open>The loop of \<open>generate\<close> for the row numbers that are left.\<close>

fun gen_loop ::
  "(rstr \<Rightarrow> rstr) \<Rightarrow> (rstr set \<Rightarrow> rstr list) \<Rightarrow> field list \<Rightarrow> nat list \<Rightarrow> u64 \<Rightarrow> database \<Rightarrow>
   rvalue list list \<Rightarrow> nat \<Rightarrow> database \<times> nat res" where
  "gen_loop lower order cols [] s db batch loaded =
     (if batch = [] then (db, Inr loaded)
      else case insert_rows lower order db hits batch of
        (db', Inl e) \<Rightarrow> (db', Inl e)
      | (db', Inr n) \<Rightarrow> (db', Inr (loaded + n)))"
| "gen_loop lower order cols (i # ids) s db batch loaded =
     (case gen_row cols i s of (row, s') \<Rightarrow>
        if length (batch @ [row]) < batch_size then gen_loop lower order cols ids s' db (batch @ [row]) loaded
        else case insert_rows lower order db hits (batch @ [row]) of
          (db', Inl e) \<Rightarrow> (db', Inl e)
        | (db', Inr n) \<Rightarrow> gen_loop lower order cols ids s' db' [] (loaded + n))"

definition generate ::
  "(rstr \<Rightarrow> rstr) \<Rightarrow> (rstr set \<Rightarrow> rstr list) \<Rightarrow> database \<Rightarrow> nat \<Rightarrow> database \<times> nat res" where
  "generate lower order db n =
     (case table_of lower (tables db) hits of
        None \<Rightarrow> (db, Inl (Load No_hits))
      | Some t \<Rightarrow> gen_loop lower order (sfields (tschema t)) [0..<n] 0x9E3779B97F4A7C15 db [] 0)"


section \<open>Measuring\<close>

text \<open>\<open>--only\<close>: the numbers that parse; the others are dropped.\<close>

definition parse_only :: "rstr \<Rightarrow> usize list" where
  "parse_only s = List.map_filter (\<lambda>x. parse_usize (trim x)) (Like.split_on (uchar_of 44) s)"

text \<open>The runs of one query, each an error or the number of rows and the time: the first error ends them.\<close>

fun measure_runs :: "(err + nat \<times> f64) list \<Rightarrow> f64 list \<Rightarrow> nat \<Rightarrow> f64 list \<times> nat \<times> err option" where
  "measure_runs [] tms out_rows = (tms, out_rows, None)"
| "measure_runs (r # rs) tms out_rows =
     (case r of
        Inl e \<Rightarrow> (tms, out_rows, Some e)
      | Inr (n, ms) \<Rightarrow> measure_runs rs (tms @ [ms]) n)"

text \<open>The times are sorted by \<open>f64::total_cmp\<close>; the upper middle one is reported.\<close>

definition median :: "f64 list \<Rightarrow> f64 option" where
  "median tms =
     (let ts = sort_key total_key tms in if length ts div 2 < length ts then Some (ts ! (length ts div 2)) else None)"

record query_report =
  q_number :: nat
  q_sql :: rstr
  q_median :: "f64 option"
  q_rows :: nat
  q_error :: "err option"

definition query_line :: "(rstr \<Rightarrow> (err + nat \<times> f64) list) \<Rightarrow> nat \<times> rstr \<Rightarrow> query_report" where
  "query_line runs q =
     (case measure_runs (runs (snd q)) [] 0 of (tms, out_rows, e) \<Rightarrow>
        \<lparr>q_number = fst q, q_sql = snd q, q_median = median tms, q_rows = out_rows, q_error = e\<rparr>)"

definition bench_queries :: "(rstr \<Rightarrow> (err + nat \<times> f64) list) \<Rightarrow> usize list option \<Rightarrow> rstr list \<Rightarrow> query_report list" where
  "bench_queries runs chosen sqls =
     map (query_line runs)
       (filter (\<lambda>(n, _). case chosen of None \<Rightarrow> True | Some ns \<Rightarrow> word_of_nat n \<in> set ns) (enumerate 1 sqls))"

text \<open>The head of the report: how many queries have a time, and how many do not.\<close>

definition report_counts :: "query_report list \<Rightarrow> nat \<times> nat" where
  "report_counts rs =
     (let done_n = length (filter (\<lambda>r. q_median r \<noteq> None) rs) in (done_n, length rs - done_n))"

lemma measure_times:
  "measure_runs rs tms k = (ts, n, e) \<Longrightarrow>
   ts = tms @ map (snd \<circ> projr) (takeWhile is_ok rs) \<and> (e = None \<longleftrightarrow> (\<forall>r \<in> set rs. is_ok r))"
  by (induction rs tms k rule: measure_runs.induct) (auto split: sum.splits prod.splits)

lemma median_some: "median ts = None \<longleftrightarrow> ts = []"
  by (cases ts) (auto simp: median_def Let_def)

lemma median_mem: "median ts = Some m \<Longrightarrow> m \<in> set ts"
  by (auto simp: median_def Let_def split: if_splits) (metis nth_mem length_sort set_sort)

text \<open>
  A query counts as executed as soon as its first run succeeds: an error in a later run is not among the
  failures of the report.
\<close>

theorem executed_after_first_run:
  assumes "runs sql = Inr x # rs"
  shows "q_median (query_line runs (n, sql)) \<noteq> None"
proof -
  obtain ts k e where m: "measure_runs (runs sql) [] 0 = (ts, k, e)" by (metis prod_cases3)
  from measure_times [OF m] assms have "ts \<noteq> []" by simp
  with m show ?thesis by (simp add: query_line_def median_some)
qed

section \<open>Text survives\<close>

text \<open>How the dataset writes a text field.\<close>

definition escape_char :: "uchar \<Rightarrow> rstr" where
  "escape_char c =
     (let n = code_point c in
      if n = 92 then [backslash, backslash]
      else if n = 9 then [backslash, uchar_of 116]
      else if n = 10 then [backslash, uchar_of 110]
      else if n = 13 then [backslash, uchar_of 114]
      else if n = 0 then [backslash, uchar_of 48]
      else [c])"

definition escape_tsv :: "rstr \<Rightarrow> rstr" where
  "escape_tsv s = concat (map escape_char s)"

lemma uchar_eq:
  assumes "n < 55296"
  shows "c = uchar_of n \<longleftrightarrow> code_point c = n" "uchar_of n = c \<longleftrightarrow> code_point c = n"
  using assms by (auto simp flip: code_point_inject)

lemma plain_char: "c \<noteq> backslash \<Longrightarrow> unescape_tsv (c # s) = c # unescape_tsv s"
  by simp
lemma escaped_pair: "unescape_tsv (backslash # d # s) =
  (let n = code_point d in
           (if n = 116 then uchar_of 9
            else if n = 110 then newline
            else if n = 114 then uchar_of 13
            else if n = 48 then uchar_of 0
            else d)) # unescape_tsv s"
  by (simp add: Let_def)
lemma unescape_char: "unescape_tsv (escape_char c @ s) = c # unescape_tsv s"
proof -
  have "c \<noteq> backslash" if "code_point c \<noteq> 92" using that by auto
  then show ?thesis
    by (auto simp: escape_char_def Let_def escaped_pair plain_char uchar_eq simp del: unescape_tsv.simps)
qed

lemma unescape_escape: "unescape_tsv (escape_tsv s) = s"
  by (induction s) (simp_all add: escape_tsv_def unescape_char)

lemma escaped_chars: "c \<in> set (escape_tsv s) \<Longrightarrow> code_point c \<notin> {9, 10, 13}"
proof -
  have "\<forall>d \<in> set (escape_char x). code_point d \<notin> {9, 10, 13}" for x
    by (simp add: escape_char_def Let_def)
  then show "c \<in> set (escape_tsv s) \<Longrightarrow> code_point c \<notin> {9, 10, 13}" by (auto simp: escape_tsv_def)
qed

lemma split_on_none: "x \<notin> set s \<Longrightarrow> Like.split_on x s = [s]"
  by (induction s) auto

lemma split_on_sep: "x \<notin> set s \<Longrightarrow> Like.split_on x (s @ x # r) = s # Like.split_on x r"
  by (induction s) auto

lemma split_on_join: "ss \<noteq> [] \<Longrightarrow> \<forall>s \<in> set ss. x \<notin> set s \<Longrightarrow> Like.split_on x (join_with [x] ss) = ss"
  by (induction "[x]" ss rule: join_with.induct) (auto simp: split_on_none split_on_sep)

lemma set_join: "set (join_with sep ss) \<subseteq> set sep \<union> (\<Union>s \<in> set ss. set s)"
  by (induction sep ss rule: join_with.induct) auto

lemma trim_end_none: "\<forall>c \<in> set s. \<not> P c \<Longrightarrow> trim_end_matches P s = s"
  by (cases s rule: rev_cases) (simp_all add: trim_end_matches_def)

text \<open>
  text fields written with the escapes of the dataset come back unchanged: a line of any number of them, joined
  by tabs and ended by a line feed, is split at the tabs and unescaped to the strings it was made of.
\<close>

theorem text_fields_roundtrip:
  assumes "ss \<noteq> []"
  shows "line_values (replicate (length ss) DT_Str) n
      (fields_of_line (join_with [uchar_of 9] (map escape_tsv ss) @ [newline])) = Inr (map V_Str ss)"
proof -
  let ?row = "join_with [uchar_of 9] (map escape_tsv ss)"
  have row: "\<forall>c \<in> set ?row. code_point c \<notin> {10, 13}"
    using set_join [of "[uchar_of 9]" "map escape_tsv ss"] escaped_chars by fastforce
  then have "trim_end_matches (\<lambda>c. c = newline) ?row = ?row" "trim_end_matches (\<lambda>c. code_point c = 13) ?row = ?row"
    by (auto intro!: trim_end_none)
  then have f: "fields_of_line (?row @ [newline]) = ?row"
    by (simp add: fields_of_line_def) (simp add: trim_end_matches_def)
  have tabs: "\<forall>s \<in> set (map escape_tsv ss). uchar_of 9 \<notin> set s" using escaped_chars by fastforce
  have "Like.split_on (uchar_of 9) ?row = map escape_tsv ss"
    using split_on_join [OF _ tabs] assms by simp
  moreover have "map_res (\<lambda>(f, ty). parse_field f ty) (zip (map escape_tsv ss) (replicate (length ss) DT_Str)) = Inr (map V_Str ss)"
    by (simp add: map_res_Inr list_all2_conv_all_nth parse_field_def unescape_escape)
  ultimately show ?thesis by (simp add: line_values_def f Let_def)
qed

theorem text_fields_roundtrip_witness:
  "line_values (replicate 2 DT_Str) 5
      (fields_of_line (join_with [uchar_of 9] (map escape_tsv [str ''a'', [uchar_of 9, backslash]]) @ [newline])) =
    Inr (map V_Str [str ''a'', [uchar_of 9, backslash]])"
  using text_fields_roundtrip [of "[str ''a'', [uchar_of 9, backslash]]" 5] by (simp add: numeral_2_eq_2)

section \<open>Every line becomes a row\<close>

interpretation tsv: front_end parse_field
  by unfold_locales (auto simp: parse_field_def typed_def split: data_type.splits)

definition data_rows :: "rstr list \<Rightarrow> rstr list" where
  "data_rows lines = filter (\<lambda>r. r \<noteq> []) (map fields_of_line lines)"

lemma line_values_number: "line_values types n row = Inr vs \<Longrightarrow> line_values types m row = Inr vs"
  by (simp add: line_values_def Let_def split: if_splits)

lemma line_values_ok:
  assumes "line_values (map fty (sfields s)) n row = Inr vs"
  shows "row_ok s vs \<and> stored_row s vs = vs"
proof -
  have len: "length (Like.split_on (uchar_of 9) row) = length (sfields s)"
    and "map_res (\<lambda>(f, ty). parse_field f ty) (zip (Like.split_on (uchar_of 9) row) (map fty (sfields s))) = Inr vs"
    using assms by (auto simp: line_values_def Let_def split: if_splits)
  then have "list_all2 (\<lambda>f v. typed (fty f) v) (sfields s) vs"
    by (auto simp: map_res_Inr list_all2_conv_all_nth intro: tsv.conv_typed)
  then show ?thesis
    by (auto simp: row_ok_def stored_row_def list_all2_conv_all_nth typed_cell intro!: nth_equalityI)
qed

text \<open>The database as the loader creates it: writable, without a limit and without a log.\<close>

definition plain_db :: "database \<Rightarrow> bool" where
  "plain_db db \<longleftrightarrow> \<not> read_only db \<and> memory_limit db = 0 \<and> store db = None"

definition with_hits :: "(rstr \<Rightarrow> rstr) \<Rightarrow> database \<Rightarrow> table \<Rightarrow> database" where
  "with_hits lower db t = db\<lparr>tables := (tables db)(key lower hits \<mapsto> t)\<rparr>"

lemma with_hits_twice: "with_hits lower (with_hits lower db t) t' = with_hits lower db t'"
  by (simp add: with_hits_def)

lemma with_hits_same: "table_of lower (tables db) hits = Some t \<Longrightarrow> with_hits lower db t = db"
  by (simp add: with_hits_def table_of_def fun_upd_idem)

lemma with_hits_simps [simp]:
  "table_of lower (tables (with_hits lower db t)) hits = Some t" "plain_db (with_hits lower db t) = plain_db db"
  by (simp_all add: with_hits_def table_of_def plain_db_def)

lemma batch_stored:
  assumes t: "table_of lower (tables db) hits = Some t" and rep: "table_rep t old" and db: "plain_db db"
    and rows: "\<forall>r \<in> set rs. row_ok (tschema t) r \<and> stored_row (tschema t) r = r" and fit: "batch_fits t (rs @ later)"
  obtains t' where "insert_rows lower order db hits rs = (with_hits lower db t', Inr (length rs))"
    and "table_rep t' (old @ rs)" and "tschema t' = tschema t" and "batch_fits t' later"
proof -
  have ok: "\<forall>r \<in> set rs. row_ok (tschema t) r" and same: "map (stored_row (tschema t)) rs = rs"
    using rows by (auto intro: map_idI)
  have fits: "batch_fits t rs" "batch_fits (fst (insert_rows_loop t rs)) later"
    using fit batch_fits_append [OF ok rep] by auto
  obtain t' where t': "insert_rows_loop t rs = (t', Inr ())" "table_rep t' (old @ rs)" "tschema t' = tschema t"
    using insert_rows_loop_ok [OF rep ok fits(1)] same by auto
  have "insert_rows lower order db hits rs = (with_hits lower db t', Inr (length rs))"
    using t db t'(1)
    by (simp add: insert_rows_def deny_if_read_only_def insert_inner_def log_record_def plain_db_def insert_many_def with_hits_def)
  with t' fits(2) that show thesis by simp
qed

lemma load_lines_all:
  assumes "table_of lower (tables db) hits = Some t" and "table_rep t old" and "plain_db db"
    and "map_res (line_values (map fty (sfields (tschema t))) 0) (data_rows lines) = Inr rs"
    and "\<forall>r \<in> set batch. row_ok (tschema t) r \<and> stored_row (tschema t) r = r" and "batch_fits t (batch @ rs)"
  shows "\<exists>t'. load_lines lower order (map fty (sfields (tschema t))) None lines db batch loaded =
      (with_hits lower db t', Inr (loaded + length batch + length rs)) \<and> table_rep t' (old @ batch @ rs)"
  using assms
proof (induction lines arbitrary: db t old batch loaded rs)
  case Nil
  then have "rs = []" by (simp add: data_rows_def)
  show ?case
  proof (cases "batch = []")
    case True
    with Nil \<open>rs = []\<close> with_hits_same [OF Nil.prems(1)] show ?thesis by (auto intro!: exI [of _ t])
  next
    case False
    from batch_stored [OF Nil.prems(1-3,5,6), of order] obtain t' where
      "insert_rows lower order db hits batch = (with_hits lower db t', Inr (length batch))" "table_rep t' (old @ batch)" by metis
    with False \<open>rs = []\<close> show ?thesis by auto
  qed
next
  case (Cons line lines)
  show ?case
  proof (cases "fields_of_line line = []")
    case True
    with Cons show ?thesis by (simp add: data_rows_def)
  next
    case False
    let ?ty = "map fty (sfields (tschema t))"
    from False Cons.prems(4) obtain vs rs' where vs: "line_values ?ty 0 (fields_of_line line) = Inr vs"
      and rs': "map_res (line_values ?ty 0) (data_rows lines) = Inr rs'" and rs: "rs = vs # rs'"
      by (auto simp: data_rows_def and_then_Inr)
    have v: "line_values ?ty loaded (fields_of_line line) = Inr vs" by (rule line_values_number [OF vs])
    let ?batch = "batch @ [vs]"
    have ok: "\<forall>r \<in> set ?batch. row_ok (tschema t) r \<and> stored_row (tschema t) r = r"
      using Cons.prems(5) line_values_ok [OF vs] by auto
    have fit: "batch_fits t (?batch @ rs')" using Cons.prems(6) rs by simp
    show ?thesis
    proof (cases "length ?batch < batch_size")
      case True
      with Cons.IH [OF Cons.prems(1-3) rs' ok fit, of loaded] False v rs show ?thesis by simp
    next
      case full: False
      from batch_stored [OF Cons.prems(1-3) ok fit, of order] obtain t1 where
        t1: "insert_rows lower order db hits ?batch = (with_hits lower db t1, Inr (length ?batch))"
        "table_rep t1 (old @ ?batch)" "tschema t1 = tschema t" "batch_fits t1 rs'" by metis
      have "\<exists>t'. load_lines lower order ?ty None lines (with_hits lower db t1) [] (loaded + length ?batch) =
          (with_hits lower (with_hits lower db t1) t', Inr (loaded + length ?batch + length ([] :: rvalue list list) + length rs')) \<and>
        table_rep t' ((old @ ?batch) @ [] @ rs')"
        using Cons.IH [of "with_hits lower db t1" t1 "old @ ?batch" rs' "[]" "loaded + length ?batch"] t1(2,3,4) rs' Cons.prems(3)
        by simp
      with full False v t1(1) rs show ?thesis by (auto simp: with_hits_twice)
    qed
  qed
qed

lemma load_lines_cap:
  "length batch + length lines < batch_size \<Longrightarrow>
   load_lines lower order types cap lines db batch loaded = load_lines lower order types None lines db batch loaded"
  by (induction lines arbitrary: batch) (auto split: sum.splits)

text \<open>
  C36: a file of well-formed lines is loaded completely and in order: the table holds its old rows and then
  one row for every line that is not empty, and the number reported is the number of these lines. A cap on
  the number of rows does not change this for a file of less than one batch, whatever the cap.
\<close>

theorem tsv_loads_every_line:
  assumes t: "table_of lower (tables db) hits = Some t" and "table_rep t old" and "plain_db db"
    and "map_res (line_values (map fty (sfields (tschema t))) 0) (data_rows lines) = Inr rs" and "batch_fits t rs"
    and cap: "cap = None \<or> length lines < batch_size"
  shows "\<exists>t'. load_tsv lower order db lines cap = (with_hits lower db t', Inr (length rs)) \<and> table_rep t' (old @ rs)"
proof -
  have "load_lines lower order types cap lines db [] 0 = load_lines lower order types None lines db [] 0" for types
    using cap load_lines_cap [of "[]" lines lower order types cap db 0] by auto
  with load_lines_all [OF assms(1-4), of "[]" order 0] assms(5) t show ?thesis by (simp add: load_tsv_def)
qed

definition two_lines :: "rstr list" where
  "two_lines = [str ''7'' @ [uchar_of 9] @ str ''ab'' @ [newline], [newline], str ''7'' @ [uchar_of 9] @ str ''ab'']"

definition hits_db :: database where
  "hits_db = db_new\<lparr>tables := [hits \<mapsto> demo_table]\<rparr>"

text \<open>Two rows are loaded under a cap of one.\<close>

theorem tsv_loads_every_line_witness:
  "\<exists>t'. load_tsv id demo_order hits_db two_lines (Some 1) = (with_hits id hits_db t', Inr 2) \<and>
    table_rep t' ([] @ [demo_row, demo_row])"
proof -
  have "map_res (line_values (map fty (sfields (tschema demo_table))) 0) (data_rows two_lines) = Inr [demo_row, demo_row]"
    "batch_fits demo_table [demo_row, demo_row]"
    by code_simp+
  moreover have "table_of id (tables hits_db) hits = Some demo_table" "plain_db hits_db"
    by (simp_all add: hits_db_def table_of_def key_def plain_db_def db_new_def)
  moreover have "table_rep demo_table []" using table_rep_new [OF demo_table_new] by simp
  moreover have "Some 1 = (None :: nat option) \<or> length two_lines < batch_size" by (simp add: two_lines_def batch_size_def)
  ultimately show ?thesis
    using tsv_loads_every_line [of id hits_db demo_table "[]" two_lines "[demo_row, demo_row]" "Some 1" demo_order]
    by (simp add: numeral_2_eq_2)
qed

text \<open>
  The number in the message of a bad line counts the rows of finished batches only: within the first batch
  it is always one.
\<close>

lemma load_lines_bad:
  assumes "line_values types loaded (fields_of_line bad) = Inl e" and "fields_of_line bad \<noteq> []"
  shows "map_res (line_values types 0) (data_rows lines) = Inr rs \<Longrightarrow> length batch + length lines < batch_size \<Longrightarrow>
    load_lines lower order types cap (lines @ bad # rest) db batch loaded = (db, Inl e)"
proof (induction lines arbitrary: batch rs)
  case Nil
  then show ?case using assms by simp
next
  case (Cons line lines)
  show ?case
  proof (cases "fields_of_line line = []")
    case True
    with Cons show ?thesis by (simp add: data_rows_def)
  next
    case False
    obtain vs rs' where vs: "line_values types 0 (fields_of_line line) = Inr vs"
      and "map_res (line_values types 0) (data_rows lines) = Inr rs'"
      using False Cons.prems(1) by (auto simp: data_rows_def and_then_Inr)
    from Cons.IH [OF this(2), of "batch @ [vs]"] Cons.prems(2)
    have "load_lines lower order types cap (lines @ bad # rest) db (batch @ [vs]) loaded = (db, Inl e)" by simp
    moreover have "length (batch @ [vs]) < batch_size" using Cons.prems(2) by simp
    ultimately show ?thesis using False line_values_number [OF vs, of loaded]
      by (simp only: append_Cons load_lines.simps if_False if_True sum.case)
  qed
qed

theorem bad_line_reported_first:
  assumes "table_of lower (tables db) hits = Some t"
    and "map_res (line_values (map fty (sfields (tschema t))) 0) (data_rows lines) = Inr rs" and "length lines < batch_size"
    and "fields_of_line bad \<noteq> []" and "length (Like.split_on (uchar_of 9) (fields_of_line bad)) = n" "n \<noteq> length (sfields (tschema t))"
  shows "load_tsv lower order db (lines @ bad # rest) cap = (db, Inl (Load (Field_count 1 n (length (sfields (tschema t))))))"
proof -
  have "line_values (map fty (sfields (tschema t))) 0 (fields_of_line bad) = Inl (Load (Field_count 1 n (length (sfields (tschema t)))))"
    using assms(5,6) by (simp add: line_values_def)
  from load_lines_bad [OF this assms(4,2)] assms(1,3) show ?thesis by (simp add: load_tsv_def)
qed

section \<open>What is generated\<close>

lemma next_below_less: "next_below n s = (x, s') \<Longrightarrow> n \<noteq> 0 \<Longrightarrow> unat x < unat n"
  by (auto simp: next_below_def lcg_next_def Let_def unat_mod_distrib unat_gt_0)

lemma sint_small:
  assumes "unat (x :: i64) < 2 ^ 63"
  shows "sint x = int (unat x)"
proof -
  have "int (unat x) < int (2 ^ 63)" using assms by (simp only: of_nat_less_iff)
  then have "uint x < 2 ^ 63" by simp
  then have "signed_take_bit 63 (uint x) = uint x" by (intro signed_take_bit_int_eq_self) (simp_all add: order_trans [OF _ uint_ge_0])
  then show ?thesis by (simp add: sint_uint)
qed

lemma sint_plus:
  assumes "unat (x :: i64) + unat y < 2 ^ 63"
  shows "sint (x + y) = int (unat x) + int (unat y)"
proof -
  have "unat (x + y) = unat x + unat y" using assms by (simp add: unat_word_ariths)
  with assms sint_small [of "x + y"] show ?thesis by simp
qed

definition july_2013 :: "int \<Rightarrow> bool" where
  "july_2013 day \<longleftrightarrow> (case civil_from_days day of (y, m, d) \<Rightarrow> y = 2013 \<and> m = 7 \<and> 1 \<le> d \<and> d \<le> 31)"

lemma july_dates: "k < 31 \<Longrightarrow> civil_from_days (15887 + int k) = (2013, 7, 1 + int k)"
proof (induction k)
  case 0
  show ?case by code_simp
next
  case (Suc k)
  then show ?case using civil_next [of "15887 + int k"] by (simp add: next_day_def days_in_def ac_simps)
qed

lemma july_days: "0 \<le> d \<Longrightarrow> d < 30 \<Longrightarrow> july_2013 (15887 + d)"
  using july_dates [of "nat d"] by (simp add: july_2013_def)

lemma visit_bounds:
  assumes "gen_visit i s = (v, s')"
  shows "unat (v_user v) < 1000000 \<and> unat (v_path v) < 10000 \<and> unat (v_counter v) < 1000 \<and>
    (i mod 3 = 0 \<longrightarrow> v_counter v = 62) \<and> (\<exists>t. v_time v = 1372636800 + t \<and> unat t < 2592000)"
proof -
  obtain user s1 where 1: "next_below 1000000 s = (user, s1)" by force
  obtain h s2 where 2: "next_below (word_of_nat (length hosts)) s1 = (h, s2)" by force
  obtain path s3 where 3: "next_below 10000 s2 = (path, s3)" by force
  obtain ph s4 where 4: "next_below (word_of_nat (length phrases)) s3 = (ph, s4)" by force
  obtain c s5 where 5: "(if i mod 3 = 0 then (62, s4) else next_below 1000 s4) = (c, s5)" by force
  obtain t s6 where 6: "next_below (30 * 86400) s5 = (t, s6)" by force
  have v: "v = \<lparr>v_user = user, v_host = hosts ! unat h, v_path = path, v_phrase = phrases ! unat ph,
      v_counter = c, v_time = 1372636800 + t\<rparr>"
    using assms unfolding gen_visit_def Let_def 1 prod.case 2 3 4 5 6 by simp
  have "unat user < 1000000" "unat path < 10000" "unat t < 2592000"
    using next_below_less [OF 1] next_below_less [OF 3] next_below_less [OF 6] by simp_all
  moreover have "unat c < 1000 \<and> (i mod 3 = 0 \<longrightarrow> c = 62)"
    using 5 next_below_less [of 1000 s4 c s5] by (cases "i mod 3 = 0") auto
  ultimately show ?thesis unfolding v by simp
qed

text \<open>What may stand in a column of row \<open>i\<close>, by the name of the column.\<close>

definition int_between :: "int \<Rightarrow> int \<Rightarrow> rvalue \<Rightarrow> bool" where
  "int_between lo hi x = (case x of V_I64 n \<Rightarrow> lo \<le> sint n \<and> sint n < hi | _ \<Rightarrow> False)"

definition plausible :: "nat \<Rightarrow> field \<Rightarrow> rvalue \<Rightarrow> bool" where
  "plausible i f x \<longleftrightarrow>
     (fname f = str ''WatchID'' \<longrightarrow> int_between 0 (2 ^ 63) x) \<and>
     (fname f = str ''UserID'' \<longrightarrow> int_between 0 1000000 x) \<and>
     (fname f = str ''CounterID'' \<longrightarrow> int_between 0 1000 x \<and> (i mod 3 = 0 \<longrightarrow> x = V_I64 62)) \<and>
     (fname f = str ''EventTime'' \<longrightarrow> int_between 1372636800 1375228800 x) \<and>
     (fname f = str ''EventDate'' \<longrightarrow> (\<exists>d. x = V_I64 d \<and> july_2013 (sint d))) \<and>
     (fname f = str ''URLHash'' \<longrightarrow> int_between 0 10000030000 x) \<and>
     (fname f = str ''TraficSourceID'' \<longrightarrow> int_between (- 1) 7 x) \<and>
     (fname f = str ''ResolutionWidth'' \<longrightarrow> int_between 800 2000 x) \<and>
     (fname f = str ''IsLink'' \<longrightarrow> int_between 0 2 x)"

lemma time_bounds:
  assumes "v_time v = 1372636800 + t" and "unat t < 2592000"
  shows "int_between 1372636800 1375228800 (V_I64 (v_time v))" and "july_2013 (sint (quot_i64 (v_time v) 86400))"
proof -
  have s: "sint (v_time v) = 1372636800 + int (unat t)" unfolding assms(1) using sint_plus [of 1372636800 t] assms(2) by simp
  moreover have "int (unat t) < 2592000" using assms(2) by linarith
  ultimately show "int_between 1372636800 1375228800 (V_I64 (v_time v))" unfolding int_between_def by simp
  have pos: "0 < 1372636800 + int (unat t)" "0 \<le> 1372636800 + int (unat t)" by linarith+
  have q: "(1372636800 + int (unat t)) div 86400 = 15887 + int (unat t) div 86400" by simp
  have small: "0 \<le> int (unat t) div 86400" "int (unat t) div 86400 < 30" using assms(2) by linarith+
  have "quot_i64 (v_time v) 86400 = word_of_int (15887 + int (unat t) div 86400)"
    unfolding quot_i64_def s using q by (simp only: abs_of_nonneg sgn_pos pos) simp
  moreover have "sint (word_of_int (15887 + int (unat t) div 86400) :: i64) = 15887 + int (unat t) div 86400"
    by (rule sint_of_small) (use small in simp_all)
  ultimately show "july_2013 (sint (quot_i64 (v_time v) 86400))" using july_days [OF small] by simp
qed

lemma small_between:
  assumes "unat y < k" and "k \<le> 2 ^ 63"
  shows "int_between 0 (int k) (V_I64 y)"
proof -
  have "unat y < 2 ^ 63" using assms by simp
  then have "sint y = int (unat y)" by (rule sint_small)
  then show ?thesis unfolding int_between_def using assms by (simp only: rvalue.case) linarith
qed

lemma cell_plausible:
  assumes "gen_visit i s0 = (v, s1)" and c: "gen_cell v f s = (x, s')"
  shows "plausible i f x"
proof -
  from visit_bounds [OF assms(1)] obtain t where v: "unat (v_user v) < 1000000" "unat (v_path v) < 10000"
    "unat (v_counter v) < 1000" "i mod 3 = 0 \<longrightarrow> v_counter v = 62" "v_time v = 1372636800 + t" "unat t < 2592000" by auto
  note small = small_between
  show ?thesis
    unfolding plausible_def
  proof (intro conjI impI)
    assume "fname f = str ''WatchID''"
    with c have "x = V_I64 (drop_bit 1 (lcg_state s))" by (auto simp: gen_cell_def lcg_next_def Let_def)
    moreover have "unat (drop_bit 1 (lcg_state s)) < 2 ^ 63"
      using unat_u64_less [of "lcg_state s"] by (simp add: drop_bit_eq_div unat_div_distrib)
    ultimately show "int_between 0 (2 ^ 63) x" using small [of "drop_bit 1 (lcg_state s)" "2 ^ 63"] by simp
  next
    assume "fname f = str ''UserID''"
    with c small [OF v(1)] show "int_between 0 1000000 x" by (simp add: gen_cell_def str_inject Let_def)
  next
    assume "fname f = str ''CounterID''"
    then have x: "x = V_I64 (v_counter v)" using c by (simp add: gen_cell_def str_inject Let_def)
    with small [OF v(3)] show "int_between 0 1000 x" by simp
    show "x = V_I64 62" if "i mod 3 = 0" using x v(4) that by simp
  next
    assume "fname f = str ''EventTime''"
    with c time_bounds(1) [OF v(5,6)] show "int_between 1372636800 1375228800 x" by (simp add: gen_cell_def str_inject Let_def)
  next
    assume "fname f = str ''EventDate''"
    with c time_bounds(2) [OF v(5,6)] show "\<exists>d. x = V_I64 d \<and> july_2013 (sint d)" by (auto simp: gen_cell_def str_inject Let_def)
  next
    assume "fname f = str ''URLHash''"
    then have x: "x = V_I64 (v_path v * 1000003)" using c by (simp add: gen_cell_def str_inject Let_def)
    have "unat (v_path v * 1000003) = unat (v_path v) * 1000003" using v(2) by (simp add: unat_word_ariths)
    then have "unat (v_path v * 1000003) < 10000030000" using v(2) by simp
    from small [OF this] x show "int_between 0 10000030000 x" by simp
  next
    assume "fname f = str ''TraficSourceID''"
    then obtain y s'' where y: "next_below 8 s = (y, s'')" "x = V_I64 (y - 1)"
      using c by (auto simp: gen_cell_def str_inject Let_def split: prod.splits)
    then have "unat y < 8" using next_below_less [OF y(1)] by simp
    then have "unat y \<in> set [0..<8]" by simp
    moreover have "\<forall>k \<in> set [0..<8]. int_between (- 1) 7 (V_I64 (word_of_nat k - 1))" by code_simp
    ultimately have "int_between (- 1) 7 (V_I64 (word_of_nat (unat y) - 1))" by blast
    with y(2) show "int_between (- 1) 7 x" by simp
  next
    assume "fname f = str ''ResolutionWidth''"
    then obtain y s'' where y: "next_below 1200 s = (y, s'')" "x = V_I64 (800 + y)"
      using c by (auto simp: gen_cell_def str_inject Let_def split: prod.splits)
    then have "unat y < 1200" using next_below_less [OF y(1)] by simp
    then have "int (unat y) < 1200" by linarith
    moreover have "sint (800 + y) = 800 + int (unat y)" using \<open>unat y < 1200\<close> sint_plus [of 800 y] by simp
    ultimately show "int_between 800 2000 x" using y(2) by (simp add: int_between_def)
  next
    assume "fname f = str ''IsLink''"
    with c show "int_between 0 2 x"
      by (auto simp: gen_cell_def gen_bool_def str_inject Let_def int_between_def split: prod.splits)
  qed
qed

lemma cells_plausible:
  assumes "gen_visit i s0 = (v, s1)"
  shows "gen_cells v cols s = (row, s') \<Longrightarrow> list_all2 (plausible i) cols row"
  by (induction cols arbitrary: s row s') (auto split: prod.splits intro: cell_plausible [OF assms])

text \<open>
  the generator stays within the ranges its report relies on: identifiers are not negative, every third
  row has counter 62, event times and days lie in July 2013 of the Gregorian calendar, widths between 800
  and 1999.
\<close>

theorem generated_rows_plausible:
  "list_all2 (plausible i) cols (fst (gen_row cols i s))"
proof -
  obtain v s1 where v: "gen_visit i s = (v, s1)" by force
  obtain row s' where "gen_cells v cols s1 = (row, s')" by force
  with cells_plausible [OF v this] v show ?thesis by (simp add: gen_row_def)
qed

end
