(* ===== verification/Report.thy ===== *)
theory Report
  imports Loader Samples
begin

text \<open>
  \<open>bin/bench.rs\<close> as a program: the schema is executed, the table loaded or generated, every chosen query run and
  timed, the report written. Files are texts, the measured times are arguments.
\<close>

section \<open>Loading\<close>

record bench_args =
  b_tsv :: "rstr option"
  b_gen :: "nat option"
  b_rows :: "nat option"
  b_schema :: rstr
  b_queries :: rstr
  b_runs :: nat
  b_out :: "rstr option"
  b_only :: "rstr option"

text \<open>The lines as \<open>read_line\<close> gives them, each with its line feed.\<close>

fun read_lines_from :: "rstr \<Rightarrow> rstr \<Rightarrow> rstr list" where
  "read_lines_from cur [] = (if cur = [] then [] else [cur])"
| "read_lines_from cur (c # s) =
     (if c = newline then (cur @ [c]) # read_lines_from [] s else read_lines_from (cur @ [c]) s)"

definition read_lines :: "rstr \<Rightarrow> rstr list" where
  "read_lines s = read_lines_from [] s"

definition read_file :: "(rstr \<Rightarrow> rstr option) \<Rightarrow> string \<Rightarrow> rstr \<Rightarrow> rstr res" where
  "read_file files what path = with_context what (ok_or (files path) (Client (Unreadable_file path)))"

fun run_schema :: "engine \<Rightarrow> rstr list \<Rightarrow> database \<Rightarrow> database \<times> unit res" where
  "run_schema eng [] db = (db, Inr ())"
| "run_schema eng (stmt # rest) db =
     (case run_sql eng db stmt of
        (db', Inl e) \<Rightarrow> (db', Inl (Context ''schema'' e))
      | (db', Inr _) \<Rightarrow> run_schema eng rest db')"

text \<open>The file of lines is opened after the table has been found.\<close>

definition load_source :: "engine \<Rightarrow> (rstr \<Rightarrow> rstr option) \<Rightarrow> bench_args \<Rightarrow> database \<Rightarrow> database \<times> nat res" where
  "load_source eng files args db =
     (case b_tsv args of
        Some path \<Rightarrow>
          if table_of (lower_of eng) (tables db) hits = None then (db, Inl (Load No_hits))
          else
            (case read_file files ''opening'' path of
               Inl e \<Rightarrow> (db, Inl e)
             | Inr t \<Rightarrow> load_tsv (lower_of eng) (order_of eng) db (read_lines t) (b_rows args))
      | None \<Rightarrow>
          (case b_gen args of
             Some n \<Rightarrow> generate (lower_of eng) (order_of eng) db (case b_rows args of Some k \<Rightarrow> k | None \<Rightarrow> n)
           | None \<Rightarrow> (db, Inl (Load No_source))))"

definition hits_bytes :: "engine \<Rightarrow> database \<Rightarrow> nat" where
  "hits_bytes eng db =
     (case table_of (lower_of eng) (tables db) hits of Some t \<Rightarrow> table_bytes_used t | None \<Rightarrow> 0)"

section \<open>Running the queries\<close>

text \<open>The runs of one query, one for each time in the list, up to the first that fails.\<close>

fun timed_runs :: "engine \<Rightarrow> rstr \<Rightarrow> f64 list \<Rightarrow> database \<Rightarrow> database \<times> (err + nat \<times> f64) list" where
  "timed_runs eng sql [] db = (db, [])"
| "timed_runs eng sql (ms # rest) db =
     (case run_sql eng db sql of
        (db', Inl e) \<Rightarrow> (db', [Inl e])
      | (db', Inr r) \<Rightarrow> (case timed_runs eng sql rest db' of (db'', rs) \<Rightarrow> (db'', Inr (length (qrows r), ms) # rs)))"

definition chosen_queries :: "bench_args \<Rightarrow> rstr list \<Rightarrow> (nat \<times> rstr) list" where
  "chosen_queries args sqls =
     filter (\<lambda>(n, _). case map_option parse_only (b_only args) of None \<Rightarrow> True | Some ns \<Rightarrow> word_of_nat n \<in> set ns)
       (enumerate 1 sqls)"

text \<open>\<open>clock n\<close> are the times of the runs of query \<open>n\<close>.\<close>

fun bench_loop :: "engine \<Rightarrow> nat \<Rightarrow> (nat \<Rightarrow> nat \<Rightarrow> f64) \<Rightarrow> (nat \<times> rstr) list \<Rightarrow> database \<Rightarrow> database \<times> query_report list" where
  "bench_loop eng runs clock [] db = (db, [])"
| "bench_loop eng runs clock ((n, sql) # rest) db =
     (case timed_runs eng sql (map (clock n) [0..<runs]) db of
        (db', rs) \<Rightarrow>
          (case bench_loop eng runs clock rest db' of
             (db'', reports) \<Rightarrow> (db'', query_line (\<lambda>_. rs) (n, sql) # reports)))"

section \<open>The report\<close>

definition f64_of_nat :: "nat \<Rightarrow> f64" where
  "f64_of_nat n = f64_of_int (int n)"

text \<open>The first line of the message of an error.\<close>

definition status_text :: "(err \<Rightarrow> rstr) \<Rightarrow> query_report \<Rightarrow> rstr" where
  "status_text msg r =
     (case q_error r of
        None \<Rightarrow> str ''ok''
      | Some e \<Rightarrow> (case text_lines (msg e) of l # _ \<Rightarrow> l | [] \<Rightarrow> uni [1086, 1096, 1080, 1073, 1082, 1072]))"

definition report_row :: "(err \<Rightarrow> rstr) \<Rightarrow> query_report \<Rightarrow> rstr" where
  "report_row msg r =
     str ''| '' @ dec_digits (q_number r) @ str '' | '' @
     (case q_median r of
        Some m \<Rightarrow> show_fixed 1 m
      | None \<Rightarrow> uchar_of 8212 # str '' ('' @ status_text msg r @ str '')'') @
     str '' | '' @ dec_digits (q_rows r) @ str '' | `'' @ short_sql (q_sql r) @ str ''` |''"

definition report_head :: "query_report list \<Rightarrow> nat \<Rightarrow> nat \<Rightarrow> f64 \<Rightarrow> nat \<Rightarrow> rstr list" where
  "report_head rows loaded bytes secs runs =
     (let ok = List.map_filter q_median rows; total = sum_f64 ok; failed = length rows - length ok in
      [str ''# ClickBench '' @ uni [1085, 1072] @ str '' veldb'',
       [],
       str ''- '' @ uni [1089, 1090, 1088, 1086, 1082] @ str '': **'' @ dec_digits loaded @ str ''**'',
       str ''- '' @ uni [1074, 32, 1087, 1072, 1084, 1103, 1090, 1080] @ str '': **'' @ show_fixed 2 (f64_div (f64_of_nat
         bytes) (f64_of_nat (2 ^ 30))) @ str '' '' @ uni [1043, 1080, 1041] @ str ''** ('' @
         show_fixed 0 (if 0 < loaded then f64_div (f64_of_nat bytes) (f64_of_nat loaded) else 0) @ str '' '' @ uni [1073,
         1072, 1081, 1090] @ str ''/'' @ uni [1089, 1090, 1088, 1086, 1082, 1091] @ str '')'',
       str ''- '' @ uni [1079, 1072, 1075, 1088, 1091, 1079, 1082, 1072] @ str '': **'' @ show_fixed 1 secs @ str '' '' @
         uni [1089] @ str ''** ('' @
         show_fixed 0 (f64_div (f64_div (f64_of_nat loaded) secs) (f64_of_nat 1000)) @ str '' '' @ uni [1090, 1099, 1089] @
         str ''. '' @ uni [1089, 1090, 1088, 1086, 1082] @ str ''/'' @ uni [1089] @ str '')'',
       str ''- '' @ uni [1087, 1088, 1086, 1075, 1086, 1085, 1086, 1074, 32, 1085, 1072, 32, 1079, 1072, 1087, 1088, 1086,
         1089] @ str '': '' @ dec_digits runs @ str '', '' @ uni [1074, 32, 1090, 1072, 1073, 1083, 1080, 1094,
         1077, 32, 1084, 1077, 1076, 1080, 1072, 1085, 1072],
       str ''- '' @ uni [1074, 1099, 1087, 1086, 1083, 1085, 1077, 1085, 1086] @ str '': **'' @ dec_digits (length ok) @
         str ''/'' @ dec_digits (length rows) @ str ''**, '' @ uni [1089, 1091, 1084, 1084, 1072, 1088, 1085, 1086]
         @ str '' **'' @
         show_fixed 1 (f64_div total (f64_of_nat 1000)) @ str '' '' @ uni [1089] @ str ''**'',
       []] @
      (if 0 < failed then [dec_digits failed @ str '' '' @ uni [1079, 1072, 1087, 1088, 1086, 1089] @ str ''('' @ uni [1086, 1074] @ str
         '') '' @ uni [1085, 1077, 32, 1074, 1099, 1087, 1086, 1083, 1085, 1080, 1083,
         1080, 1089, 1100, 32, 8212, 32, 1086, 1085, 1080, 32, 1087, 1077, 1088, 1077,
         1095, 1080, 1089, 1083, 1077, 1085, 1099, 32, 1085, 1080, 1078, 1077, 32, 1089,
         1086, 32, 1089, 1090, 1072, 1090, 1091, 1089, 1086, 1084] @ str ''.'', []] else []) @
      [str ''| # | '' @ uni [1084, 1089] @ str '' | '' @ uni [1089, 1090, 1088, 1086, 1082] @ str '' | '' @ uni [1079,
         1072, 1087, 1088, 1086, 1089] @ str '' |'', str ''|---:|---:|---:|:---|''])"

definition render_report :: "(err \<Rightarrow> rstr) \<Rightarrow> query_report list \<Rightarrow> nat \<Rightarrow> nat \<Rightarrow> f64 \<Rightarrow> nat \<Rightarrow> rstr" where
  "render_report msg rows loaded bytes secs runs =
     concat (map (\<lambda>l. l @ [newline]) (report_head rows loaded bytes secs runs @ map (report_row msg) rows))"

section \<open>The program\<close>

text \<open>The result is the report and the file it goes to; without one it is printed.\<close>

definition bench_main ::
  "engine \<Rightarrow> (err \<Rightarrow> rstr) \<Rightarrow> (rstr \<Rightarrow> rstr option) \<Rightarrow> (nat \<Rightarrow> nat \<Rightarrow> f64) \<Rightarrow> f64 \<Rightarrow> bench_args \<Rightarrow>
   database \<times> (rstr \<times> rstr option) res" where
  "bench_main eng msg files clock secs args =
     (case read_file files ''reading the schema'' (b_schema args) of
        Inl e \<Rightarrow> (db_new, Inl e)
      | Inr schema_text \<Rightarrow>
          (case run_schema eng (split_sql schema_text) db_new of
             (db1, Inl e) \<Rightarrow> (db1, Inl e)
           | (db1, Inr _) \<Rightarrow>
               (case load_source eng files args db1 of
                  (db2, Inl e) \<Rightarrow> (db2, Inl e)
                | (db2, Inr loaded) \<Rightarrow>
                    (case read_file files ''reading the queries'' (b_queries args) of
                       Inl e \<Rightarrow> (db2, Inl e)
                     | Inr queries_text \<Rightarrow>
                         (case bench_loop eng (b_runs args) clock (chosen_queries args (split_sql queries_text)) db2 of
                            (db3, reports) \<Rightarrow>
                              (db3, Inr (render_report msg reports loaded (hits_bytes eng db2) secs (b_runs args), b_out args)))))))"

section \<open>The lines of the report\<close>

lemma text_lines_plain: "newline \<notin> set l \<Longrightarrow> text_lines_from cur (l @ newline # s) = strip_cr (cur @ l) # text_lines_from [] s"
  by (induction l arbitrary: cur) auto

lemma strip_cr_last: "l \<noteq> [] \<Longrightarrow> code_point (last l) \<noteq> 13 \<Longrightarrow> strip_cr l = l"
  by (simp add: strip_cr_def)

lemma text_lines_all:
  "\<forall>l \<in> set ls. newline \<notin> set l \<and> (l \<noteq> [] \<longrightarrow> code_point (last l) \<noteq> 13) \<Longrightarrow>
   text_lines (concat (map (\<lambda>l. l @ [newline]) ls)) = ls"
  by (induction ls) (auto simp: text_lines_def text_lines_plain strip_cr_def)

lemma digits_no_newline: "newline \<notin> set (dec_digits n)"
proof (induction n rule: dec_digits.induct)
  case (1 n)
  have "newline \<noteq> uchar_of (48 + k)" if "k < 10" for k using that by (simp flip: code_point_inject)
  with 1 show ?case by (subst dec_digits.simps) auto
qed

lemma str_no_newline: "CHR 0x0A \<notin> set s \<Longrightarrow> newline \<notin> set (str s)"
proof
  assume no: "CHR 0x0A \<notin> set s" and "newline \<in> set (str s)"
  then obtain c where c: "c \<in> set s" "newline = uchar_of (of_char c)" by (auto simp: str_def)
  then have "of_char c = (10 :: nat)" by (simp flip: code_point_inject)
  then have "c = char_of (10 :: nat)" by (metis char_of_char)
  with c(1) no show False by (simp add: char_of_def bit_simps)
qed

lemma uni_no_newline: "\<forall>k \<in> set ks. k < 55296 \<and> k \<noteq> 10 \<Longrightarrow> newline \<notin> set (uni ks)"
  by (auto simp: uni_def simp flip: code_point_inject)

lemma newline_consts:
  "newline \<noteq> uchar_of 46" "newline \<noteq> uchar_of 48" "newline \<noteq> uchar_of 32" "newline \<noteq> uchar_of 8212" "newline \<noteq> uchar_of 8230"
  by (simp_all flip: code_point_inject)

lemma fixed_no_newline: "newline \<notin> set (show_fixed d x)"
proof -
  have "newline \<notin> set (fixed_digits d c)" for c
    using digits_no_newline newline_consts(1,2) by (auto simp: fixed_digits_def Let_def)
  then show ?thesis by (simp add: show_fixed_def str_no_newline split: fval.split)
qed

lemma words_no_white: "\<forall>w \<in> set (split_whitespace s). \<forall>c \<in> set w. \<not> is_white c"
proof (induction s)
  case (Cons c s)
  define ws where "ws = split_whitespace s"
  have "split_whitespace (c # s) =
      (if is_white c then ws
       else case s of [] \<Rightarrow> [[c]]
        | d # _ \<Rightarrow> if is_white d then [c] # ws else case ws of [] \<Rightarrow> [[c]] | w # r \<Rightarrow> (c # w) # r)"
    unfolding ws_def by (rule split_whitespace.simps(2))
  moreover have "\<forall>w \<in> set ws. \<forall>c \<in> set w. \<not> is_white c" using Cons by (simp add: ws_def)
  ultimately show ?case by (cases s; cases ws) (simp_all del: split_whitespace.simps)
qed simp

lemma newline_white: "is_white newline"
  by code_simp

lemma short_no_newline: "newline \<notin> set (short_sql sql)"
proof -
  have "newline \<notin> set w" if "w \<in> set (split_whitespace sql)" for w
    using that words_no_white [of sql] newline_white by blast
  then have "newline \<notin> set (join_with [uchar_of 32] (split_whitespace sql))"
    using set_join [of "[uchar_of 32]" "split_whitespace sql"] newline_consts(3) by fastforce
  then show ?thesis using newline_consts(5) by (auto simp: short_sql_def Let_def dest: in_set_takeD)
qed

lemma lines_no_newline: "l \<in> set (text_lines_from cur s) \<Longrightarrow> newline \<notin> set cur \<Longrightarrow> newline \<notin> set l"
  by (induction cur s rule: text_lines_from.induct)
    (auto simp: strip_cr_def dest: in_set_butlastD split: if_splits)

lemma status_no_newline: "newline \<notin> set (status_text msg r)"
proof (cases "q_error r")
  case None
  then show ?thesis by (simp add: status_text_def str_no_newline)
next
  case (Some e)
  show ?thesis
  proof (cases "text_lines (msg e)")
    case Nil
    with Some show ?thesis by (simp add: status_text_def uni_no_newline)
  next
    case (Cons l ls)
    then have "l \<in> set (text_lines_from [] (msg e))" by (simp add: text_lines_def)
    from lines_no_newline [OF this] Some Cons show ?thesis by (simp add: status_text_def)
  qed
qed

lemma row_no_newline: "newline \<notin> set (report_row msg r)"
  by (simp add: report_row_def digits_no_newline fixed_no_newline status_no_newline short_no_newline str_no_newline
      newline_consts split: option.split)

lemma head_no_newline: "l \<in> set (report_head rows loaded bytes secs runs) \<Longrightarrow> newline \<notin> set l"
  by (auto simp: report_head_def Let_def digits_no_newline fixed_no_newline str_no_newline uni_no_newline split: if_splits)

definition ends_plain :: "rstr \<Rightarrow> bool" where
  "ends_plain l \<longleftrightarrow> (l \<noteq> [] \<longrightarrow> code_point (last l) \<noteq> 13)"

text \<open>The last characters: a carriage return at the end of a line would be lost.\<close>

lemma str_last: "s \<noteq> [] \<Longrightarrow> code_point (last (xs @ str s)) = of_char (last s)"
  by (simp add: str_def last_map)


lemma row_plain: "ends_plain (report_row msg r)"
  using str_last [of "'' |''"]
  by (simp add: ends_plain_def report_row_def str_def)

lemma ends_plain_str: "ends_plain (str s) \<longleftrightarrow> (s \<noteq> [] \<longrightarrow> (of_char (last s) :: nat) \<noteq> 13)"
  using str_last [of s "[]"] by (cases "s = []") (simp_all add: ends_plain_def str_def)

lemma ends_plain_uni: "(ks \<noteq> [] \<longrightarrow> last ks < 55296 \<and> last ks \<noteq> 13) \<Longrightarrow> ends_plain (uni ks)"
  by (cases "ks = []") (simp_all add: ends_plain_def uni_def last_map)

lemma ends_plain_append: "ends_plain (xs @ ys) \<longleftrightarrow> (if ys = [] then ends_plain xs else ends_plain ys)"
  by (auto simp: ends_plain_def)

lemma ends_plain_digits: "ends_plain (dec_digits n)"
proof -
  have "n mod 10 < 10" by simp
  then have "code_point (uchar_of (48 + n mod 10)) \<noteq> 13" by (subst code_point_uchar_of) linarith+
  then show ?thesis by (subst dec_digits.simps) (simp add: ends_plain_def)
qed

lemma str_Nil: "str s = [] \<longleftrightarrow> s = []"
  by (simp add: str_def)

lemma head_plain: "l \<in> set (report_head rows loaded bytes secs runs) \<Longrightarrow> ends_plain l"
  by (auto simp: report_head_def Let_def ends_plain_append ends_plain_str ends_plain_uni ends_plain_digits str_Nil split: if_splits)
   (simp_all add: ends_plain_def)

lemma bench_loop_queries: "map (\<lambda>r. (q_number r, q_sql r)) (snd (bench_loop eng runs clock qs db)) = qs"
  by (induction eng runs clock qs db rule: bench_loop.induct) (auto simp: query_line_def split: prod.splits)

text \<open>
  C39: the report, read line by line, is its head followed by exactly one line for each query that was chosen, with
  its number and in its order: no query is left out, and no query, status or figure breaks a line.
\<close>

theorem report_line_per_query:
  "let reports = snd (bench_loop eng runs clock qs db) in
   text_lines (render_report msg reports loaded bytes secs runs) =
     report_head reports loaded bytes secs runs @ map (report_row msg) reports \<and>
   map (\<lambda>r. (q_number r, q_sql r)) reports = qs"
proof -
  have "text_lines (render_report msg rows loaded bytes secs runs) =
      report_head rows loaded bytes secs runs @ map (report_row msg) rows" for rows
    unfolding render_report_def
    by (rule text_lines_all)
      (use head_no_newline head_plain row_no_newline row_plain in \<open>auto simp: ends_plain_def\<close>)
  then show ?thesis by (simp add: Let_def bench_loop_queries)
qed

section \<open>The figure of a query\<close>

lemma sorted_below:
  assumes "sorted (map f xs)" and "i < length xs"
  shows "length (filter (\<lambda>x. f x < f (xs ! i)) xs) \<le> i" and "length (filter (\<lambda>x. f (xs ! i) < f x) xs) \<le> length xs - Suc i"
proof -
  have low: "\<not> f x < f (xs ! i)" if "x \<in> set (drop i xs)" for x
    using that assms by (auto simp: in_set_conv_nth sorted_iff_nth_mono not_less)
  have high: "\<not> f (xs ! i) < f x" if "x \<in> set (take (Suc i) xs)" for x
    using that assms by (auto simp: in_set_conv_nth sorted_iff_nth_mono not_less)
  have "filter (\<lambda>x. f x < f (xs ! i)) xs = filter (\<lambda>x. f x < f (xs ! i)) (take i xs @ drop i xs)" by simp
  also have "\<dots> = filter (\<lambda>x. f x < f (xs ! i)) (take i xs)" using low by (simp only: filter_append) simp
  finally show "length (filter (\<lambda>x. f x < f (xs ! i)) xs) \<le> i"
    using length_filter_le [of "\<lambda>x. f x < f (xs ! i)" "take i xs"] by simp
  have "filter (\<lambda>x. f (xs ! i) < f x) xs = filter (\<lambda>x. f (xs ! i) < f x) (take (Suc i) xs @ drop (Suc i) xs)" by simp
  also have "\<dots> = filter (\<lambda>x. f (xs ! i) < f x) (drop (Suc i) xs)" using high by (simp only: filter_append) simp
  finally show "length (filter (\<lambda>x. f (xs ! i) < f x) xs) \<le> length xs - Suc i"
    using length_filter_le [of "\<lambda>x. f (xs ! i) < f x" "drop (Suc i) xs"] by simp
qed

lemma length_filter_sort: "length (filter P (sort_key f xs)) = length (filter P xs)"
  by (metis mset_filter mset_sort size_mset)

lemma timed_runs_times:
  "timed_runs eng sql ms db = (db', rs) \<Longrightarrow>
   map (snd \<circ> projr) (takeWhile is_ok rs) = take (length (takeWhile is_ok rs)) ms \<and>
   (length (takeWhile is_ok rs) = length ms \<longleftrightarrow> (\<forall>r \<in> set rs. is_ok r))"
proof (induction ms arbitrary: db db' rs)
  case (Cons m ms)
  obtain db1 q where q: "run_sql eng db sql = (db1, q)" by fastforce
  obtain db2 rs2 where r: "timed_runs eng sql ms db1 = (db2, rs2)" by fastforce
  from Cons.IH [OF r] Cons.prems q r show ?case by (auto simp: is_ok_def split: sum.splits)
qed simp

text \<open>
  C40: the figure of a query in the report is the time of one of its successful runs, and it is their median: at
  most half of them were faster, fewer than half slower. A query without a figure had no successful run.
\<close>

theorem reported_median:
  "let rs = snd (timed_runs eng sql ms db); ts = take (length (takeWhile is_ok rs)) ms in
    (case q_median (query_line (\<lambda>_. rs) (n, sql)) of
       None \<Rightarrow> ts = []
     | Some m \<Rightarrow> m \<in> set ts \<and> 2 * length (filter (\<lambda>t. total_key t < total_key m) ts) \<le> length ts \<and>
         2 * length (filter (\<lambda>t. total_key m < total_key t) ts) < length ts)"
proof -
  obtain db' rs where run: "timed_runs eng sql ms db = (db', rs)" by fastforce
  let ?ts = "take (length (takeWhile is_ok rs)) ms"
  obtain ts k e where m: "measure_runs rs [] 0 = (ts, k, e)" by (metis prod_cases3)
  have ts: "ts = ?ts" using measure_times [OF m] timed_runs_times [OF run] by simp
  have q: "q_median (query_line (\<lambda>_. rs) (n, sql)) = median ?ts" using m ts by (simp add: query_line_def)
  show ?thesis
  proof (cases "median ?ts")
    case None
    with q run show ?thesis by (simp add: median_some Let_def)
  next
    case (Some x)
    let ?s = "sort_key total_key ?ts" and ?i = "length ?ts div 2"
    from Some have i: "?i < length ?s" "x = ?s ! ?i" by (simp_all add: median_def Let_def split: if_splits)
    have "length (filter (\<lambda>t. total_key t < total_key x) ?ts) \<le> ?i"
      "length (filter (\<lambda>t. total_key x < total_key t) ?ts) \<le> length ?ts - Suc ?i"
      using sorted_below [of total_key ?s ?i] i by (simp_all only: length_filter_sort length_sort sorted_sort_key)
    moreover have "?i < length ?ts" using i(1) by simp
    ultimately have "2 * length (filter (\<lambda>t. total_key t < total_key x) ?ts) \<le> length ?ts"
      "2 * length (filter (\<lambda>t. total_key x < total_key t) ?ts) < length ?ts" by linarith+
    with q run Some median_mem [OF Some] show ?thesis by (simp add: Let_def)
  qed
qed

end
