(* ===== verification/Spec2Isabelle.thy ===== *)
theory Spec2Isabelle
  imports Outage Terminal Report
begin

text \<open>
  veldb is an in-memory column store with SQL, vector distances, a write-ahead log, snapshots, a read-only
  replica, an HTTP and a gRPC interface, a console and a benchmark runner, written in Rust. This development
  models the code under \<open>src/\<close> function by function; a definition has the name of the Rust item unless that
  name is taken in HOL (\<open>norm_f32\<close> for \<open>norm\<close>) or one Rust function needs several definitions (its loops,
  its closures). Each theory begins with what it holds.

  \<^bold>\<open>Data.\<close> \<open>Prelude\<close>: words, results as sums with \<open>and_then\<close> for the question mark, little-endian bytes. \<open>Text\<close>:
  strings as lists of Unicode scalar values and their UTF-8. \<open>Ieee\<close> and \<open>Decimal\<close>: floats on their bits, parsed
  and printed. \<open>Faults\<close>: the errors of all components as one datatype, a panic included.

  \<^bold>\<open>Storage.\<close> \<open>Column\<close> (\<open>column.rs\<close>): values, the string arena, typed columns; \<open>Table\<close> (\<open>table.rs\<close>): schemas,
  tables and the invariant \<open>table_rep t rows\<close>, the rows a table stands for; \<open>Codec\<close> (\<open>codec.rs\<close>): the binary format,
  with the locales \<open>byte_codec\<close> and \<open>array_elem\<close> for its readers; \<open>Storage\<close> (\<open>storage.rs\<close>): records, the framed
  file with its checksums, snapshot images; \<open>Database\<close> (\<open>db.rs\<close>): the catalogue, the write path (memory first,
  then the log), snapshots, opening a directory, and the invariant \<open>durable\<close>: replaying what is on disk gives
  what is in memory. \<open>Recovery\<close>: every operation keeps \<open>durable\<close>; the locale \<open>recoverable\<close> turns this into the
  theorems about runs and crashes, and the cases where a restart does not give the acknowledged state.
  \<open>Concurrency\<close>: the same write path cut at its locks, as steps of several clients. \<open>Replication\<close>
  (\<open>replication.rs\<close>, half of \<open>http.rs\<close>): primary, replica and the turns of the loop that follows.

  \<^bold>\<open>Queries.\<close> \<open>Sql\<close> (\<open>sql.rs\<close>): from the tree of the parser to the plan; \<open>Plan\<close> (\<open>plan.rs\<close>): plans and their
  traversals; \<open>Like\<close> (\<open>like.rs\<close>): two matchers and the meaning of patterns; \<open>Exec\<close> and \<open>Select\<close> (\<open>exec.rs\<close>):
  vectorised expressions and the execution of a query; \<open>Engine\<close>: \<open>Database::execute\<close>. About them: \<open>Pointwise\<close>
  (evaluation over a selection is evaluation row by row), \<open>Selection\<close> (filter, order, cut; the locale \<open>comparison\<close>
  for the sort keys), \<open>Grouping\<close> (groups and aggregates), \<open>Binding\<close> (a planned query fits its schema and its
  expressions do not panic), \<open>Calendar\<close> (days to dates), \<open>Kernels\<close> (the rest of \<open>simd.rs\<close>), \<open>Contracts\<close>
  (statements end to end).

  \<^bold>\<open>Ends.\<close> \<open>Interfaces\<close> (\<open>http.rs\<close>, \<open>grpc.rs\<close>, the JSON of \<open>column.rs\<close>): conversions and handlers, the locale
  \<open>front_end\<close>; \<open>Server\<close> (\<open>bin/server.rs\<close>): arguments, start and stop; \<open>Service\<close>: the routes of \<open>http.rs\<close> as a function
  from a request to a response, the calls of gRPC and the snapshot timer as events, the connection of \<open>client.rs\<close>;
  \<open>Console\<close> (\<open>cli.rs\<close>, \<open>bin/cli.rs\<close>): completion, statements, a turn of the interactive loop, tables; \<open>Terminal\<close>:
  the client as a program against a server; \<open>Loader\<close> and \<open>Report\<close> (\<open>bin/bench.rs\<close>): loading, generating, timing and
  the report, with \<open>Fixed\<close> for numbers with a fixed number of decimals. \<open>Sessions\<close>: a server from its start to the
  next one, a replica that follows it over HTTP, and the second session. \<open>Outage\<close>: statements whose log record
  cannot be written. \<open>Samples\<close>: a concrete SQL engine and a
  concrete JSON library, which show that the laws asked of the libraries can hold. This theory adds the
  property that runs through request, table, log, disk and start.

  \<^bold>\<open>How the parts meet.\<close> A request or a typed line becomes SQL text; \<open>Engine\<close> parses and plans it, a query is
  executed over the columns of its table, a change goes through \<open>Database\<close> to the tables and to the log. The
  log and the snapshot are all that \<open>db_open\<close> has after a restart, and all that a replica gets over HTTP.

  \<^bold>\<open>Conventions.\<close> Integers keep their width (\<open>i64\<close>, \<open>u64\<close>, \<open>u32\<close>, \<open>u8\<close> are words; lengths and indices are natural
  numbers where the source cannot overflow them); arithmetic wraps as in a release build. Files are byte
  lists: reading, writing and \<open>fsync\<close> succeed, and a crash is one of the states that the writes can leave;
  only \<open>Outage\<close> lets the write of a log record fail, cut short or not synced. Allocation succeeds, also for a
  count that a damaged file announces, where the source may panic before it finds that the bytes end. A panic is the error \<open>Panic\<close>; an index or a slice out of range is one. NaN results are the
  canonical NaN. An error is a value, not its text; what the programs print themselves is exact (\<open>uni\<close> gives
  the Cyrillic by code points). A clock is a list of times. Loops are structural recursion or functions
  with a termination proof; the only fuel is that of the digit search in \<open>Decimal\<close> (400 steps
  for the exponent, enough by \<open>dec_exp_fuel\<close>; at most 17 digits, which determine a double). The loop of the
  matcher of \<open>Like\<close> is a partial function, and \<open>like_terminates\<close> shows that it returns.

  \<^bold>\<open>Parameters\<close> are what the source takes from elsewhere: \<open>lower\<close>, \<open>upper\<close> and \<open>alnum\<close> (Unicode tables), \<open>order\<close>
  (iteration over a hash map, \<open>lists_keys\<close> says that it lists every key once), \<open>hash\<close> (of strings, with
  collisions), the SQL parser and its printer (the record \<open>engine\<close>), the JSON library and the reading of bodies and
  query strings (the record \<open>wire\<close>), the files of the programs as texts, the lines typed, the times taken. A
  server is a function on its state, which may give no response. Theorems name what they assume of them.

  \<^bold>\<open>Not modelled.\<close> The asynchronous runtime, sockets, the timing of ticks and signals; the line editor with its
  history; the reading of command lines, which a macro generates; the lines a server or a load writes to its
  log; the parallel variants of loops, which compute the same values in the same order; poisoning of locks;
  requests that overlap, but for the writers of \<open>Concurrency\<close>; \<open>lib.rs\<close> and
  \<open>build.rs\<close>, which only declare modules and generate the gRPC code. The executor is modelled with the
  portable vector kernels; those for NEON are defined in \<open>Kernels\<close>.
\<close>

section \<open>From a request to the next start\<close>

text \<open>
  C3: an insert that a server with a \<open>durable\<close> database has acknowledged, over HTTP or gRPC, survives: a server
  started on the files left at that moment, without a final snapshot, has exactly the tables of the one that
  answered, and in the table of the request the converted rows follow the old ones. \<open>durable\<close> is a condition:
  replaying the files gives the tables in memory, and the log is numbered above the snapshot. It holds in the
  first session on a data directory and is kept by every operation; after a regular stop the numbers start
  again at 1, below that of the snapshot, it fails, and \<open>Recovery\<close> and \<open>Sessions\<close> show acknowledged writes being lost. The
  names and rows are within the lengths of the format, an LSN is left, and the write succeeds.
\<close>

theorem acknowledged_insert_survives:
  assumes dur: "durable lower db" and lsn: "lsn_left db" and t: "table_of lower (tables db) n = Some t"
    and fits: "\<forall>rs. convert_rows (from_json as_i as_f) (tschema t) jrows = Inr rs \<or> convert_rows from_pb (tschema t) prows = Inr rs \<longrightarrow>
      op_fits lower db (Op_insert n rs)"
    and ack: "http_insert lower order as_i as_f db n jrows = (db', Inr k) \<or> grpc_insert lower order db n prows = (db', Inr w)"
    and start: "a_data args = Some (disk_of db')" "parse_durability (a_durability args) = Inr d" "a_max_memory args = None"
  shows "\<exists>db'' t' rs. start_up lower args = Inr db'' \<and> tables db'' = tables db' \<and> table_of lower (tables db'') n = Some t' \<and>
    (convert_rows (from_json as_i as_f) (tschema t) jrows = Inr rs \<or> convert_rows from_pb (tschema t) prows = Inr rs) \<and>
    (\<forall>old. table_rep t old \<longrightarrow> table_rep t' (old @ rs))"
proof -
  obtain rs m where c: "convert_rows (from_json as_i as_f) (tschema t) jrows = Inr rs \<or> convert_rows from_pb (tschema t) prows = Inr rs"
    and i: "insert_rows lower order db n rs = (db', Inr m)"
    using ack t by (auto simp: http_insert_def grpc_insert_def split: sum.splits prod.splits)
  note step = insert_rows_step [OF dur _ lsn i]
  have f: "op_fits lower db (Op_insert n rs)" using c fits by blast
  from step(1) [OF f] durable_open [of lower db' d] start obtain db'' where db'': "start_up lower args = Inr db''" "tables db'' = tables db'"
    by (auto simp: start_up_def with_context_def)
  from step(3) [OF f refl] t obtain t' where "tables db' = (tables db)(key lower n \<mapsto> t')"
    "\<forall>old. table_rep t old \<longrightarrow> table_rep t' (old @ rs)" by auto
  with c db'' show ?thesis by (intro exI [of _ db''] exI [of _ t'] exI [of _ rs]) (simp add: table_of_def)
qed

theorem acknowledged_insert_survives_witness:
  "\<exists>db' db'' t' rs. http_insert to_ascii_lowercase demo_order Some int_as_f64 demo_created (str ''t'') [[J_Number 7, J_String (str ''ab'')]] = (db', Inr 1) \<and>
    start_up to_ascii_lowercase
      \<lparr>a_data = Some (disk_of db'), a_durability = str ''fsync'', a_max_memory = None, a_interval = 0, a_replica = False\<rparr> = Inr db'' \<and>
    tables db'' = tables db' \<and> table_of to_ascii_lowercase (tables db'') (str ''t'') = Some t' \<and>
    (convert_rows (from_json Some int_as_f64) (tschema Recovery.demo_table) [[J_Number 7, J_String (str ''ab'')]] = Inr rs \<or>
     convert_rows from_pb (tschema Recovery.demo_table) [[Some (Kind_I 7), Some (Kind_S (str ''ab''))]] = Inr rs) \<and>
    (\<forall>old. table_rep Recovery.demo_table old \<longrightarrow> table_rep t' (old @ rs))"
proof -
  have t: "table_of to_ascii_lowercase (tables demo_created) (str ''t'') = Some Recovery.demo_table"
    by (simp add: table_of_def key_def demo_key demo_created_tables)
  obtain s where s: "store demo_created = Some s" using demo_created_store by blast
  obtain db' where "insert_rows to_ascii_lowercase demo_order demo_created (str ''t'') [demo_row] = (db', Inr 1)"
    using demo_inner demo_log [OF s] demo_created_rest by (simp add: insert_rows_def deny_if_read_only_def)
  then have ack: "http_insert to_ascii_lowercase demo_order Some int_as_f64 demo_created (str ''t'') [[J_Number 7, J_String (str ''ab'')]] = (db', Inr 1)"
    using t served_rows_fit(1) by (simp add: http_insert_def)
  have fits: "\<forall>rs. convert_rows (from_json Some int_as_f64) (tschema Recovery.demo_table) [[J_Number 7, J_String (str ''ab'')]] = Inr rs \<or>
      convert_rows from_pb (tschema Recovery.demo_table) [[Some (Kind_I 7), Some (Kind_S (str ''ab''))]] = Inr rs \<longrightarrow>
    op_fits to_ascii_lowercase demo_created (Op_insert (str ''t'') rs)"
    using demo_op_fits by (simp add: served_rows_fit del: op_fits.simps)
  show ?thesis
    using acknowledged_insert_survives [OF demo_created_durable demo_lsn_left t fits disjI1 [OF ack],
        of "\<lparr>a_data = Some (disk_of db'), a_durability = str ''fsync'', a_max_memory = None, a_interval = 0, a_replica = False\<rparr>" Fsync] ack
    by (simp add: parse_durability_def)
qed

end
